(* ===== verification/VM_Prelude.thy ===== *)
theory VM_Prelude
  imports Main "HOL-Library.Word"
begin

text \<open>
  Shared vocabulary of the development: the Go integer types as machine words,
  decimal formatting (the verb \<^verbatim>\<open>%d\<close> of package fmt), the collections of simplification rules
  that the component theories fill, and the generic facts on keyed tables (lists of rows with
  a primary key) that every SQL statement of the model is built from.
\<close>

section \<open>Go integers\<close>

type_synonym uint32 = "32 word"
type_synonym uint64 = "64 word"

lemma word_succ_greater:
  fixes v :: uint32
  assumes "v < m"
  shows "v < v + 1"
  using assms by unat_arith

section \<open>Decimal formatting\<close>

definition digit :: "nat \<Rightarrow> char" where
  "digit n = char_of (48 + n)"

fun decimal :: "nat \<Rightarrow> string" where
  "decimal n = (if n < 10 then [digit n] else decimal (n div 10) @ [digit (n mod 10)])"

declare decimal.simps [simp del]

section \<open>Rule collections\<close>

named_theorems sql_defs "definitions of the SQL statements"
named_theorems stmt_ok "statements that keep the schema invariant"
named_theorems wp_rules "weakest preconditions of the program combinators"

section \<open>Keyed tables\<close>

text \<open>
  A table is the list of its rows in insertion order. \<^verbatim>\<open>update_where\<close> and \<^verbatim>\<open>count_where\<close> are the
  effect of \<^verbatim>\<open>UPDATE .. WHERE\<close> and the value of \<^verbatim>\<open>SELECT COUNT(*) .. WHERE\<close> (or the number of rows
  a statement affected); \<^verbatim>\<open>keyed\<close> says that a column is a primary key.
\<close>

definition keyed :: "('row \<Rightarrow> 'k) \<Rightarrow> 'row list \<Rightarrow> bool" where
  "keyed f rows = distinct (map f rows)"

definition keys :: "('row \<Rightarrow> 'k) \<Rightarrow> 'row list \<Rightarrow> 'k list" where
  "keys f rows = map f rows"

definition count_where :: "('row \<Rightarrow> bool) \<Rightarrow> 'row list \<Rightarrow> nat" where
  "count_where P rows = length (filter P rows)"

definition update_where :: "('row \<Rightarrow> bool) \<Rightarrow> ('row \<Rightarrow> 'row) \<Rightarrow> 'row list \<Rightarrow> 'row list" where
  "update_where P g rows = map (\<lambda>r. if P r then g r else r) rows"

lemma set_keys [simp]: "set (keys f rows) = f ` set rows"
  by (simp add: keys_def)

lemma keys_Nil [simp]: "keys f [] = []"
  by (simp add: keys_def)

lemma keys_append [simp]: "keys f (xs @ ys) = keys f xs @ keys f ys"
  by (simp add: keys_def)

lemma keys_Cons [simp]: "keys f (x # xs) = f x # keys f xs"
  by (simp add: keys_def)

lemma keyed_Nil [simp]: "keyed f []"
  by (simp add: keyed_def)

lemma keyed_filter: "keyed f rows \<Longrightarrow> keyed f (filter P rows)"
  by (simp add: keyed_def distinct_map_filter)

lemma keyed_snoc [simp]: "keyed f (rows @ [r]) = (keyed f rows \<and> f r \<notin> f ` set rows)"
  by (auto simp: keyed_def)

lemma keyed_inj: "keyed f rows \<Longrightarrow> r \<in> set rows \<Longrightarrow> r' \<in> set rows \<Longrightarrow> f r = f r' \<Longrightarrow> r = r'"
  by (auto simp: keyed_def distinct_map inj_on_def)

text \<open>A foreign key survives a delete of the key when the referencing rows go too.\<close>

lemma foreign_key_filter:
  assumes "f ` set xs \<subseteq> g ` set ys" and "\<And>x. x \<in> set xs \<Longrightarrow> P x \<Longrightarrow> f x \<noteq> i"
  shows "f ` set (filter P xs) \<subseteq> g ` set (filter (\<lambda>y. g y \<noteq> i) ys)"
proof
  fix k
  assume "k \<in> f ` set (filter P xs)"
  then obtain x where x: "x \<in> set xs" "P x" "k = f x" by auto
  with assms(1) obtain y where "y \<in> set ys" "f x = g y" by blast
  with x assms(2) [of x] show "k \<in> g ` set (filter (\<lambda>y. g y \<noteq> i) ys)" by auto
qed

lemma keyed_filter_eq:
  assumes "keyed f rows" and "r \<in> set rows"
  shows "filter (\<lambda>x. f x = f r) rows = [r]"
  using assms
proof (induction rows)
  case (Cons x xs)
  then show ?case
    by (cases "r = x") (auto simp: keyed_def filter_empty_conv image_iff)
qed simp

lemma filter_key_absent: "k \<notin> f ` set rows \<Longrightarrow> filter (\<lambda>x. f x = k) rows = []"
  by (auto simp: filter_empty_conv)

lemma length_update_where [simp]: "length (update_where P g rows) = length rows"
  by (simp add: update_where_def)

lemma set_update_where:
  "set (update_where P g rows) = (\<lambda>r. if P r then g r else r) ` set rows"
  by (simp add: update_where_def)

lemma update_whereE:
  assumes "r \<in> set (update_where P g rows)"
  obtains u where "u \<in> set rows" and "r = (if P u then g u else u)"
  using assms that unfolding set_update_where by blast

lemma keys_update_where [simp]:
  "(\<And>r. f (g r) = f r) \<Longrightarrow> keys f (update_where P g rows) = keys f rows"
  by (induction rows) (auto simp: update_where_def)

lemma map_update_where:
  "(\<And>r. f (g r) = f r) \<Longrightarrow> map f (update_where P g rows) = map f rows"
  using keys_update_where [of f g P rows] by (simp add: keys_def)

lemma keyed_update_where [simp]:
  "(\<And>r. f (g r) = f r) \<Longrightarrow> keyed f (update_where P g rows) = keyed f rows"
  by (simp add: keyed_def map_update_where)

lemma image_update_where [simp]:
  "(\<And>r. f (g r) = f r) \<Longrightarrow> f ` set (update_where P g rows) = f ` set rows"
  using map_update_where [of f g P rows] by (metis list.set_map)

lemma update_where_none: "(\<And>r. r \<in> set rows \<Longrightarrow> \<not> P r) \<Longrightarrow> update_where P g rows = rows"
  by (simp add: update_where_def map_idI)

lemma count_where_0 [simp]: "count_where P rows = 0 \<longleftrightarrow> (\<forall>r\<in>set rows. \<not> P r)"
  by (simp add: count_where_def filter_empty_conv)

lemma count_where_pos: "0 < count_where P rows \<longleftrightarrow> (\<exists>r\<in>set rows. P r)"
  using count_where_0 [of P rows] by (metis gr0I less_numeral_extra(3))

lemma count_where_key:
  "keyed f rows \<Longrightarrow> count_where (\<lambda>r. f r = k) rows = (if k \<in> f ` set rows then 1 else 0)"
  by (auto simp: count_where_def keyed_filter_eq filter_key_absent)

lemma sort_key_map_key: "sort_key f (map g xs) = map g (sort_key (\<lambda>x. f (g x)) xs)"
proof -
  have "insort_key f (g x) (map g ys) = map g (insort_key (\<lambda>x. f (g x)) x ys)" for x ys
    by (induction ys) simp_all
  then show ?thesis by (induction xs) simp_all
qed

end
