(* ===== verification/VM_Base64.thy ===== *)
theory VM_Base64
  imports VM_Prelude
begin

text \<open>
  The part of Go's package encoding/base64 that page tokens go through: \<^verbatim>\<open>StdEncoding\<close> with padding.
  A string is its bytes, one \<^verbatim>\<open>char\<close> each. The decoder skips carriage returns and newlines wherever
  they are, wants the padding, allows nothing after it and ignores the unused low bits.
\<close>

section \<open>The alphabet\<close>

definition enc64 :: "nat \<Rightarrow> char" where
  "enc64 n =
     (if n < 26 then char_of (65 + n)
      else if n < 52 then char_of (97 + (n - 26))
      else if n < 62 then char_of (48 + (n - 52))
      else if n = 62 then CHR ''+'' else CHR ''/'')"

definition dec64 :: "char \<Rightarrow> nat option" where
  "dec64 c =
     (let n = of_char c in
      if 65 \<le> n \<and> n \<le> 90 then Some (n - 65)
      else if 97 \<le> n \<and> n \<le> 122 then Some (n - 97 + 26)
      else if 48 \<le> n \<and> n \<le> 57 then Some (n - 48 + 52)
      else if c = CHR ''+'' then Some 62
      else if c = CHR ''/'' then Some 63
      else None)"

definition is_newline :: "char \<Rightarrow> bool" where
  "is_newline c = (of_char c = (10 :: nat) \<or> of_char c = (13 :: nat))"

lemma less_64_cases:
  assumes "n < (64 :: nat)"
  shows "n < 26 \<or> (26 \<le> n \<and> n < 52) \<or> (52 \<le> n \<and> n < 62) \<or> n = 62 \<or> n = 63"
  using assms by arith

lemma dec64_enc64 [simp]: "n < 64 \<Longrightarrow> dec64 (enc64 n) = Some n"
  using less_64_cases [of n]
  by (auto simp: enc64_def dec64_def Let_def)

lemma dec64_newline: "is_newline c \<Longrightarrow> dec64 c = None"
  by (auto simp: is_newline_def dec64_def Let_def)

lemma enc64_simps [simp]:
  assumes "n < 64"
  shows "enc64 n \<noteq> CHR ''=''" and "\<not> is_newline (enc64 n)"
proof -
  have eq: "dec64 (CHR ''='') = None" by (simp add: dec64_def)
  show "enc64 n \<noteq> CHR ''=''"
    using dec64_enc64 [OF assms] eq by (metis option.distinct(1))
  show "\<not> is_newline (enc64 n)"
    using dec64_enc64 [OF assms] dec64_newline by (metis option.distinct(1))
qed

section \<open>Encoding and decoding\<close>

fun EncodeToString :: "string \<Rightarrow> string" where
  "EncodeToString [] = []"
| "EncodeToString [a] =
     (let x = of_char a :: nat in
      [enc64 (x div 4), enc64 (x mod 4 * 16), CHR ''='', CHR ''=''])"
| "EncodeToString [a, b] =
     (let x = of_char a :: nat; y = of_char b :: nat in
      [enc64 (x div 4), enc64 (x mod 4 * 16 + y div 16), enc64 (y mod 16 * 4), CHR ''=''])"
| "EncodeToString (a # b # c # rest) =
     (let x = of_char a :: nat; y = of_char b :: nat; z = of_char c :: nat in
      [enc64 (x div 4), enc64 (x mod 4 * 16 + y div 16), enc64 (y mod 16 * 4 + z div 64),
       enc64 (z mod 64)] @ EncodeToString rest)"

fun decode_quanta :: "string \<Rightarrow> string option" where
  "decode_quanta [] = Some []"
| "decode_quanta (a # b # c # d # rest) =
     (case (dec64 a, dec64 b) of
        (Some i, Some j) \<Rightarrow>
          if c = CHR ''='' then
            (if d = CHR ''='' \<and> rest = [] then Some [char_of (i * 4 + j div 16)] else None)
          else
            (case dec64 c of
               None \<Rightarrow> None
             | Some k \<Rightarrow>
                 if d = CHR ''='' then
                   (if rest = [] then
                      Some [char_of (i * 4 + j div 16), char_of (j mod 16 * 16 + k div 4)]
                    else None)
                 else
                   (case dec64 d of
                      None \<Rightarrow> None
                    | Some l \<Rightarrow>
                        map_option (\<lambda>bs. char_of (i * 4 + j div 16) # char_of (j mod 16 * 16 + k div 4)
                                      # char_of (k mod 4 * 64 + l) # bs)
                          (decode_quanta rest)))
      | _ \<Rightarrow> None)"
| "decode_quanta _ = None"

definition DecodeString :: "string \<Rightarrow> string option" where
  "DecodeString s = decode_quanta (filter (\<lambda>c. \<not> is_newline c) s)"

lemma of_char_less_256 [simp]: "(of_char c :: nat) < 256"
  by (rule nat_of_char_less_256)

lemma quot_rem:
  fixes a b m :: nat
  assumes "b < m"
  shows "(a * m + b) div m = a" and "(a * m + b) mod m = b"
  using assms by simp_all

lemma split_bytes:
  fixes x y z :: nat
  assumes "x < 256" "y < 256" "z < 256"
  shows "x div 4 < 64" "x mod 4 * 16 + y div 16 < 64" "y mod 16 * 4 + z div 64 < 64"
    "x mod 4 * 16 < 64" "y mod 16 * 4 < 64" "z mod 64 < 64"
    "x div 4 * 4 + (x mod 4 * 16 + y div 16) div 16 = x"
    "x div 4 * 4 + (x mod 4 * 16) div 16 = x"
    "(x mod 4 * 16 + y div 16) mod 16 * 16 + (y mod 16 * 4 + z div 64) div 4 = y"
    "(x mod 4 * 16 + y div 16) mod 16 * 16 + (y mod 16 * 4) div 4 = y"
    "(y mod 16 * 4 + z div 64) mod 4 * 64 + z mod 64 = z"
proof -
  have small: "y div 16 < 16" "z div 64 < 4" "x mod 4 < 4" "y mod 16 < 16"
    using assms by (simp_all add: less_mult_imp_div_less)
  show "x div 4 < 64" "x mod 4 * 16 < 64" "y mod 16 * 4 < 64" "z mod 64 < 64"
    "x mod 4 * 16 + y div 16 < 64" "y mod 16 * 4 + z div 64 < 64"
    using assms small by (simp_all add: less_mult_imp_div_less)
  show "x div 4 * 4 + (x mod 4 * 16 + y div 16) div 16 = x"
    "x div 4 * 4 + (x mod 4 * 16) div 16 = x"
    using small(1) by (simp_all add: quot_rem)
  show "(x mod 4 * 16 + y div 16) mod 16 * 16 + (y mod 16 * 4 + z div 64) div 4 = y"
    "(x mod 4 * 16 + y div 16) mod 16 * 16 + (y mod 16 * 4) div 4 = y"
    "(y mod 16 * 4 + z div 64) mod 4 * 64 + z mod 64 = z"
    using small(1,2) by (simp_all add: quot_rem)
qed

lemma newline_eq [simp]: "\<not> is_newline (CHR ''='')"
  by (simp add: is_newline_def)

lemma EncodeToString_no_newline: "filter (\<lambda>c. \<not> is_newline c) (EncodeToString bs) = EncodeToString bs"
proof (induction bs rule: EncodeToString.induct)
  case (2 a)
  show ?case
    using split_bytes [of "of_char a" 0 0] by (simp add: Let_def)
next
  case (3 a b)
  show ?case
    using split_bytes [of "of_char a" "of_char b" 0] by (simp add: Let_def)
next
  case (4 a b c rest)
  then show ?case
    using split_bytes [of "of_char a" "of_char b" "of_char c"] by (simp add: Let_def)
qed simp

lemma decode_quanta_encode: "decode_quanta (EncodeToString bs) = Some bs"
proof (induction bs rule: EncodeToString.induct)
  case (2 a)
  show ?case
    using split_bytes [of "of_char a" 0 0] by (simp add: Let_def)
next
  case (3 a b)
  show ?case
    using split_bytes [of "of_char a" "of_char b" 0] by (simp add: Let_def)
next
  case (4 a b c rest)
  then show ?case
    using split_bytes [of "of_char a" "of_char b" "of_char c"] by (simp add: Let_def)
qed simp

lemma DecodeString_EncodeToString: "DecodeString (EncodeToString bs) = Some bs"
  by (simp add: DecodeString_def EncodeToString_no_newline decode_quanta_encode)

end
