(* ===== verification/VM_Json.thy ===== *)
theory VM_Json
  imports VM_Prelude
begin

text \<open>
  The part of Go's package encoding/json the program uses: marshalling a flat struct of numbers and
  strings, and unmarshalling into such a struct. Text is bytes. The decoder first checks the syntax
  of the whole input (one value, at most 10000 levels deep, nothing but white space after it) and
  then stores the members of the object: a key selects the field with exactly that name or, failing
  that, one that is equal up to case folding; null leaves a field alone; a value of the wrong type
  makes the call fail; unknown keys are skipped. The text of the package's own errors is not
  modelled, a failing call is \<^verbatim>\<open>None\<close>.
\<close>

datatype json =
    JNull | JBool bool | JNum string | JStr string
  | JArr "json list" | JObj "(string \<times> json) list"

section \<open>UTF-8\<close>

definition between :: "nat \<Rightarrow> nat \<Rightarrow> char \<Rightarrow> bool" where
  "between lo hi c = (lo \<le> of_char c \<and> of_char c \<le> hi)"

abbreviation cont :: "char \<Rightarrow> bool" where
  "cont c \<equiv> between 128 191 c"

text \<open>The length of the valid encoding of one code point at the head of the bytes; 0 if there is none.\<close>

definition rune_len :: "string \<Rightarrow> nat" where
  "rune_len s =
     (case s of
        [] \<Rightarrow> 0
      | a # r \<Rightarrow>
          if between 0 127 a then 1
          else
            (case r of
               [] \<Rightarrow> 0
             | b # r1 \<Rightarrow>
                 if between 194 223 a then (if cont b then 2 else 0)
                 else
                   (case r1 of
                      [] \<Rightarrow> 0
                    | c # r2 \<Rightarrow>
                        if of_char a = (224 :: nat) then (if between 160 191 b \<and> cont c then 3 else 0)
                        else if of_char a = (237 :: nat) then (if between 128 159 b \<and> cont c then 3 else 0)
                        else if between 225 239 a then (if cont b \<and> cont c then 3 else 0)
                        else
                          (case r2 of
                             [] \<Rightarrow> 0
                           | e # r3 \<Rightarrow>
                               if of_char a = (240 :: nat) then
                                 (if between 144 191 b \<and> cont c \<and> cont e then 4 else 0)
                               else if between 241 243 a then (if cont b \<and> cont c \<and> cont e then 4 else 0)
                               else if of_char a = (244 :: nat) then
                                 (if between 128 143 b \<and> cont c \<and> cont e then 4 else 0)
                               else 0))))"

definition replacement_rune :: string where
  "replacement_rune = [char_of (239 :: nat), char_of (191 :: nat), char_of (189 :: nat)]"

fun to_valid_utf8 :: "string \<Rightarrow> string" where
  "to_valid_utf8 [] = []"
| "to_valid_utf8 (c # cs) =
     (let k = rune_len (c # cs) in
      if k = 0 then replacement_rune @ to_valid_utf8 cs
      else take k (c # cs) @ to_valid_utf8 (drop (k - 1) cs))"

text \<open>The encoding of a code point that an escape names.\<close>

definition encode_rune :: "nat \<Rightarrow> string" where
  "encode_rune r =
     (if r < 128 then [char_of r]
      else if r < 2048 then [char_of (192 + r div 64), char_of (128 + r mod 64)]
      else if 55296 \<le> r \<and> r \<le> 57343 then replacement_rune
      else if r < 65536 then
        [char_of (224 + r div 4096), char_of (128 + r div 64 mod 64), char_of (128 + r mod 64)]
      else if r < 1114112 then
        [char_of (240 + r div 262144), char_of (128 + r div 4096 mod 64),
         char_of (128 + r div 64 mod 64), char_of (128 + r mod 64)]
      else replacement_rune)"

section \<open>Lexical elements\<close>

definition is_space :: "char \<Rightarrow> bool" where
  "is_space c = (c = CHR '' '' \<or> of_char c \<in> {9 :: nat, 10, 13})"

definition skip_ws :: "string \<Rightarrow> string" where
  "skip_ws s = dropWhile is_space s"

definition is_digit :: "char \<Rightarrow> bool" where
  "is_digit c = between 48 57 c"

definition hex_value :: "char \<Rightarrow> nat option" where
  "hex_value c =
     (if is_digit c then Some (of_char c - 48)
      else if between 97 102 c then Some (of_char c - 87)
      else if between 65 70 c then Some (of_char c - 55)
      else None)"

definition hex4 :: "string \<Rightarrow> (nat \<times> string) option" where
  "hex4 s =
     (case s of
        a # b # c # d # r \<Rightarrow>
          (case (hex_value a, hex_value b, hex_value c, hex_value d) of
             (Some w, Some x, Some y, Some z) \<Rightarrow> Some (w * 4096 + x * 256 + y * 16 + z, r)
           | _ \<Rightarrow> None)
      | _ \<Rightarrow> None)"

text \<open>A \<^verbatim>\<open>\u\<close> escape; a surrogate pair is one code point, a lone surrogate is replaced.\<close>

definition unicode_escape :: "string \<Rightarrow> (string \<times> string) option" where
  "unicode_escape s =
     (case hex4 s of
        None \<Rightarrow> None
      | Some (u, r) \<Rightarrow>
          if 55296 \<le> u \<and> u < 56320 then
            (case r of
               e # f # r1 \<Rightarrow>
                 (if e = CHR 0x5C \<and> f = CHR ''u'' then
                    (case hex4 r1 of
                       Some (l, r2) \<Rightarrow>
                         if 56320 \<le> l \<and> l < 57344
                         then Some (encode_rune (65536 + (u - 55296) * 1024 + (l - 56320)), r2)
                         else Some (replacement_rune, r)
                     | None \<Rightarrow> Some (replacement_rune, r))
                  else Some (replacement_rune, r))
             | _ \<Rightarrow> Some (replacement_rune, r))
          else Some (encode_rune u, r))"

definition simple_escape :: "char \<Rightarrow> char option" where
  "simple_escape c =
     (if c = CHR 0x22 \<or> c = CHR 0x5C \<or> c = CHR ''/'' then Some c
      else if c = CHR ''b'' then Some (char_of (8 :: nat))
      else if c = CHR ''f'' then Some (char_of (12 :: nat))
      else if c = CHR ''n'' then Some (char_of (10 :: nat))
      else if c = CHR ''r'' then Some (char_of (13 :: nat))
      else if c = CHR ''t'' then Some (char_of (9 :: nat))
      else None)"

text \<open>What follows an opening quote: the contents and the rest after the closing one.\<close>

function string_body :: "string \<Rightarrow> (string \<times> string) option" where
  "string_body s =
     (case s of
        [] \<Rightarrow> None
      | c # r \<Rightarrow>
          if c = CHR 0x22 then Some ([], r)
          else if between 0 31 c then None
          else if c = CHR 0x5C then
            (case r of
               [] \<Rightarrow> None
             | e # r1 \<Rightarrow>
                 if e = CHR ''u'' then
                   (case unicode_escape r1 of
                      None \<Rightarrow> None
                    | Some (x, r2) \<Rightarrow>
                        if length r2 < length s
                        then map_option (\<lambda>(t, r3). (x @ t, r3)) (string_body r2) else None)
                 else
                   (case simple_escape e of
                      None \<Rightarrow> None
                    | Some x \<Rightarrow> map_option (\<lambda>(t, r3). (x # t, r3)) (string_body r1)))
          else map_option (\<lambda>(t, r3). (c # t, r3)) (string_body r))"
  by pat_completeness auto
termination
  by (relation "measure length") auto

declare string_body.simps [simp del]

text \<open>A number literal, kept as text until a field says what it should be.\<close>

definition number_literal :: "string \<Rightarrow> (string \<times> string) option" where
  "number_literal s =
     (let (sign, r0) = (case s of c # r \<Rightarrow> if c = CHR ''-'' then ([c], r) else ([], s) | [] \<Rightarrow> ([], s));
          ds = takeWhile is_digit r0; r1 = dropWhile is_digit r0 in
      if ds = [] \<or> (hd ds = CHR ''0'' \<and> length ds > 1) then None
      else
        (let frac = (case r1 of c # r \<Rightarrow>
                       if c = CHR ''.'' then
                         (let fs = takeWhile is_digit r in
                          if fs = [] then None else Some (c # fs, dropWhile is_digit r))
                       else Some ([], r1)
                     | [] \<Rightarrow> Some ([], r1)) in
         case frac of
           None \<Rightarrow> None
         | Some (fs, r2) \<Rightarrow>
             (case r2 of
                c # r \<Rightarrow>
                  if c = CHR ''e'' \<or> c = CHR ''E'' then
                    (let (sg, r3) = (case r of x # y \<Rightarrow>
                           if x = CHR ''+'' \<or> x = CHR ''-'' then ([x], y) else ([], r) | [] \<Rightarrow> ([], r));
                         es = takeWhile is_digit r3 in
                     if es = [] then None
                     else Some (sign @ ds @ fs @ c # sg @ es, dropWhile is_digit r3))
                  else Some (sign @ ds @ fs, r2)
              | [] \<Rightarrow> Some (sign @ ds @ fs, r2))))"

definition keyword :: "string \<Rightarrow> json \<Rightarrow> string \<Rightarrow> (json \<times> string) option" where
  "keyword w v s = (if take (length w) s = w then Some (v, drop (length w) s) else None)"

section \<open>Values\<close>

function (sequential) parse_value :: "nat \<Rightarrow> string \<Rightarrow> (json \<times> string) option"
  and parse_members :: "nat \<Rightarrow> string \<Rightarrow> ((string \<times> json) list \<times> string) option"
  and parse_elements :: "nat \<Rightarrow> string \<Rightarrow> (json list \<times> string) option" where
  "parse_value depth s =
     (case skip_ws s of
        [] \<Rightarrow> None
      | c # r \<Rightarrow>
          if c = CHR ''{'' then
            (if depth = 0 \<or> \<not> length r < length s then None
             else
               (case skip_ws r of
                  x # r1 \<Rightarrow>
                    if x = CHR ''}'' then Some (JObj [], r1)
                    else map_option (\<lambda>(ms, r2). (JObj ms, r2)) (parse_members (depth - 1) r)
                | [] \<Rightarrow> None))
          else if c = CHR ''['' then
            (if depth = 0 \<or> \<not> length r < length s then None
             else
               (case skip_ws r of
                  x # r1 \<Rightarrow>
                    if x = CHR '']'' then Some (JArr [], r1)
                    else map_option (\<lambda>(vs, r2). (JArr vs, r2)) (parse_elements (depth - 1) r)
                | [] \<Rightarrow> None))
          else if c = CHR 0x22 then
            map_option (\<lambda>(t, r1). (JStr (to_valid_utf8 t), r1)) (string_body r)
          else if c = CHR ''-'' \<or> is_digit c then
            map_option (\<lambda>(t, r1). (JNum t, r1)) (number_literal (c # r))
          else if c = CHR ''t'' then keyword ''true'' (JBool True) (c # r)
          else if c = CHR ''f'' then keyword ''false'' (JBool False) (c # r)
          else if c = CHR ''n'' then keyword ''null'' JNull (c # r)
          else None)"
| "parse_members depth s =
     (case skip_ws s of
        c # r \<Rightarrow>
          if c \<noteq> CHR 0x22 then None
          else
            (case string_body r of
               None \<Rightarrow> None
             | Some (k, r1) \<Rightarrow>
                 (case skip_ws r1 of
                    x # r2 \<Rightarrow>
                      if x \<noteq> CHR '':'' \<or> \<not> length r2 < length s then None
                      else
                        (case parse_value depth r2 of
                           None \<Rightarrow> None
                         | Some (v, r3) \<Rightarrow>
                             (case skip_ws r3 of
                                y # r4 \<Rightarrow>
                                  if y = CHR ''}'' then Some ([(to_valid_utf8 k, v)], r4)
                                  else if y = CHR '','' \<and> length r4 < length s then
                                    map_option (\<lambda>(ms, r5). ((to_valid_utf8 k, v) # ms, r5))
                                      (parse_members depth r4)
                                  else None
                              | [] \<Rightarrow> None))
                  | [] \<Rightarrow> None))
      | [] \<Rightarrow> None)"
| "parse_elements depth s =
     (case parse_value depth s of
        None \<Rightarrow> None
      | Some (v, r) \<Rightarrow>
          (case skip_ws r of
             y # r1 \<Rightarrow>
               if y = CHR '']'' then Some ([v], r1)
               else if y = CHR '','' \<and> length r1 < length s then
                 map_option (\<lambda>(vs, r2). (v # vs, r2)) (parse_elements depth r1)
               else None
           | [] \<Rightarrow> None))"
  by pat_completeness auto
termination
  by (relation "measure (\<lambda>x. case x of Inl (d, s) \<Rightarrow> 2 * length s
      | Inr (Inl (d, s)) \<Rightarrow> 2 * length s + 1 | Inr (Inr (d, s)) \<Rightarrow> 2 * length s + 1)") auto

declare parse_value.simps [simp del] parse_members.simps [simp del] parse_elements.simps [simp del]

definition max_nesting_depth :: nat where
  "max_nesting_depth = 10000"

definition parse_json :: "string \<Rightarrow> json option" where
  "parse_json s =
     (case parse_value max_nesting_depth s of
        Some (v, r) \<Rightarrow> if skip_ws r = [] then Some v else None
      | None \<Rightarrow> None)"

section \<open>Unmarshalling into a struct\<close>

text \<open>Case folding of keys: ASCII letters, the Kelvin sign and the long s.\<close>

fun fold_name :: "string \<Rightarrow> string" where
  "fold_name [] = []"
| "fold_name (c # cs) =
     (if between 97 122 c then char_of (of_char c - (32 :: nat)) # fold_name cs
      else if of_char c = (197 :: nat) \<and> take 1 cs = [char_of (191 :: nat)] then CHR ''S'' # fold_name (drop 1 cs)
      else if of_char c = (226 :: nat) \<and> take 2 cs = [char_of (132 :: nat), char_of (170 :: nat)]
        then CHR ''K'' # fold_name (drop 2 cs)
      else c # fold_name cs)"

definition find_field :: "string list \<Rightarrow> string \<Rightarrow> string option" where
  "find_field names k =
     (if k \<in> set names then Some k else find (\<lambda>f. fold_name f = fold_name k) names)"

definition digit_value :: "char \<Rightarrow> nat" where
  "digit_value c = of_char c - 48"

definition digits_value :: "string \<Rightarrow> nat" where
  "digits_value s = foldl (\<lambda>n c. 10 * n + digit_value c) 0 s"

text \<open>\<^verbatim>\<open>strconv.ParseUint(literal, 10, 32)\<close> on a JSON number literal.\<close>

definition parse_uint32 :: "string \<Rightarrow> uint32 option" where
  "parse_uint32 t =
     (if t \<noteq> [] \<and> list_all is_digit t \<and> digits_value t < 2 ^ 32 then Some (of_nat (digits_value t)) else None)"

text \<open>
  \<^verbatim>\<open>store f v x\<close> stores the value \<open>v\<close> in field \<open>f\<close> of the struct \<open>x\<close>, or fails on a wrong type.
\<close>

fun store_members ::
  "string list \<Rightarrow> (string \<Rightarrow> json \<Rightarrow> 's \<Rightarrow> 's option) \<Rightarrow> (string \<times> json) list \<Rightarrow> 's \<Rightarrow> 's option" where
  "store_members names store [] x = Some x"
| "store_members names store ((k, v) # ms) x =
     (case find_field names k of
        None \<Rightarrow> store_members names store ms x
      | Some f \<Rightarrow> Option.bind (store f v x) (store_members names store ms))"

definition Unmarshal ::
  "string list \<Rightarrow> (string \<Rightarrow> json \<Rightarrow> 's \<Rightarrow> 's option) \<Rightarrow> 's \<Rightarrow> string \<Rightarrow> 's option" where
  "Unmarshal names store zero s =
     (case parse_json s of
        Some (JObj ms) \<Rightarrow> store_members names store ms zero
      | Some JNull \<Rightarrow> Some zero
      | _ \<Rightarrow> None)"

definition store_uint32 :: "(uint32 \<Rightarrow> 's) \<Rightarrow> 's \<Rightarrow> json \<Rightarrow> 's option" where
  "store_uint32 set_field x v =
     (case v of
        JNum t \<Rightarrow> map_option set_field (parse_uint32 t)
      | JNull \<Rightarrow> Some x
      | _ \<Rightarrow> None)"

definition store_string :: "(string \<Rightarrow> 's) \<Rightarrow> 's \<Rightarrow> json \<Rightarrow> 's option" where
  "store_string set_field x v =
     (case v of JStr t \<Rightarrow> Some (set_field t) | JNull \<Rightarrow> Some x | _ \<Rightarrow> None)"

section \<open>Marshalling\<close>

definition hex_digit :: "nat \<Rightarrow> char" where
  "hex_digit n = (if n < 10 then char_of (48 + n) else char_of (87 + n))"

definition escape_byte :: "char \<Rightarrow> string" where
  "escape_byte c =
     (if c = CHR 0x22 \<or> c = CHR 0x5C then [CHR 0x5C, c]
      else if of_char c = (8 :: nat) then [CHR 0x5C, CHR ''b'']
      else if of_char c = (12 :: nat) then [CHR 0x5C, CHR ''f'']
      else if of_char c = (10 :: nat) then [CHR 0x5C, CHR ''n'']
      else if of_char c = (13 :: nat) then [CHR 0x5C, CHR ''r'']
      else if of_char c = (9 :: nat) then [CHR 0x5C, CHR ''t'']
      else if between 0 31 c \<or> c = CHR ''<'' \<or> c = CHR ''>'' \<or> c = CHR ''&'' then
        [CHR 0x5C, CHR ''u'', CHR ''0'', CHR ''0'', hex_digit (of_char c div 16), hex_digit (of_char c mod 16)]
      else [c])"

text \<open>
  The escapes of \<^verbatim>\<open>json.Marshal\<close>: invalid UTF-8 becomes the escape of the replacement character,
  the two line separators are escaped, every other valid code point beyond ASCII is copied.
\<close>

fun escape_string :: "string \<Rightarrow> string" where
  "escape_string [] = []"
| "escape_string (c # cs) =
     (if between 0 127 c then escape_byte c @ escape_string cs
      else
        (let k = rune_len (c # cs); r = take k (c # cs) in
         if k = 0 then CHR 0x5C # ''ufffd'' @ escape_string cs
         else if r = [char_of (226 :: nat), char_of (128 :: nat), char_of (168 :: nat)]
           then CHR 0x5C # ''u2028'' @ escape_string (drop (k - 1) cs)
         else if r = [char_of (226 :: nat), char_of (128 :: nat), char_of (169 :: nat)]
           then CHR 0x5C # ''u2029'' @ escape_string (drop (k - 1) cs)
         else r @ escape_string (drop (k - 1) cs)))"

definition quoted :: "string \<Rightarrow> string" where
  "quoted s = CHR 0x22 # escape_string s @ [CHR 0x22]"

section \<open>Round trips\<close>

lemma digit_is_digit [simp]: "n < 10 \<Longrightarrow> is_digit (digit n)"
  by (simp add: is_digit_def digit_def between_def)

lemma digit_value_digit [simp]: "n < 10 \<Longrightarrow> digit_value (digit n) = n"
  by (simp add: digit_value_def digit_def)

lemma decimal_digits: "list_all is_digit (decimal n)"
proof (induction n rule: decimal.induct)
  case (1 n)
  then show ?case by (subst decimal.simps) (simp add: list_all_append)
qed

lemma digits_value_snoc: "digits_value (s @ [c]) = 10 * digits_value s + digit_value c"
  by (simp add: digits_value_def)

lemma digits_value_decimal [simp]: "digits_value (decimal n) = n"
proof (induction n rule: decimal.induct)
  case (1 n)
  show ?case
  proof (cases "n < 10")
    case True
    then show ?thesis by (subst decimal.simps) (simp add: digits_value_def)
  next
    case False
    with 1 have "digits_value (decimal (n div 10)) = n div 10" by simp
    with False show ?thesis
      by (subst decimal.simps) (simp add: digits_value_snoc)
  qed
qed

lemma decimal_nonempty [simp]: "decimal n \<noteq> []"
  by (subst decimal.simps) simp

lemma digit_zero: "n < 10 \<Longrightarrow> digit n = CHR ''0'' \<longleftrightarrow> n = 0"
proof -
  assume n: "n < 10"
  have "digit_value (CHR ''0'') = 0" and "digit 0 = CHR ''0''"
    by code_simp+
  with digit_value_digit [OF n] show ?thesis by metis
qed

lemma decimal_no_leading_zero: "0 < n \<Longrightarrow> hd (decimal n) \<noteq> CHR ''0''"
proof (induction n rule: decimal.induct)
  case (1 n)
  show ?case
  proof (cases "n < 10")
    case True
    with 1 show ?thesis by (subst decimal.simps) (simp add: digit_zero)
  next
    case False
    with 1 have "hd (decimal (n div 10)) \<noteq> CHR ''0''" by simp
    with False show ?thesis by (subst decimal.simps) simp
  qed
qed

lemma decimal_leading: "hd (decimal n) = CHR ''0'' \<Longrightarrow> length (decimal n) = 1"
  using decimal_no_leading_zero [of n] by (cases "n = 0") (simp_all add: decimal.simps)

lemma parse_uint32_decimal [simp]: "parse_uint32 (decimal (unat n)) = Some n"
  using unsigned_less [of n] by (simp add: parse_uint32_def decimal_digits)

lemma takeWhile_digits: "list_all is_digit ds \<Longrightarrow> \<not> is_digit c \<Longrightarrow>
    takeWhile is_digit (ds @ c # r) = ds \<and> dropWhile is_digit (ds @ c # r) = c # r"
  by (induction ds) auto

lemma number_literal_decimal:
  assumes "c = CHR '','' \<or> c = CHR ''}''"
  shows "number_literal (decimal n @ c # r) = Some (decimal n, c # r)"
proof -
  have c: "\<not> is_digit c" "c \<noteq> CHR ''.''" "c \<noteq> CHR ''e''" "c \<noteq> CHR ''E''"
    using assms by (auto simp: is_digit_def between_def)
  obtain d ds where d: "decimal n = d # ds" by (cases "decimal n") auto
  then have "is_digit d" using decimal_digits [of n] by simp
  then have "d \<noteq> CHR ''-''" by (auto simp: is_digit_def between_def)
  moreover have "\<not> (hd (decimal n) = CHR ''0'' \<and> length (decimal n) > 1)"
    using decimal_leading [of n] by auto
  ultimately show ?thesis
    using d c takeWhile_digits [OF decimal_digits c(1), of n r]
    by (simp add: number_literal_def Let_def)
qed

end
