(* ===== verification/VM_Err.thy ===== *)
theory VM_Err
  imports VM_Prelude
begin

text \<open>
  Package vmerr (src/internal/lib/vmerr) and the part of Go's package errors it relies on.

  A non-nil Go \<^verbatim>\<open>error\<close> is a value of \<^verbatim>\<open>goerr\<close>; the interface value itself is a
  \<^verbatim>\<open>goerr option\<close> whose \<^verbatim>\<open>None\<close> is nil. Sentinel variables (\<^verbatim>\<open>var ErrX = errors.New(..)\<close>)
  are compared by identity in Go, hence a constructor each; \<^verbatim>\<open>fmt.Errorf\<close> keeps its text and
  its \<^verbatim>\<open>%w\<close> operands in order, so that both \<^verbatim>\<open>Error()\<close> and the unwrap tree can be computed.
  A call that may panic returns a \<^verbatim>\<open>result\<close>.
\<close>

section \<open>Go error values\<close>

datatype sentinel =
    ErrPanicAlreadyWrapped
  | ErrInternal | ErrNotFound | ErrMultipleRecords
  | ErrPanicBadListQuery | ErrPanicBadLimit
  | ErrPanicTokenMarshall | ErrBadPageToken
  | ErrMissingRequiredEnvVar | ErrMalformedEnvVar
  | ErrTxClosed | ErrTxCommitRollback
  | ErrMigration | ErrNoChange

datatype goerr =
    Sentinel sentinel
  | New string
  | PgError string string
  | Errorf parts
  | HttpError string nat goerr
and parts =
    End
  | Text string parts
  | Wrapped goerr parts

text \<open>
  \<^verbatim>\<open>HttpError problem statusCode wrapped\<close> is vmerr's struct; \<^verbatim>\<open>PgError code message\<close> is the
  server error that the driver reports, with its SQLSTATE code.
\<close>

type_synonym Problem = string

definition ProblemNotFound :: Problem where "ProblemNotFound = ''/errors/not-found''"
definition ProblemBadRequest :: Problem where "ProblemBadRequest = ''/errors/bad-request''"
definition ProblemInternalError :: Problem where "ProblemInternalError = ''/errors/internal-error''"
definition ProblemAlreadyExists :: Problem where "ProblemAlreadyExists = ''/errors/already-exists''"
definition ProblemDbSerialization :: Problem where
  "ProblemDbSerialization = ''/errors/db-serialization''"

lemmas problem_defs = ProblemNotFound_def ProblemBadRequest_def ProblemInternalError_def
  ProblemAlreadyExists_def ProblemDbSerialization_def

abbreviation errorf :: "string \<Rightarrow> goerr" where
  "errorf msg \<equiv> Errorf (Text msg End)"

abbreviation wrapf :: "string \<Rightarrow> goerr \<Rightarrow> goerr" where
  "wrapf pre e \<equiv> Errorf (Text pre (Wrapped e End))"

abbreviation wrapf_before :: "goerr \<Rightarrow> string \<Rightarrow> goerr" where
  "wrapf_before e post \<equiv> Errorf (Wrapped e (Text post End))"

fun sentinel_text :: "sentinel \<Rightarrow> string" where
  "sentinel_text ErrPanicAlreadyWrapped = ''error already wrapped''"
| "sentinel_text ErrInternal = ''database error''"
| "sentinel_text ErrNotFound = ''record not found''"
| "sentinel_text ErrMultipleRecords = ''multiple records found''"
| "sentinel_text ErrPanicBadListQuery = ''bad ListQuery''"
| "sentinel_text ErrPanicBadLimit = ''bad Limit''"
| "sentinel_text ErrPanicTokenMarshall = ''failed to marshall page token''"
| "sentinel_text ErrBadPageToken = ''failed to read page token''"
| "sentinel_text ErrMissingRequiredEnvVar = ''missing required environment variable''"
| "sentinel_text ErrMalformedEnvVar = ''malformed environment variable''"
| "sentinel_text ErrTxClosed = ''tx is closed''"
| "sentinel_text ErrTxCommitRollback = ''commit unexpectedly resulted in rollback''"
| "sentinel_text ErrMigration = ''migration error''"
| "sentinel_text ErrNoChange = ''no change''"

text \<open>\<^verbatim>\<open>err.Error()\<close>; an HttpError prints the error it wraps (err.go, method Error).\<close>

primrec error_text :: "goerr \<Rightarrow> string" and parts_text :: "parts \<Rightarrow> string" where
  "error_text (Sentinel x) = sentinel_text x"
| "error_text (New msg) = msg"
| "error_text (PgError code msg) = ''ERROR: '' @ msg @ '' (SQLSTATE '' @ code @ '')''"
| "error_text (Errorf ps) = parts_text ps"
| "error_text (HttpError p st e) = error_text e"
| "parts_text End = []"
| "parts_text (Text t ps) = t @ parts_text ps"
| "parts_text (Wrapped e ps) = error_text e @ parts_text ps"

text \<open>
  \<^verbatim>\<open>errors.Is(err, sentinel)\<close> and \<^verbatim>\<open>errors.As\<close> for the two error types the program asks for:
  depth-first search of the unwrap tree, the error itself before what it wraps.
\<close>

primrec errors_Is :: "goerr \<Rightarrow> sentinel \<Rightarrow> bool"
  and parts_Is :: "parts \<Rightarrow> sentinel \<Rightarrow> bool" where
  "errors_Is (Sentinel x) t = (x = t)"
| "errors_Is (New msg) t = False"
| "errors_Is (PgError code msg) t = False"
| "errors_Is (Errorf ps) t = parts_Is ps t"
| "errors_Is (HttpError p st e) t = errors_Is e t"
| "parts_Is End t = False"
| "parts_Is (Text x ps) t = parts_Is ps t"
| "parts_Is (Wrapped e ps) t = (errors_Is e t \<or> parts_Is ps t)"

primrec as_HttpError :: "goerr \<Rightarrow> (Problem \<times> nat \<times> goerr) option"
  and parts_HttpError :: "parts \<Rightarrow> (Problem \<times> nat \<times> goerr) option" where
  "as_HttpError (Sentinel x) = None"
| "as_HttpError (New msg) = None"
| "as_HttpError (PgError code msg) = None"
| "as_HttpError (Errorf ps) = parts_HttpError ps"
| "as_HttpError (HttpError p st e) = Some (p, st, e)"
| "parts_HttpError End = None"
| "parts_HttpError (Text x ps) = parts_HttpError ps"
| "parts_HttpError (Wrapped e ps) =
     (case as_HttpError e of Some h \<Rightarrow> Some h | None \<Rightarrow> parts_HttpError ps)"

primrec as_PgError :: "goerr \<Rightarrow> string option"
  and parts_PgError :: "parts \<Rightarrow> string option" where
  "as_PgError (Sentinel x) = None"
| "as_PgError (New msg) = None"
| "as_PgError (PgError code msg) = Some code"
| "as_PgError (Errorf ps) = parts_PgError ps"
| "as_PgError (HttpError p st e) = as_PgError e"
| "parts_PgError End = None"
| "parts_PgError (Text x ps) = parts_PgError ps"
| "parts_PgError (Wrapped e ps) =
     (case as_PgError e of Some h \<Rightarrow> Some h | None \<Rightarrow> parts_PgError ps)"

section \<open>Results of calls that may fail or panic\<close>

datatype 'a result = Ok 'a | Err goerr | Panic goerr

section \<open>err.go: attaching an HTTP problem to an error\<close>

definition checkAlreadyWrapped :: "goerr \<Rightarrow> unit result" where
  "checkAlreadyWrapped e =
     (case as_HttpError e of
        None \<Rightarrow> Ok ()
      | Some h \<Rightarrow> Panic (Errorf (Wrapped (Sentinel ErrPanicAlreadyWrapped)
                              (Text '': '' (Text (error_text e) End)))))"

text \<open>The five constructors share one body: nil stays nil, a wrapped error panics.\<close>

definition httpWrap :: "Problem \<Rightarrow> nat \<Rightarrow> goerr option \<Rightarrow> goerr option result" where
  "httpWrap p st err =
     (case err of
        None \<Rightarrow> Ok None
      | Some e \<Rightarrow>
          (case checkAlreadyWrapped e of
             Panic x \<Rightarrow> Panic x
           | Err x \<Rightarrow> Err x
           | Ok u \<Rightarrow> Ok (Some (HttpError p st e))))"

definition NotFound :: "goerr option \<Rightarrow> goerr option result" where
  "NotFound = httpWrap ProblemNotFound 404"

definition BadRequest :: "goerr option \<Rightarrow> goerr option result" where
  "BadRequest = httpWrap ProblemBadRequest 400"

definition InternalError :: "goerr option \<Rightarrow> goerr option result" where
  "InternalError = httpWrap ProblemInternalError 500"

definition AlreadyExists :: "goerr option \<Rightarrow> goerr option result" where
  "AlreadyExists = httpWrap ProblemAlreadyExists 409"

definition DbSerialization :: "goerr option \<Rightarrow> goerr option result" where
  "DbSerialization = httpWrap ProblemDbSerialization 409"

lemmas vmerr_defs = NotFound_def BadRequest_def InternalError_def AlreadyExists_def
  DbSerialization_def

text \<open>
  \<^verbatim>\<open>return zero, f(e)\<close> for one of the constructors \<^verbatim>\<open>f\<close> and a non-nil error \<^verbatim>\<open>e\<close>: the value a
  caller sees is the error.
\<close>

definition fail_with :: "(goerr option \<Rightarrow> goerr option result) \<Rightarrow> goerr \<Rightarrow> 'a result" where
  "fail_with f e =
     (case f (Some e) of
        Ok (Some h) \<Rightarrow> Err h
      | Ok None \<Rightarrow> Err e
      | Err x \<Rightarrow> Err x
      | Panic x \<Rightarrow> Panic x)"

section \<open>middleware.go: the HTTP response for an error\<close>

record ErrorResponse =
  er_Type :: string
  er_Title :: string
  er_Status :: nat
  er_Detail :: string

record http_response =
  resp_headers :: "(string \<times> string) list"
  resp_status :: nat
  resp_body :: ErrorResponse

definition header_Del :: "string \<Rightarrow> (string \<times> string) list \<Rightarrow> (string \<times> string) list" where
  "header_Del k h = filter (\<lambda>kv. fst kv \<noteq> k) h"

definition header_Set :: "string \<Rightarrow> string \<Rightarrow> (string \<times> string) list \<Rightarrow> (string \<times> string) list" where
  "header_Set k v h = header_Del k h @ [(k, v)]"

definition Middleware :: "(string \<times> string) list \<Rightarrow> goerr \<Rightarrow> http_response" where
  "Middleware h err =
     (let (statusCode, wrapped) =
        (case as_HttpError err of
           Some (p, st, e) \<Rightarrow> (st, e)
         | None \<Rightarrow> (500, wrapf ''unhandled internal server error: '' err))
      in \<lparr>resp_headers =
            header_Set ''X-Content-Type-Options'' ''nosniff''
              (header_Set ''Content-Type'' ''text/json; charset=utf-8''
                (header_Del ''Content-Length'' h)),
          resp_status = statusCode,
          resp_body = \<lparr>er_Type = ''/errors/todo'', er_Title = ''TODO: set title'',
                       er_Status = statusCode, er_Detail = error_text wrapped\<rparr>\<rparr>)"

section \<open>Facts on wrapped errors\<close>

lemma httpWrap_simps [simp]:
  "httpWrap p st None = Ok None"
  "as_HttpError e = None \<Longrightarrow> httpWrap p st (Some e) = Ok (Some (HttpError p st e))"
  by (simp_all add: httpWrap_def checkAlreadyWrapped_def)

lemma fail_with_simps [simp]:
  "as_HttpError e = None \<Longrightarrow> fail_with NotFound e = Err (HttpError ProblemNotFound 404 e)"
  "as_HttpError e = None \<Longrightarrow> fail_with BadRequest e = Err (HttpError ProblemBadRequest 400 e)"
  "as_HttpError e = None \<Longrightarrow> fail_with InternalError e = Err (HttpError ProblemInternalError 500 e)"
  "as_HttpError e = None \<Longrightarrow> fail_with AlreadyExists e = Err (HttpError ProblemAlreadyExists 409 e)"
  "as_HttpError e = None \<Longrightarrow> fail_with DbSerialization e = Err (HttpError ProblemDbSerialization 409 e)"
  by (simp_all add: fail_with_def vmerr_defs)

text \<open>The status an error is answered with: the one of the first HttpError in its unwrap tree.\<close>

definition http_status :: "goerr \<Rightarrow> nat" where
  "http_status e = resp_status (Middleware [] e)"

lemma http_status_simps [simp]:
  "http_status (HttpError p st e) = st"
  "as_HttpError e = None \<Longrightarrow> http_status e = 500"
  "as_HttpError e = Some (p, st, x) \<Longrightarrow> http_status e = st"
  by (simp_all add: http_status_def Middleware_def)

end
