(* ===== verification/VM_Token.thy ===== *)
theory VM_Token
  imports VM_Base64 VM_Json VM_Err
begin

text \<open>
  Page tokens (src/internal/lib/vmpage/token.go): the last seen key and a magic number, as the
  base64 text of a JSON object. There are two kinds, for numeric keys and for strings; each magic
  number guards against a token of the other kind.
\<close>

record lastSeenIdPage =
  MagicNumber :: uint32
  LastSeenId :: uint32

record lastSeenStringPage =
  StringMagicNumber :: uint32
  LastSeenString :: string

definition lastSeenIdPageMagicNumber :: uint32 where
  "lastSeenIdPageMagicNumber = 3734103234"

definition lastSeenStringMagicNumber :: uint32 where
  "lastSeenStringMagicNumber = 217668344"

definition member_key :: "string \<Rightarrow> string" where
  "member_key k = CHR 0x22 # k @ [CHR 0x22, CHR '':'']"

definition marshal_id_page :: "lastSeenIdPage \<Rightarrow> string" where
  "marshal_id_page p =
     CHR ''{'' # member_key ''magic_number'' @ decimal (unat (MagicNumber p)) @
     CHR '','' # member_key ''last_seen_id'' @ decimal (unat (LastSeenId p)) @ ''}''"

definition marshal_string_page :: "lastSeenStringPage \<Rightarrow> string" where
  "marshal_string_page p =
     CHR ''{'' # member_key ''magic_number'' @ decimal (unat (StringMagicNumber p)) @
     CHR '','' # member_key ''last_seen_string'' @ quoted (LastSeenString p) @ ''}''"

definition store_id_page :: "string \<Rightarrow> json \<Rightarrow> lastSeenIdPage \<Rightarrow> lastSeenIdPage option" where
  "store_id_page f v p =
     (if f = ''magic_number'' then store_uint32 (\<lambda>n. p\<lparr>MagicNumber := n\<rparr>) p v
      else store_uint32 (\<lambda>n. p\<lparr>LastSeenId := n\<rparr>) p v)"

definition store_string_page ::
  "string \<Rightarrow> json \<Rightarrow> lastSeenStringPage \<Rightarrow> lastSeenStringPage option" where
  "store_string_page f v p =
     (if f = ''magic_number'' then store_uint32 (\<lambda>n. p\<lparr>StringMagicNumber := n\<rparr>) p v
      else store_string (\<lambda>t. p\<lparr>LastSeenString := t\<rparr>) p v)"

definition unmarshal_id_page :: "string \<Rightarrow> lastSeenIdPage option" where
  "unmarshal_id_page =
     Unmarshal [''magic_number'', ''last_seen_id''] store_id_page \<lparr>MagicNumber = 0, LastSeenId = 0\<rparr>"

definition unmarshal_string_page :: "string \<Rightarrow> lastSeenStringPage option" where
  "unmarshal_string_page =
     Unmarshal [''magic_number'', ''last_seen_string''] store_string_page
       \<lparr>StringMagicNumber = 0, LastSeenString = []\<rparr>"

definition fromLastSeenId :: "uint32 \<Rightarrow> string" where
  "fromLastSeenId i =
     EncodeToString (marshal_id_page \<lparr>MagicNumber = lastSeenIdPageMagicNumber, LastSeenId = i\<rparr>)"

definition fromLastSeenString :: "string \<Rightarrow> string" where
  "fromLastSeenString t =
     EncodeToString (marshal_string_page
       \<lparr>StringMagicNumber = lastSeenStringMagicNumber, LastSeenString = t\<rparr>)"

definition base64_error :: goerr where "base64_error = New ''illegal base64 data''"
definition json_error :: goerr where "json_error = New ''invalid json''"

definition bad_token :: "string \<Rightarrow> parts \<Rightarrow> goerr" where
  "bad_token msg ps = Errorf (Wrapped (Sentinel ErrBadPageToken) (Text msg ps))"

definition toLastSeenId :: "string option \<Rightarrow> uint32 result" where
  "toLastSeenId pageStr =
     (case pageStr of
        None \<Rightarrow> Ok 0
      | Some t \<Rightarrow>
          (case DecodeString t of
             None \<Rightarrow> fail_with BadRequest
               (bad_token '': could not decode base64 data: '' (Wrapped base64_error End))
           | Some pageBytes \<Rightarrow>
               (case unmarshal_id_page pageBytes of
                  None \<Rightarrow> fail_with BadRequest
                    (bad_token '': could not decode json data: '' (Wrapped json_error End))
                | Some page \<Rightarrow>
                    if MagicNumber page \<noteq> lastSeenIdPageMagicNumber
                    then fail_with BadRequest (bad_token '': invalid magic number'' End)
                    else Ok (LastSeenId page))))"

definition toLastSeenString :: "string option \<Rightarrow> string result" where
  "toLastSeenString pageStr =
     (case pageStr of
        None \<Rightarrow> Ok []
      | Some t \<Rightarrow>
          (case DecodeString t of
             None \<Rightarrow> fail_with BadRequest
               (bad_token '': could not decode base64 data: '' (Wrapped base64_error End))
           | Some pageBytes \<Rightarrow>
               (case unmarshal_string_page pageBytes of
                  None \<Rightarrow> fail_with BadRequest
                    (bad_token '': could not decode json data: '' (Wrapped json_error End))
                | Some page \<Rightarrow>
                    if StringMagicNumber page \<noteq> lastSeenStringMagicNumber
                    then fail_with BadRequest (bad_token '': invalid magic number'' End)
                    else Ok (LastSeenString page))))"

section \<open>Reading back an id token\<close>

lemma skip_ws_Cons [simp]:
  "skip_ws [] = []"
  "skip_ws (c # s) = (if is_space c then skip_ws s else c # s)"
  by (simp_all add: skip_ws_def)

definition plain_char :: "char \<Rightarrow> bool" where
  "plain_char c = (between 32 127 c \<and> c \<noteq> CHR 0x22 \<and> c \<noteq> CHR 0x5C)"

lemma string_body_plain:
  "list_all plain_char k \<Longrightarrow> string_body (k @ CHR 0x22 # r) = Some (k, r)"
proof (induction k)
  case Nil
  show ?case by (subst string_body.simps) simp
next
  case (Cons c k)
  then have "string_body (k @ CHR 0x22 # r) = Some (k, r)" by simp
  with Cons.prems show ?case
    by (subst string_body.simps) (auto simp: plain_char_def between_def)
qed

lemma to_valid_plain: "list_all plain_char k \<Longrightarrow> to_valid_utf8 k = k"
  by (induction k) (auto simp: rune_len_def plain_char_def between_def Let_def)

lemma decimal_head:
  obtains d ds where "decimal n = d # ds" and "is_digit d" and "\<not> is_space d" and "d \<noteq> CHR ''{''"
    and "d \<noteq> CHR ''[''" and "d \<noteq> CHR 0x22"
proof -
  obtain d ds where d: "decimal n = d # ds" by (cases "decimal n") auto
  then have "is_digit d" using decimal_digits [of n] by simp
  moreover from this have "\<not> is_space d" "d \<noteq> CHR ''{''" "d \<noteq> CHR ''[''" "d \<noteq> CHR 0x22"
    by (auto simp: is_digit_def between_def is_space_def)
  ultimately show ?thesis using d that by blast
qed

lemma parse_value_decimal:
  assumes "c = CHR '','' \<or> c = CHR ''}''"
  shows "parse_value depth (decimal n @ c # r) = Some (JNum (decimal n), c # r)"
proof -
  obtain d ds where d: "decimal n = d # ds" "is_digit d" "\<not> is_space d" "d \<noteq> CHR ''{''"
      "d \<noteq> CHR ''[''" "d \<noteq> CHR 0x22"
    by (rule decimal_head)
  then show ?thesis
    using number_literal_decimal [OF assms, of n r] by (simp add: parse_value.simps)
qed

lemma parse_members_number:
  assumes "list_all plain_char k"
  shows "parse_members depth (member_key k @ decimal n @ CHR ''}'' # r) = Some ([(k, JNum (decimal n))], r)"
    and "parse_members depth (member_key k @ decimal n @ CHR '','' # r) =
      map_option (\<lambda>(ms, r1). ((k, JNum (decimal n)) # ms, r1)) (parse_members depth r)"
  using assms
  by (subst parse_members.simps,
      simp add: member_key_def is_space_def string_body_plain parse_value_decimal to_valid_plain)+

lemma parse_object:
  "parse_value max_nesting_depth (CHR ''{'' # member_key k @ r) =
     map_option (\<lambda>(ms, r2). (JObj ms, r2)) (parse_members (max_nesting_depth - 1) (member_key k @ r))"
  by (subst parse_value.simps) (simp add: member_key_def is_space_def max_nesting_depth_def)

lemma plain_keys:
  "list_all plain_char ''magic_number''"
  "list_all plain_char ''last_seen_id''"
  "list_all plain_char ''last_seen_string''"
  by (simp_all add: plain_char_def between_def)

lemma parse_json_id_page:
  "parse_json (marshal_id_page p) = Some (JObj
     [(''magic_number'', JNum (decimal (unat (MagicNumber p)))),
      (''last_seen_id'', JNum (decimal (unat (LastSeenId p))))])"
  by (simp add: parse_json_def marshal_id_page_def parse_object
      parse_members_number(1) [OF plain_keys(2)] parse_members_number(2) [OF plain_keys(1)])

lemma unmarshal_marshal_id_page: "unmarshal_id_page (marshal_id_page p) = Some p"
  by (simp add: parse_json_id_page unmarshal_id_page_def Unmarshal_def find_field_def
      store_id_page_def store_uint32_def)

lemma toLastSeenId_fromLastSeenId: "toLastSeenId (Some (fromLastSeenId i)) = Ok i"
  by (simp add: toLastSeenId_def fromLastSeenId_def DecodeString_EncodeToString unmarshal_marshal_id_page)

section \<open>Reading back a string token\<close>

lemma cont_high:
  "cont b \<Longrightarrow> \<not> between 0 127 b" "between 160 191 b \<Longrightarrow> \<not> between 0 127 b"
  "between 128 159 b \<Longrightarrow> \<not> between 0 127 b" "between 144 191 b \<Longrightarrow> \<not> between 0 127 b"
  "between 128 143 b \<Longrightarrow> \<not> between 0 127 b"
  by (simp_all add: between_def)

text \<open>
  A code point is recognised from its own bytes only; beyond ASCII none of them is an ASCII byte.
\<close>

lemma rune_len_shape:
  assumes "rune_len (a # r) \<noteq> 0"
  shows "rune_len (take (rune_len (a # r)) (a # r) @ u) = rune_len (a # r) \<and>
    rune_len (a # r) \<le> Suc (length r) \<and>
    (\<not> between 0 127 a \<longrightarrow> list_all (\<lambda>b. \<not> between 0 127 b) (take (rune_len (a # r)) (a # r)))"
proof (cases "between 0 127 a")
  case True
  then show ?thesis by (simp add: rune_len_def)
next
  case 1: False
  then obtain b r1 where r: "r = b # r1" using assms by (cases r) (simp_all add: rune_len_def)
  show ?thesis
  proof (cases "between 194 223 a")
    case True
    with 1 assms show ?thesis by (cases "cont b") (simp_all add: r rune_len_def cont_high)
  next
    case 2: False
    with 1 assms obtain c r2 where r1: "r1 = c # r2"
      by (cases r1) (simp_all add: r rune_len_def)
    show ?thesis
    proof (cases "of_char a = (224 :: nat) \<or> of_char a = (237 :: nat) \<or> between 225 239 a")
      case True
      with 1 2 assms show ?thesis
        by (elim disjE) (simp_all add: r r1 rune_len_def cont_high split: if_splits)
    next
      case 3: False
      with 1 2 assms obtain e r3 where "r2 = e # r3"
        by (cases r2) (simp_all add: r r1 rune_len_def)
      with 1 2 3 assms show ?thesis
        by (simp add: r r1 rune_len_def cont_high split: if_splits)
    qed
  qed
qed

lemma rune_len_prefix:
  assumes "rune_len s \<noteq> 0"
  shows "rune_len (take (rune_len s) s @ u) = rune_len s" and "rune_len s \<le> length s"
  using rune_len_shape [of "hd s" "tl s" u] assms by (cases s; simp add: rune_len_def)+

lemma rune_len_high:
  assumes "rune_len (c # cs) \<noteq> 0" and "\<not> between 0 127 c"
  shows "list_all (\<lambda>b. \<not> between 0 127 b) (take (rune_len (c # cs)) (c # cs))"
  using rune_len_shape [OF assms(1)] assms(2) by blast

lemma rune_len_replacement: "rune_len (replacement_rune @ u) = 3"
  by (simp add: rune_len_def replacement_rune_def between_def)

lemma take_rune: "rune_len (c # cs) \<noteq> 0 \<Longrightarrow>
    take (rune_len (c # cs)) (c # cs) = c # take (rune_len (c # cs) - 1) cs"
  by (cases "rune_len (c # cs)") simp_all

lemma to_valid_step:
  assumes "rune_len s = Suc k"
  shows "to_valid_utf8 (take (Suc k) s @ u) = take (Suc k) s @ to_valid_utf8 u"
proof -
  obtain c cs where s: "s = c # cs" using assms by (cases s) (simp_all add: rune_len_def)
  have len: "Suc k \<le> length s" and same: "rune_len (take (Suc k) s @ u) = Suc k"
    using rune_len_prefix(1) [of s u] rune_len_prefix(2) [of s] assms by simp_all
  then show ?thesis using s by (simp add: Let_def)
qed

lemma to_valid_replacement: "to_valid_utf8 (replacement_rune @ u) = replacement_rune @ to_valid_utf8 u"
  using to_valid_step [of "replacement_rune @ u" 2 u] rune_len_replacement [of u]
  by (simp add: replacement_rune_def)

lemma to_valid_utf8_idem: "to_valid_utf8 (to_valid_utf8 t) = to_valid_utf8 t"
proof (induction t rule: to_valid_utf8.induct)
  case (2 c cs)
  show ?case
  proof (cases "rune_len (c # cs)")
    case 0
    with 2 show ?thesis by (simp add: to_valid_replacement)
  next
    case (Suc k)
    with 2 have "to_valid_utf8 (to_valid_utf8 (drop k cs)) = to_valid_utf8 (drop k cs)" by simp
    with to_valid_step [OF Suc, of "to_valid_utf8 (drop k cs)"] Suc show ?thesis by simp
  qed
qed simp

lemma string_body_copy:
  "list_all (\<lambda>b. \<not> between 0 127 b) u \<Longrightarrow>
     string_body (u @ s) = map_option (\<lambda>(t, r). (u @ t, r)) (string_body s)"
proof (induction u)
  case Nil
  show ?case by (cases "string_body s") auto
next
  case (Cons c u)
  then have "c \<noteq> CHR 0x22" "c \<noteq> CHR 0x5C" "\<not> between 0 31 c"
    by (auto simp: between_def)
  with Cons show ?case
    by (subst string_body.simps) (auto simp: option.map_comp comp_def split_def)
qed

lemma hex_value_hex_digit:
  assumes "n < 16"
  shows "hex_value (hex_digit n) = Some n"
proof (cases "n < 10")
  case True
  then show ?thesis by (simp add: hex_value_def hex_digit_def is_digit_def between_def)
next
  case False
  with assms show ?thesis by (simp add: hex_value_def hex_digit_def is_digit_def between_def)
qed

lemma string_body_unicode:
  assumes "hex4 (x @ s) = Some (u, s)" and "\<not> (55296 \<le> u \<and> u < 56320)" and "length x = 4"
  shows "string_body (CHR 0x5C # CHR ''u'' # x @ s) =
    map_option (\<lambda>(t, r). (encode_rune u @ t, r)) (string_body s)"
  using assms by (subst string_body.simps) (auto simp: unicode_escape_def between_def)

lemma string_body_simple:
  assumes "simple_escape e = Some x"
  shows "string_body (CHR 0x5C # e # s) = map_option (\<lambda>(t, r). (x # t, r)) (string_body s)"
  using assms by (subst string_body.simps) (auto simp: between_def simple_escape_def split: if_splits)

lemma string_body_escape_byte:
  assumes "between 0 127 c"
  shows "string_body (escape_byte c @ s) = map_option (\<lambda>(t, r). (c # t, r)) (string_body s)"
proof -
  let ?n = "of_char c :: nat"
  have inj: "c = char_of n" if "?n = n" for n :: nat using that by auto
  consider (quote) "c = CHR 0x22 \<or> c = CHR 0x5C" | (short) "?n \<in> {8, 12, 10, 13, 9}"
    | (hex) "?n \<notin> {8, 12, 10, 13, 9}" "between 0 31 c \<or> c = CHR ''<'' \<or> c = CHR ''>'' \<or> c = CHR ''&''"
    | (copy) "c \<noteq> CHR 0x22" "c \<noteq> CHR 0x5C" "?n \<notin> {8, 12, 10, 13, 9}" "\<not> between 0 31 c"
        "c \<noteq> CHR ''<''" "c \<noteq> CHR ''>''" "c \<noteq> CHR ''&''"
    by blast
  then show ?thesis
  proof cases
    case quote
    then have "simple_escape c = Some c" by (auto simp: simple_escape_def)
    with quote show ?thesis by (auto simp: escape_byte_def string_body_simple)
  next
    case short
    then have "c \<noteq> CHR 0x22" "c \<noteq> CHR 0x5C" by auto
    with short show ?thesis
      by (auto simp: escape_byte_def string_body_simple simple_escape_def dest: inj)
  next
    case hex
    then have "c \<noteq> CHR 0x22" "c \<noteq> CHR 0x5C" by (auto simp: between_def)
    have n: "?n < 128" using assms by (simp add: between_def)
    have "hex4 ([CHR ''0'', CHR ''0'', hex_digit (?n div 16), hex_digit (?n mod 16)] @ s) = Some (?n, s)"
      using n hex_value_hex_digit [of "?n div 16"] hex_value_hex_digit [of "?n mod 16"]
      by (simp add: hex4_def hex_value_def [of "CHR ''0''"] is_digit_def between_def)
    with n \<open>c \<noteq> CHR 0x22\<close> \<open>c \<noteq> CHR 0x5C\<close> hex show ?thesis
      using string_body_unicode [of "[CHR ''0'', CHR ''0'', hex_digit (?n div 16), hex_digit (?n mod 16)]" s ?n]
      by (simp add: escape_byte_def encode_rune_def)
  next
    case copy
    then show ?thesis
      by (subst string_body.simps) (simp add: escape_byte_def)
  qed
qed

lemma string_body_unicode_rune:
  assumes "x \<in> {(''ufffd'', 65533), (''u2028'', 8232), (''u2029'', 8233)}"
  shows "string_body (CHR 0x5C # fst x @ s) =
    map_option (\<lambda>(t, r). (encode_rune (snd x) @ t, r)) (string_body s)"
  using assms string_body_unicode [of "tl (fst x)" s "snd x"]
  by (auto simp: hex4_def hex_value_def is_digit_def between_def)

lemmas string_body_unicode_runes =
  string_body_unicode_rune [of "(''ufffd'', 65533)", simplified]
  string_body_unicode_rune [of "(''u2028'', 8232)", simplified]
  string_body_unicode_rune [of "(''u2029'', 8233)", simplified]

lemma encode_runes:
  "encode_rune 65533 = replacement_rune"
  "encode_rune 8232 = [char_of (226 :: nat), char_of (128 :: nat), char_of (168 :: nat)]"
  "encode_rune 8233 = [char_of (226 :: nat), char_of (128 :: nat), char_of (169 :: nat)]"
  by (simp_all add: encode_rune_def replacement_rune_def)

lemma string_body_escape_string:
  "string_body (escape_string t @ CHR 0x22 # r) = Some (to_valid_utf8 t, r)"
proof (induction t rule: escape_string.induct)
  case 1
  show ?case by (subst string_body.simps) simp
next
  case (2 c cs)
  show ?case
  proof (cases "between 0 127 c")
    case True
    then have "rune_len (c # cs) = 1" by (simp add: rune_len_def)
    with True "2.IH"(1) show ?thesis by (simp add: string_body_escape_byte)
  next
    case high: False
    show ?thesis
    proof (cases "rune_len (c # cs)")
      case 0
      with high "2.IH"(2) show ?thesis by (simp add: string_body_unicode_runes encode_runes)
    next
      case (Suc k)
      have "string_body (escape_string (drop k cs) @ CHR 0x22 # r) = Some (to_valid_utf8 (drop k cs), r)"
        using "2.IH"(3-5) [OF high refl refl] Suc by fastforce
      moreover have "list_all (\<lambda>b. \<not> between 0 127 b) (c # take k cs)"
        using rune_len_high [of c cs] high Suc by simp
      ultimately show ?thesis
        using high Suc string_body_copy [of "c # take k cs"]
        by (simp add: Let_def string_body_unicode_runes encode_runes)
    qed
  qed
qed

lemma parse_members_string:
  assumes "list_all plain_char k"
  shows "parse_members depth (member_key k @ quoted t @ CHR ''}'' # r) = Some ([(k, JStr (to_valid_utf8 t))], r)"
  using assms
  by (subst parse_members.simps)
    (simp add: member_key_def quoted_def is_space_def string_body_plain to_valid_plain
      parse_value.simps string_body_escape_string to_valid_utf8_idem)

lemma parse_json_string_page:
  "parse_json (marshal_string_page p) = Some (JObj
     [(''magic_number'', JNum (decimal (unat (StringMagicNumber p)))),
      (''last_seen_string'', JStr (to_valid_utf8 (LastSeenString p)))])"
  by (simp add: parse_json_def marshal_string_page_def parse_object
      parse_members_string [OF plain_keys(3)] parse_members_number(2) [OF plain_keys(1)])

lemma unmarshal_marshal_string_page:
  "unmarshal_string_page (marshal_string_page p) = Some (p\<lparr>LastSeenString := to_valid_utf8 (LastSeenString p)\<rparr>)"
  by (simp add: parse_json_string_page unmarshal_string_page_def Unmarshal_def find_field_def
      store_string_page_def store_uint32_def store_string_def)

lemma toLastSeenString_fromLastSeenString:
  "toLastSeenString (Some (fromLastSeenString t)) = Ok (to_valid_utf8 t)"
  by (simp add: toLastSeenString_def fromLastSeenString_def DecodeString_EncodeToString
      unmarshal_marshal_string_page)

text \<open>A token of one kind is refused where the other is expected.\<close>

lemma unmarshal_id_page_of_string_page:
  "unmarshal_id_page (marshal_string_page p) = Some \<lparr>MagicNumber = StringMagicNumber p, LastSeenId = 0\<rparr>"
proof -
  have "find_field [''magic_number'', ''last_seen_id''] ''last_seen_string'' = None"
    by code_simp
  then show ?thesis
    by (simp add: parse_json_string_page unmarshal_id_page_def Unmarshal_def find_field_def
        store_id_page_def store_uint32_def)
qed

lemma unmarshal_string_page_of_id_page:
  "unmarshal_string_page (marshal_id_page p) = Some \<lparr>StringMagicNumber = MagicNumber p, LastSeenString = []\<rparr>"
proof -
  have "find_field [''magic_number'', ''last_seen_string''] ''last_seen_id'' = None"
    by code_simp
  then show ?thesis
    by (simp add: parse_json_id_page unmarshal_string_page_def Unmarshal_def find_field_def
        store_string_page_def store_uint32_def)
qed

definition bad_magic :: goerr where
  "bad_magic = HttpError ProblemBadRequest 400 (bad_token '': invalid magic number'' End)"

lemma toLastSeenId_fromLastSeenString: "toLastSeenId (Some (fromLastSeenString t)) = Err bad_magic"
  by (simp add: toLastSeenId_def fromLastSeenString_def DecodeString_EncodeToString bad_magic_def
      unmarshal_id_page_of_string_page lastSeenIdPageMagicNumber_def lastSeenStringMagicNumber_def
      bad_token_def)

lemma toLastSeenString_fromLastSeenId: "toLastSeenString (Some (fromLastSeenId i)) = Err bad_magic"
  by (simp add: toLastSeenString_def fromLastSeenId_def DecodeString_EncodeToString bad_magic_def
      unmarshal_string_page_of_id_page lastSeenIdPageMagicNumber_def lastSeenStringMagicNumber_def
      bad_token_def)

end
