(* ===== verification/VM_Db.thy ===== *)
theory VM_Db
  imports VM_Err VM_Json
begin

text \<open>
  The database schema (src/internal/lib/migrate/migrations/000001_initial.up.sql): one record per
  table row, the record of all tables, the sequences behind the SERIAL keys, the cascading deletes
  and triggers, and the invariant the constraints of the schema promise.

  Keys are modelled as \<^verbatim>\<open>uint32\<close>, the Go type the services read them into; the INTEGER columns hold
  only non-negative values, because a SERIAL key starts at 1 and stops at 2147483647.
  An SQL statement takes the time \<^verbatim>\<open>NOW()\<close>, the tables and the sequences, and gives either the
  server's error or the changed tables and its result; a sequence moves on even when the
  statement fails, and is not part of what a rollback restores.
\<close>

section \<open>Tables\<close>

record card_row =
  c_id :: uint32
  c_name :: string
  c_note :: "string option"

record movie_row =
  mv_card_id :: uint32
  mv_release_year :: "uint32 option"
  mv_tmdb_id :: "uint64 option"
  mv_fanart_id :: "string option"

record kind_row =
  k_id :: uint32
  k_name :: string
  k_is_default :: bool

record edition_row =
  e_card_id :: uint32
  e_kind_id :: uint32
  e_movie_card_id :: uint32

record media_set_row =
  ms_id :: uint32
  ms_name :: string
  ms_note :: "string option"

record media_row =
  m_id :: uint32
  m_media_set_id :: "uint32 option"
  m_note :: "string option"

record dvd_row =
  d_media_id :: uint32
  d_path :: string

datatype Status =
    StatusPending | StatusRunning | StatusWaiting | StatusCompleted | StatusFailed
  | StatusOther string

record Task =
  t_Id :: int
  t_TaskType :: string
  t_State :: json
  t_Status :: Status
  t_WorkerId :: "string option"
  t_LeaseExpiresAt :: "int option"
  t_Error :: "string option"
  t_ParentId :: "int option"
  t_CreatedAt :: int
  t_UpdatedAt :: int

record db =
  catalog_cards :: "card_row list"
  catalog_movies :: "movie_row list"
  movie_edition_kinds :: "kind_row list"
  catalog_movie_editions :: "edition_row list"
  media_sets :: "media_set_row list"
  media_tbl :: "media_row list"
  media_dvds :: "dvd_row list"
  media_x_cards :: "(uint32 \<times> uint32) list"
  media_sets_x_cards :: "(uint32 \<times> uint32) list"
  tasks :: "Task list"
  notified :: nat

text \<open>\<^verbatim>\<open>notified\<close> counts the NOTIFY signals of the channel "tasks" issued so far.\<close>

record seqs =
  card_seq :: uint32
  kind_seq :: uint32
  media_set_seq :: uint32
  media_seq :: uint32
  task_seq :: int

definition empty_db :: db where
  "empty_db = \<lparr>catalog_cards = [], catalog_movies = [], movie_edition_kinds = [],
     catalog_movie_editions = [], media_sets = [], media_tbl = [], media_dvds = [],
     media_x_cards = [], media_sets_x_cards = [], tasks = [], notified = 0\<rparr>"

definition initial_seqs :: seqs where
  "initial_seqs = \<lparr>card_seq = 0, kind_seq = 0, media_set_seq = 0, media_seq = 0, task_seq = 0\<rparr>"

section \<open>Statements\<close>

type_synonym 'r stmt = "int \<Rightarrow> db \<Rightarrow> seqs \<Rightarrow> (goerr + db \<times> 'r) \<times> seqs"

definition check_violation :: goerr where
  "check_violation = PgError ''23514'' ''new row violates check constraint''"

definition unique_violation :: goerr where
  "unique_violation = PgError ''23505'' ''duplicate key value violates unique constraint''"

definition foreign_key_violation :: goerr where
  "foreign_key_violation = PgError ''23503'' ''violates foreign key constraint''"

definition sequence_exhausted :: goerr where
  "sequence_exhausted = PgError ''2200H'' ''nextval: reached maximum value of sequence''"

definition invalid_json :: goerr where
  "invalid_json = PgError ''22P02'' ''invalid input syntax for type json''"

lemmas pg_errors = check_violation_def unique_violation_def foreign_key_violation_def
  sequence_exhausted_def invalid_json_def

definition max_serial :: uint32 where
  "max_serial = 2147483647"

text \<open>
  The driver refuses an argument that does not fit an INTEGER column, before anything is sent.
\<close>

definition int4_range :: goerr where
  "int4_range = New ''failed to encode args: value is greater than maximum value for int4''"

definition int4 :: "uint32 list \<Rightarrow> 'r stmt \<Rightarrow> 'r stmt" where
  "int4 xs st now d q =
     (if list_all (\<lambda>x. x \<le> max_serial) xs then st now d q else (Inl int4_range, q))"

lemma int4_fits [simp]: "list_all (\<lambda>x. x \<le> max_serial) xs \<Longrightarrow> int4 xs st now d q = st now d q"
  by (simp add: int4_def)

definition select_stmt :: "(db \<Rightarrow> 'r) \<Rightarrow> 'r stmt" where
  "select_stmt f now d q = (Inr (d, f d), q)"

definition modify_stmt :: "(db \<Rightarrow> goerr + db \<times> 'r) \<Rightarrow> 'r stmt" where
  "modify_stmt f now d q = (f d, q)"

section \<open>Cascading deletes and triggers\<close>

text \<open>
  Deleting a card deletes its movie row or its edition row, the editions of the movie, and the
  links from media and media sets (all ON DELETE CASCADE). The triggers
  \<^verbatim>\<open>trg_delete_movie_card\<close> and \<^verbatim>\<open>trg_delete_movie_edition_card\<close> then delete the card of every movie
  or edition row that went: for the row of the card itself this is a no-op, for the editions of
  the movie it is a further delete, queued in the worklist.
\<close>

definition remove_card :: "uint32 \<Rightarrow> db \<Rightarrow> db" where
  "remove_card i d = d\<lparr>
     catalog_cards := filter (\<lambda>c. c_id c \<noteq> i) (catalog_cards d),
     catalog_movies := filter (\<lambda>m. mv_card_id m \<noteq> i) (catalog_movies d),
     catalog_movie_editions :=
       filter (\<lambda>e. e_card_id e \<noteq> i \<and> e_movie_card_id e \<noteq> i) (catalog_movie_editions d),
     media_x_cards := filter (\<lambda>l. snd l \<noteq> i) (media_x_cards d),
     media_sets_x_cards := filter (\<lambda>l. snd l \<noteq> i) (media_sets_x_cards d)\<rparr>"

definition edition_cards_of :: "uint32 \<Rightarrow> db \<Rightarrow> uint32 list" where
  "edition_cards_of i d =
     map e_card_id (filter (\<lambda>e. e_movie_card_id e = i) (catalog_movie_editions d))"

lemma remove_card_editions_length:
  "length (catalog_movie_editions (remove_card i d)) + length (edition_cards_of i d)
     \<le> length (catalog_movie_editions d)"
proof -
  have "length (filter (\<lambda>e. e_card_id e \<noteq> i \<and> e_movie_card_id e \<noteq> i) es)
      + length (filter (\<lambda>e. e_movie_card_id e = i) es) \<le> length es" for es :: "edition_row list"
    by (induction es) auto
  then show ?thesis
    by (simp add: remove_card_def edition_cards_of_def)
qed

function delete_cards :: "uint32 list \<Rightarrow> db \<Rightarrow> db" where
  "delete_cards [] d = d"
| "delete_cards (i # is) d = delete_cards (is @ edition_cards_of i d) (remove_card i d)"
  by pat_completeness auto
termination
proof (relation "measure (\<lambda>(is, d). length is + length (catalog_movie_editions d))")
  fix i "is" d
  show "((is @ edition_cards_of i d, remove_card i d), (i # is, d))
      \<in> measure (\<lambda>(is, d). length is + length (catalog_movie_editions d))"
    using remove_card_editions_length [of i d] by simp
qed simp

text \<open>
  Deleting a media row deletes its DVD row and its links; the trigger \<^verbatim>\<open>trg_delete_dvd_media\<close> then
  finds the media row gone. Deleting a media set deletes its links.
\<close>

definition remove_media :: "uint32 \<Rightarrow> db \<Rightarrow> db" where
  "remove_media i d = d\<lparr>
     media_tbl := filter (\<lambda>m. m_id m \<noteq> i) (media_tbl d),
     media_dvds := filter (\<lambda>v. d_media_id v \<noteq> i) (media_dvds d),
     media_x_cards := filter (\<lambda>l. fst l \<noteq> i) (media_x_cards d)\<rparr>"

definition remove_media_set :: "uint32 \<Rightarrow> db \<Rightarrow> db" where
  "remove_media_set i d = d\<lparr>
     media_sets := filter (\<lambda>m. ms_id m \<noteq> i) (media_sets d),
     media_sets_x_cards := filter (\<lambda>l. fst l \<noteq> i) (media_sets_x_cards d)\<rparr>"

section \<open>What the schema promises\<close>

definition serial_ok :: "('row \<Rightarrow> uint32) \<Rightarrow> uint32 \<Rightarrow> 'row list \<Rightarrow> bool" where
  "serial_ok f v rows = (keyed f rows \<and> (\<forall>r\<in>set rows. 0 < f r \<and> f r \<le> v \<and> f r \<le> max_serial))"

definition catalog_ok :: "db \<Rightarrow> seqs \<Rightarrow> bool" where
  "catalog_ok d q =
     (serial_ok c_id (card_seq q) (catalog_cards d) \<and>
      (\<forall>c\<in>set (catalog_cards d). c_name c \<noteq> []) \<and>
      keyed mv_card_id (catalog_movies d) \<and>
      mv_card_id ` set (catalog_movies d) \<subseteq> c_id ` set (catalog_cards d) \<and>
      serial_ok k_id (kind_seq q) (movie_edition_kinds d) \<and>
      count_where k_is_default (movie_edition_kinds d) \<le> 1 \<and>
      keyed e_card_id (catalog_movie_editions d) \<and>
      e_card_id ` set (catalog_movie_editions d) \<subseteq> c_id ` set (catalog_cards d) \<and>
      e_kind_id ` set (catalog_movie_editions d) \<subseteq> k_id ` set (movie_edition_kinds d) \<and>
      e_movie_card_id ` set (catalog_movie_editions d) \<subseteq> mv_card_id ` set (catalog_movies d))"

definition media_ok :: "db \<Rightarrow> seqs \<Rightarrow> bool" where
  "media_ok d q =
     (serial_ok ms_id (media_set_seq q) (media_sets d) \<and>
      (\<forall>m\<in>set (media_sets d). ms_name m \<noteq> []) \<and>
      serial_ok m_id (media_seq q) (media_tbl d) \<and>
      (\<forall>m\<in>set (media_tbl d). \<forall>i. m_media_set_id m = Some i \<longrightarrow> i \<in> ms_id ` set (media_sets d)) \<and>
      keyed d_media_id (media_dvds d) \<and>
      d_media_id ` set (media_dvds d) \<subseteq> m_id ` set (media_tbl d) \<and>
      (\<forall>v\<in>set (media_dvds d). d_path v \<noteq> []))"

definition links_ok :: "db \<Rightarrow> bool" where
  "links_ok d =
     (distinct (media_x_cards d) \<and> distinct (media_sets_x_cards d) \<and>
      fst ` set (media_x_cards d) \<subseteq> m_id ` set (media_tbl d) \<and>
      snd ` set (media_x_cards d) \<subseteq> c_id ` set (catalog_cards d) \<and>
      fst ` set (media_sets_x_cards d) \<subseteq> ms_id ` set (media_sets d) \<and>
      snd ` set (media_sets_x_cards d) \<subseteq> c_id ` set (catalog_cards d))"

text \<open>The two CHECK constraints of the table tasks, on one row.\<close>

definition task_lease_check :: "Task \<Rightarrow> bool" where
  "task_lease_check t =
     ((t_Status t = StatusRunning \<and> t_WorkerId t \<noteq> None \<and> t_LeaseExpiresAt t \<noteq> None) \<or>
      (t_Status t \<noteq> StatusRunning \<and> t_WorkerId t = None \<and> t_LeaseExpiresAt t = None))"

definition task_error_check :: "Task \<Rightarrow> bool" where
  "task_error_check t =
     ((t_Status t = StatusFailed \<and> t_Error t \<noteq> None) \<or>
      (t_Status t \<noteq> StatusFailed \<and> t_Error t = None))"

definition task_row_ok :: "Task \<Rightarrow> bool" where
  "task_row_ok t = (t_TaskType t \<noteq> [] \<and> task_lease_check t \<and> task_error_check t)"

definition tasks_ok :: "db \<Rightarrow> seqs \<Rightarrow> bool" where
  "tasks_ok d q =
     (0 \<le> task_seq q \<and> keyed t_Id (tasks d) \<and>
      (\<forall>t\<in>set (tasks d). 0 < t_Id t \<and> t_Id t \<le> task_seq q) \<and>
      (\<forall>t\<in>set (tasks d). task_row_ok t) \<and>
      (\<forall>t\<in>set (tasks d). \<forall>p. t_ParentId t = Some p \<longrightarrow> p \<in> t_Id ` set (tasks d) \<and> p < t_Id t))"

definition schema_ok :: "db \<Rightarrow> seqs \<Rightarrow> bool" where
  "schema_ok d q = (catalog_ok d q \<and> media_ok d q \<and> links_ok d \<and> tasks_ok d q)"

text \<open>
  What the services add to the schema: every card is a movie or a movie edition, never both and
  never neither.
\<close>

definition one_detail :: "db \<Rightarrow> uint32 \<Rightarrow> bool" where
  "one_detail d i =
     ((i \<in> mv_card_id ` set (catalog_movies d)) \<noteq> (i \<in> e_card_id ` set (catalog_movie_editions d)))"

definition details_ok :: "db \<Rightarrow> bool" where
  "details_ok d = (\<forall>c\<in>set (catalog_cards d). one_detail d (c_id c))"

lemmas schema_defs = schema_ok_def catalog_ok_def media_ok_def links_ok_def tasks_ok_def
  serial_ok_def

lemma schema_ok_empty: "schema_ok empty_db initial_seqs"
  by (simp add: schema_defs empty_db_def initial_seqs_def count_where_def)

section \<open>Deletes keep the invariant\<close>

lemma serial_ok_filter: "serial_ok f v rows \<Longrightarrow> serial_ok f v (filter P rows)"
  by (simp add: serial_ok_def keyed_filter)

lemma serial_ok_update [simp]:
  assumes "\<And>r. f (g r) = f r"
  shows "serial_ok f v (update_where P g rows) = serial_ok f v rows"
proof -
  have ok: "serial_ok f v rows = (keyed f rows \<and> (\<forall>k\<in>f ` set rows. 0 < k \<and> k \<le> v \<and> k \<le> max_serial))"
    for rows by (auto simp: serial_ok_def)
  show ?thesis using assms by (simp add: ok)
qed

lemma serial_ok_snoc:
  assumes "serial_ok f v rows" and "v < max_serial" and "f r = v + 1"
  shows "serial_ok f (v + 1) (rows @ [r])"
proof -
  have "v < v + 1" using assms(2) by (rule word_succ_greater)
  moreover have "v + 1 \<le> max_serial" using assms(2) by (simp add: inc_le)
  moreover have "f x \<noteq> v + 1" if "x \<in> set rows" for x
    using that assms(1) \<open>v < v + 1\<close> by (auto simp: serial_ok_def)
  ultimately show ?thesis
    using assms(1,3)
    by (auto simp: serial_ok_def image_iff intro: order_trans less_imp_le le_less_trans [OF word_zero_le])
qed

lemma count_where_filter_le: "count_where P (filter Q rows) \<le> count_where P rows"
  by (induction rows) (simp_all add: count_where_def)

lemma remove_card_catalog_ok: "catalog_ok d q \<Longrightarrow> catalog_ok (remove_card i d) q"
  unfolding catalog_ok_def remove_card_def db.simps
  by (elim conjE, intro conjI foreign_key_filter) (auto simp: serial_ok_filter keyed_filter)

lemma remove_card_links_ok: "links_ok d \<Longrightarrow> links_ok (remove_card i d)"
  unfolding links_ok_def remove_card_def by auto

lemma remove_card_frame [simp]:
  "media_sets (remove_card i d) = media_sets d"
  "media_tbl (remove_card i d) = media_tbl d"
  "media_dvds (remove_card i d) = media_dvds d"
  "movie_edition_kinds (remove_card i d) = movie_edition_kinds d"
  "tasks (remove_card i d) = tasks d"
  "notified (remove_card i d) = notified d"
  by (simp_all add: remove_card_def)

lemma remove_card_schema_ok: "schema_ok d q \<Longrightarrow> schema_ok (remove_card i d) q"
  by (simp add: schema_ok_def remove_card_catalog_ok remove_card_links_ok media_ok_def tasks_ok_def)

lemma delete_cards_schema_ok: "schema_ok d q \<Longrightarrow> schema_ok (delete_cards is d) q"
  by (induction "is" d rule: delete_cards.induct) (simp_all add: remove_card_schema_ok)

lemma delete_cards_frame [simp]:
  "media_sets (delete_cards is d) = media_sets d"
  "media_tbl (delete_cards is d) = media_tbl d"
  "media_dvds (delete_cards is d) = media_dvds d"
  "movie_edition_kinds (delete_cards is d) = movie_edition_kinds d"
  "tasks (delete_cards is d) = tasks d"
  "notified (delete_cards is d) = notified d"
  by (induction "is" d rule: delete_cards.induct) simp_all

lemma remove_card_one_detail:
  assumes "one_detail d j" and "j \<noteq> i" and "j \<notin> set (edition_cards_of i d)"
  shows "one_detail (remove_card i d) j"
  using assms by (auto simp: one_detail_def remove_card_def edition_cards_of_def)

lemma delete_cards_details:
  assumes "\<And>c. c \<in> set (catalog_cards d) \<Longrightarrow> c_id c \<notin> set is \<Longrightarrow> one_detail d (c_id c)"
  shows "details_ok (delete_cards is d)"
  using assms
proof (induction "is" d rule: delete_cards.induct)
  case (1 d)
  then show ?case by (simp add: details_ok_def)
next
  case (2 i "is" d)
  have "one_detail (remove_card i d) (c_id c)"
    if "c \<in> set (catalog_cards (remove_card i d))" and "c_id c \<notin> set (is @ edition_cards_of i d)" for c
  proof -
    from that have "c \<in> set (catalog_cards d)" and "c_id c \<noteq> i"
      by (simp_all add: remove_card_def)
    with that(2) "2.prems" [of c] show ?thesis
      by (intro remove_card_one_detail) auto
  qed
  then have "details_ok (delete_cards (is @ edition_cards_of i d) (remove_card i d))"
    by (rule "2.IH")
  then show ?case by simp
qed

lemma delete_cards_details_ok: "details_ok d \<Longrightarrow> details_ok (delete_cards is d)"
  by (rule delete_cards_details) (simp add: details_ok_def)

text \<open>
  The closed form of the cascade: when every card has one detail, deleting a card removes exactly
  the card and the cards of its editions.
\<close>

definition doomed :: "db \<Rightarrow> uint32 \<Rightarrow> uint32 set" where
  "doomed d i = insert i (set (edition_cards_of i d))"

definition drop_cards :: "uint32 set \<Rightarrow> db \<Rightarrow> db" where
  "drop_cards S d = d\<lparr>
     catalog_cards := filter (\<lambda>c. c_id c \<notin> S) (catalog_cards d),
     catalog_movies := filter (\<lambda>m. mv_card_id m \<notin> S) (catalog_movies d),
     catalog_movie_editions := filter (\<lambda>e. e_card_id e \<notin> S) (catalog_movie_editions d),
     media_x_cards := filter (\<lambda>l. snd l \<notin> S) (media_x_cards d),
     media_sets_x_cards := filter (\<lambda>l. snd l \<notin> S) (media_sets_x_cards d)\<rparr>"

lemma drop_cards_empty [simp]: "drop_cards {} d = d"
  by (simp add: drop_cards_def)

lemma drop_cards_compose: "drop_cards S (drop_cards T d) = drop_cards (S \<union> T) d"
  by (simp add: drop_cards_def conj_commute)

lemma remove_card_leaf:
  assumes "edition_cards_of i d = []"
  shows "remove_card i d = drop_cards {i} d"
proof -
  from assms have "filter (\<lambda>e. e_card_id e \<noteq> i \<and> e_movie_card_id e \<noteq> i) (catalog_movie_editions d)
      = filter (\<lambda>e. e_card_id e \<noteq> i) (catalog_movie_editions d)"
    by (intro filter_cong) (auto simp: edition_cards_of_def filter_empty_conv)
  then show ?thesis by (simp add: remove_card_def drop_cards_def)
qed

lemma delete_cards_leaves:
  "(\<And>i. i \<in> set is \<Longrightarrow> edition_cards_of i d = []) \<Longrightarrow> delete_cards is d = drop_cards (set is) d"
proof (induction "is" arbitrary: d)
  case (Cons i "is")
  then have leaf: "edition_cards_of i d = []" by simp
  have "edition_cards_of j (remove_card i d) = []" if "j \<in> set is" for j
    using Cons.prems [of j] that
    by (auto simp: edition_cards_of_def remove_card_def filter_empty_conv)
  with Cons.IH have "delete_cards is (remove_card i d) = drop_cards (set is) (remove_card i d)"
    by blast
  with leaf show ?case by (simp add: remove_card_leaf drop_cards_compose)
qed simp

lemma remove_card_drop:
  assumes "catalog_ok d q"
  shows "drop_cards (set (edition_cards_of i d)) (remove_card i d) = drop_cards (doomed d i) d"
proof -
  let ?S = "set (edition_cards_of i d)"
  have "e_card_id e \<in> ?S" if "e \<in> set (catalog_movie_editions d)" "e_movie_card_id e = i" for e
    using that by (force simp: edition_cards_of_def)
  then have "filter (\<lambda>e. e_card_id e \<notin> ?S \<and> e_card_id e \<noteq> i \<and> e_movie_card_id e \<noteq> i) (catalog_movie_editions d)
      = filter (\<lambda>e. e_card_id e \<noteq> i \<and> e_card_id e \<notin> ?S) (catalog_movie_editions d)"
    by (intro filter_cong) auto
  then show ?thesis
    by (simp add: drop_cards_def remove_card_def doomed_def conj_commute conj_left_commute)
qed

lemma delete_card_closed_form:
  assumes "catalog_ok d q" and "details_ok d"
  shows "delete_cards [i] d = drop_cards (doomed d i) d"
proof -
  have "edition_cards_of j (remove_card i d) = []" if j: "j \<in> set (edition_cards_of i d)" for j
  proof -
    from j obtain e where e: "e \<in> set (catalog_movie_editions d)" "e_card_id e = j"
      by (auto simp: edition_cards_of_def)
    with assms(1) obtain c where "c \<in> set (catalog_cards d)" "c_id c = j"
      by (auto simp: catalog_ok_def)
    with e assms(2) have "j \<notin> mv_card_id ` set (catalog_movies d)"
      by (auto simp: details_ok_def one_detail_def)
    with assms(1) show ?thesis
      by (auto simp: catalog_ok_def edition_cards_of_def remove_card_def filter_empty_conv)
  qed
  then have "delete_cards (edition_cards_of i d) (remove_card i d)
      = drop_cards (set (edition_cards_of i d)) (remove_card i d)"
    by (intro delete_cards_leaves) blast
  with assms(1) show ?thesis by (simp add: remove_card_drop)
qed

lemma remove_media_schema_ok: "schema_ok d q \<Longrightarrow> schema_ok (remove_media i d) q"
  unfolding schema_ok_def
proof (elim conjE, intro conjI)
  show "media_ok d q \<Longrightarrow> media_ok (remove_media i d) q"
    unfolding media_ok_def remove_media_def by (simp add: serial_ok_filter keyed_filter) blast
  show "links_ok d \<Longrightarrow> links_ok (remove_media i d)"
    unfolding links_ok_def remove_media_def by auto
qed (simp_all add: catalog_ok_def tasks_ok_def remove_media_def)

lemma remove_media_set_schema_ok:
  assumes "schema_ok d q" and "\<forall>m\<in>set (media_tbl d). m_media_set_id m \<noteq> Some i"
  shows "schema_ok (remove_media_set i d) q"
  using assms unfolding schema_ok_def
proof (elim conjE, intro conjI)
  show "media_ok d q \<Longrightarrow> \<forall>m\<in>set (media_tbl d). m_media_set_id m \<noteq> Some i \<Longrightarrow>
      media_ok (remove_media_set i d) q"
    unfolding media_ok_def remove_media_set_def by (simp add: serial_ok_filter) blast
  show "links_ok d \<Longrightarrow> links_ok (remove_media_set i d)"
    unfolding links_ok_def remove_media_set_def by auto
qed (simp_all add: catalog_ok_def tasks_ok_def remove_media_set_def)

end
