(* ===== verification/VM_Run.thy ===== *)
theory VM_Run
  imports VM_Db
begin

text \<open>
  Package vmdb (src/internal/lib/vmdb): running a statement on the pool or in a transaction,
  Exec, Query, QueryOne, Begin, Commit and Rollback.

  The driver (pgx) and the server are not part of the repository. What the code can observe of
  them beyond the meaning of its SQL is the record \<^verbatim>\<open>pg\<close>, a parameter of every operation:
  \<^item> \<^verbatim>\<open>fault_at n\<close>: what the \<open>n\<close>-th call of the driver reports. \<^verbatim>\<open>Refused e\<close> is an error without
    effect (a connection that cannot be had, a value that does not fit its column, a serialization
    failure); \<^verbatim>\<open>Lost e\<close> is an error after the statement, or the commit, took effect.
  \<^item> \<^verbatim>\<open>late_at n\<close>: whether the error of the \<open>n\<close>-th call, if it is a query, is reported by
    \<^verbatim>\<open>Query\<close> itself or only by \<^verbatim>\<open>rows.Err()\<close>.
  \<^item> \<^verbatim>\<open>clock_at n\<close>: the server's clock at the \<open>n\<close>-th call, read by NOW() when a transaction begins.
  \<^item> \<^verbatim>\<open>sql_lower\<close>: the function LOWER, which depends on the server's locale;
    \<^verbatim>\<open>jsonb_in\<close> and \<^verbatim>\<open>jsonb_out\<close>: reading and printing of JSONB values; \<^verbatim>\<open>state_media_id\<close>: the SQL
    expression \<^verbatim>\<open>(state->>'media_id')::integer\<close>, \<^verbatim>\<open>None\<close> for NULL.

  A session also records the directories that the process has moved (\<^verbatim>\<open>renames\<close>): the file system is not
  part of a transaction.
\<close>

section \<open>Driver and session\<close>

datatype fault = NoFault | Refused goerr | Lost goerr

record pg =
  fault_at :: "nat \<Rightarrow> fault"
  late_at :: "nat \<Rightarrow> bool"
  clock_at :: "nat \<Rightarrow> int"
  sql_lower :: "string \<Rightarrow> string"
  jsonb_in :: "string \<Rightarrow> json option"
  jsonb_out :: "json \<Rightarrow> string"
  state_media_id :: "json \<Rightarrow> int option"

datatype isolation = ReadCommitted | RepeatableRead | Serializable

text \<open>A transaction works on its own copy of the tables until it commits.\<close>

record tx =
  work :: db
  aborted :: bool
  began :: int
  iso :: "isolation option"

record sess =
  committed :: db
  seqs_of :: seqs
  txn :: "tx option"
  calls :: nat
  renames :: "(string \<times> string) list"

datatype runner = Pool | Tx

type_synonym 'a prog = "sess \<Rightarrow> 'a result \<times> sess"

definition tx_aborted :: goerr where
  "tx_aborted = PgError ''25P02'' ''current transaction is aborted''"

text \<open>One statement, sent to the server.\<close>

fun pg_run :: "pg \<Rightarrow> runner \<Rightarrow> 'r stmt \<Rightarrow> sess \<Rightarrow> (goerr + 'r) \<times> sess" where
  "pg_run P Pool st s =
     (let n = calls s; s1 = s\<lparr>calls := Suc n\<rparr> in
      case fault_at P n of
        Refused e \<Rightarrow> (Inl e, s1)
      | f \<Rightarrow>
          (case st (clock_at P n) (committed s) (seqs_of s) of
             (Inl e, q) \<Rightarrow> (Inl e, s1\<lparr>seqs_of := q\<rparr>)
           | (Inr (d, x), q) \<Rightarrow>
               ((case f of Lost e \<Rightarrow> Inl e | _ \<Rightarrow> Inr x),
                s1\<lparr>committed := d, seqs_of := q\<rparr>)))"
| "pg_run P Tx st s =
     (let n = calls s; s1 = s\<lparr>calls := Suc n\<rparr> in
      case txn s of
        None \<Rightarrow> (Inl (Sentinel ErrTxClosed), s1)
      | Some t \<Rightarrow>
          if aborted t then (Inl tx_aborted, s1)
          else
            (case fault_at P n of
               NoFault \<Rightarrow>
                 (case st (began t) (work t) (seqs_of s) of
                    (Inl e, q) \<Rightarrow> (Inl e, s1\<lparr>txn := Some (t\<lparr>aborted := True\<rparr>), seqs_of := q\<rparr>)
                  | (Inr (d, x), q) \<Rightarrow> (Inr x, s1\<lparr>txn := Some (t\<lparr>work := d\<rparr>), seqs_of := q\<rparr>))
             | Refused e \<Rightarrow> (Inl e, s1\<lparr>txn := Some (t\<lparr>aborted := True\<rparr>)\<rparr>)
             | Lost e \<Rightarrow> (Inl e, s1\<lparr>txn := Some (t\<lparr>aborted := True\<rparr>)\<rparr>)))"

declare pg_run.simps [simp del]

section \<open>Sequencing with Go's error checks\<close>

definition ret :: "'a \<Rightarrow> 'a prog" where
  "ret a s = (Ok a, s)"

definition fail :: "(goerr option \<Rightarrow> goerr option result) \<Rightarrow> goerr \<Rightarrow> 'a prog" where
  "fail f e s = (fail_with f e, s)"

definition panic :: "goerr \<Rightarrow> 'a prog" where
  "panic e s = (Panic e, s)"

definition nil_dereference :: goerr where
  "nil_dereference = New ''runtime error: invalid memory address or nil pointer dereference''"

text \<open>
  \<^verbatim>\<open>check m w k\<close>: \<^verbatim>\<open>a, err := m; if err != nil { return zero, w(err) }; k(a)\<close>. A panic passes.
\<close>

definition check :: "'a prog \<Rightarrow> (goerr \<Rightarrow> goerr) \<Rightarrow> ('a \<Rightarrow> 'b prog) \<Rightarrow> 'b prog" where
  "check m w k s =
     (case m s of
        (Ok a, s1) \<Rightarrow> k a s1
      | (Err e, s1) \<Rightarrow> (Err (w e), s1)
      | (Panic p, s1) \<Rightarrow> (Panic p, s1))"

abbreviation bind :: "'a prog \<Rightarrow> ('a \<Rightarrow> 'b prog) \<Rightarrow> 'b prog" where
  "bind m k \<equiv> check m (\<lambda>e. e) k"

section \<open>error.go, new.go, run.go\<close>

definition handleError ::
  "goerr option \<Rightarrow> (goerr option \<Rightarrow> goerr option result) \<Rightarrow> goerr option result" where
  "handleError err fallback =
     (case err of
        Some e \<Rightarrow>
          (case as_PgError e of
             Some code \<Rightarrow> if code = ''40001'' then DbSerialization err else fallback err
           | None \<Rightarrow> fallback err)
      | None \<Rightarrow> fallback err)"

definition driver_result :: "goerr + 'a \<Rightarrow> 'a result" where
  "driver_result r =
     (case r of
        Inr a \<Rightarrow> Ok a
      | Inl e \<Rightarrow> fail_with (\<lambda>err. handleError err InternalError) e)"

text \<open>\<^verbatim>\<open>Exec\<close> on a statement whose result is the number of affected rows.\<close>

definition Exec :: "pg \<Rightarrow> runner \<Rightarrow> nat stmt \<Rightarrow> nat prog" where
  "Exec P r st s = (case pg_run P r st s of (x, s1) \<Rightarrow> (driver_result x, s1))"

text \<open>
  \<^verbatim>\<open>r.query\<close>: the rows together with what \<^verbatim>\<open>rows.Err()\<close> will report at the end. The error that
  ends the iteration does not pass through \<^verbatim>\<open>handleError\<close>.
\<close>

definition run_query :: "pg \<Rightarrow> runner \<Rightarrow> 'r list stmt \<Rightarrow> ('r list \<times> goerr option) prog" where
  "run_query P r st s =
     (case pg_run P r st s of
        (Inr rows, s1) \<Rightarrow> (Ok (rows, None), s1)
      | (Inl e, s1) \<Rightarrow>
          (if late_at P (calls s) then (Ok ([], Some e), s1) else (driver_result (Inl e), s1)))"

text \<open>The loop over \<^verbatim>\<open>rows.Next()\<close>: the callback sees each row until it wants no more.\<close>

fun query_loop :: "('r \<Rightarrow> 'c \<Rightarrow> bool \<times> 'c) \<Rightarrow> 'r list \<Rightarrow> 'c \<Rightarrow> 'c" where
  "query_loop cb [] c = c"
| "query_loop cb (r # rs) c = (case cb r c of (wantMore, c') \<Rightarrow> if wantMore then query_loop cb rs c' else c')"

definition finishRows :: "goerr option \<Rightarrow> 'c \<Rightarrow> 'c result" where
  "finishRows rows_err c = (case rows_err of None \<Rightarrow> Ok c | Some e \<Rightarrow> Err e)"

definition Query ::
  "pg \<Rightarrow> runner \<Rightarrow> 'r list stmt \<Rightarrow> ('r \<Rightarrow> 'c \<Rightarrow> bool \<times> 'c) \<Rightarrow> 'c \<Rightarrow> 'c prog" where
  "Query P r st cb c =
     bind (run_query P r st) (\<lambda>(rows, rows_err) s. (finishRows rows_err (query_loop cb rows c), s))"

definition QueryPtr ::
  "pg \<Rightarrow> runner \<Rightarrow> 'r list stmt \<Rightarrow> ('r \<Rightarrow> 'c \<Rightarrow> bool \<times> 'c) \<Rightarrow> 'c \<Rightarrow> 'c prog" where
  "QueryPtr P r st cb c =
     bind (run_query P r st) (\<lambda>(rows, rows_err) s. (finishRows rows_err (query_loop cb rows c), s))"

definition count_two :: "'r \<Rightarrow> nat \<times> 'r option \<Rightarrow> bool \<times> nat \<times> 'r option" where
  "count_two record c = (Suc (fst c) < 2, Suc (fst c), Some record)"

definition QueryOne :: "pg \<Rightarrow> runner \<Rightarrow> 'r list stmt \<Rightarrow> 'r prog" where
  "QueryOne P r st =
     bind (Query P r st count_two (0, None)) (\<lambda>(count, res).
       case (count, res) of
         (0, _) \<Rightarrow> fail NotFound (Sentinel ErrNotFound)
       | (Suc 0, Some x) \<Rightarrow> ret x
       | _ \<Rightarrow> fail InternalError (Sentinel ErrMultipleRecords))"

definition QueryOnePtr :: "pg \<Rightarrow> runner \<Rightarrow> 'r list stmt \<Rightarrow> 'r prog" where
  "QueryOnePtr P r st =
     bind (QueryPtr P r st count_two (0, None)) (\<lambda>(count, res).
       case (count, res) of
         (0, _) \<Rightarrow> fail NotFound (Sentinel ErrNotFound)
       | (Suc 0, Some x) \<Rightarrow> ret x
       | _ \<Rightarrow> fail InternalError (Sentinel ErrMultipleRecords))"

section \<open>Transactions\<close>

text \<open>\<^verbatim>\<open>TxOption\<close>s are applied in order; each overwrites the isolation level.\<close>

definition Begin :: "pg \<Rightarrow> isolation list \<Rightarrow> unit prog" where
  "Begin P options s =
     (let n = calls s; s1 = s\<lparr>calls := Suc n\<rparr>;
          level = fold (\<lambda>opt _. Some opt) options None in
      case fault_at P n of
        NoFault \<Rightarrow>
          (Ok (), s1\<lparr>txn := Some \<lparr>work = committed s, aborted = False, began = clock_at P n,
                                iso = level\<rparr>\<rparr>)
      | Refused e \<Rightarrow> (driver_result (Inl e), s1)
      | Lost e \<Rightarrow> (driver_result (Inl e), s1))"

text \<open>
  A commit closes the transaction whatever it reports; on a transaction that a failed statement
  aborted, the server rolls back and the driver reports it.
\<close>

definition Commit :: "pg \<Rightarrow> unit prog" where
  "Commit P s =
     (let n = calls s; s1 = s\<lparr>calls := Suc n, txn := None\<rparr> in
      case txn s of
        None \<Rightarrow> (driver_result (Inl (Sentinel ErrTxClosed)), s1)
      | Some t \<Rightarrow>
          if aborted t then (driver_result (Inl (Sentinel ErrTxCommitRollback)), s1)
          else
            (case fault_at P n of
               NoFault \<Rightarrow> (Ok (), s1\<lparr>committed := work t\<rparr>)
             | Refused e \<Rightarrow> (driver_result (Inl e), s1)
             | Lost e \<Rightarrow> (driver_result (Inl e), s1\<lparr>committed := work t\<rparr>)))"

text \<open>
  \<^verbatim>\<open>Rollback\<close> of a closed transaction reports ErrTxClosed, which is ignored; any other error
  panics. The server forgets the transaction in every case.
\<close>

definition Rollback :: "pg \<Rightarrow> unit prog" where
  "Rollback P s =
     (case txn s of
        None \<Rightarrow> (Ok (), s)
      | Some t \<Rightarrow>
          (let n = calls s; s1 = s\<lparr>calls := Suc n, txn := None\<rparr> in
           case fault_at P n of
             NoFault \<Rightarrow> (Ok (), s1)
           | Refused e \<Rightarrow>
               ((if e = Sentinel ErrTxClosed then Ok ()
                 else Panic (wrapf ''failed to rollback transaction: '' e)), s1)
           | Lost e \<Rightarrow>
               ((if e = Sentinel ErrTxClosed then Ok ()
                 else Panic (wrapf ''failed to rollback transaction: '' e)), s1)))"

text \<open>\<^verbatim>\<open>defer tx.Rollback(ctx)\<close>: runs after the body on every way out of it.\<close>

definition defer_Rollback :: "pg \<Rightarrow> 'a prog \<Rightarrow> 'a prog" where
  "defer_Rollback P m s =
     (case m s of (r, s1) \<Rightarrow>
      (case Rollback P s1 of (rr, s2) \<Rightarrow>
       ((case rr of Panic p \<Rightarrow> Panic p | _ \<Rightarrow> r), s2)))"

text \<open>
  \<^verbatim>\<open>tx, err := Begin(..); if err != nil { return nil, w(err) }; defer tx.Rollback(ctx); body\<close>
\<close>

definition with_tx :: "pg \<Rightarrow> isolation list \<Rightarrow> (goerr \<Rightarrow> goerr) \<Rightarrow> 'a prog \<Rightarrow> 'a prog" where
  "with_tx P options w body = check (Begin P options) w (\<lambda>_. defer_Rollback P body)"

end
