(* ===== verification/VM_Atomic.thy ===== *)
theory VM_Atomic
  imports VM_Run
begin

text \<open>
  Reasoning about programs over vmdb, once for all services.
  \<^item> \<^verbatim>\<open>quiet\<close>: the program leaves the committed tables alone.
  \<^item> \<^verbatim>\<open>atomic\<close>: whatever the driver does, the program either behaves as it would with a driver that
    never fails, or it reports a failure and the committed tables are as before, or as after the
    reliable run (the reply to a commit got lost). The rules follow the structure of the program.
  \<^item> \<^verbatim>\<open>keeps I\<close>: the program keeps an invariant of the session; the locale \<^verbatim>\<open>db_invariant\<close> derives it
    from the statements of the program.
\<close>

section \<open>Basic facts\<close>

definition reliable :: "pg \<Rightarrow> pg" where
  "reliable P = P\<lparr>fault_at := \<lambda>_. NoFault\<rparr>"

definition is_Ok :: "'a result \<Rightarrow> bool" where
  "is_Ok r = (case r of Ok _ \<Rightarrow> True | _ \<Rightarrow> False)"

lemma is_Ok_simps [simp]: "is_Ok (Ok a)" "\<not> is_Ok (Err e)" "\<not> is_Ok (Panic p)"
  by (simp_all add: is_Ok_def)

lemma reliable_simps [simp]:
  "fault_at (reliable P) n = NoFault"
  "late_at (reliable P) = late_at P"
  "clock_at (reliable P) = clock_at P"
  "sql_lower (reliable P) = sql_lower P"
  "jsonb_in (reliable P) = jsonb_in P"
  "jsonb_out (reliable P) = jsonb_out P"
  "state_media_id (reliable P) = state_media_id P"
  "reliable (reliable P) = reliable P"
  by (simp_all add: reliable_def)

lemma fail_with_not_Ok: "\<not> is_Ok (fail_with f e)"
  by (auto simp: fail_with_def is_Ok_def split: result.splits option.splits)

lemma driver_result_Inl: "\<not> is_Ok (driver_result (Inl e))"
  by (simp add: driver_result_def fail_with_not_Ok)

lemma driver_result_Inr [simp]: "driver_result (Inr a) = Ok a"
  by (simp add: driver_result_def)

section \<open>Quiet programs\<close>

definition quiet :: "'a prog \<Rightarrow> bool" where
  "quiet m = (\<forall>s. committed (snd (m s)) = committed s)"

lemma quietD: "quiet m \<Longrightarrow> m s = (r, s1) \<Longrightarrow> committed s1 = committed s"
  by (metis quiet_def snd_conv)

lemma quiet_ret: "quiet (ret a)"
  by (simp add: quiet_def ret_def)

lemma quiet_fail: "quiet (fail f e)"
  by (simp add: quiet_def fail_def)

lemma quiet_panic: "quiet (panic e)"
  by (simp add: quiet_def panic_def)

lemma quiet_check: "quiet m \<Longrightarrow> (\<And>a. quiet (k a)) \<Longrightarrow> quiet (check m w k)"
  unfolding quiet_def check_def by (auto split: prod.splits result.splits) (metis snd_conv)+

lemma pg_run_Tx_committed: "pg_run P Tx st s = (r, s1) \<Longrightarrow> committed s1 = committed s"
  by (auto simp: pg_run.simps Let_def split: option.splits if_splits fault.splits prod.splits sum.splits)

lemma quiet_Exec_Tx: "quiet (Exec P Tx st)"
  by (auto simp: quiet_def Exec_def pg_run_Tx_committed split: prod.splits)

lemma quiet_run_query_Tx: "quiet (run_query P Tx st)"
  by (auto simp: quiet_def run_query_def split: prod.splits sum.splits dest: pg_run_Tx_committed)

lemma quiet_const: "(\<And>s. snd (m s) = s) \<Longrightarrow> quiet m"
  by (simp add: quiet_def)

lemma quiet_Query_Tx: "quiet (Query P Tx st cb c)"
  unfolding Query_def
  by (intro quiet_check quiet_run_query_Tx) (auto intro: quiet_const split: prod.splits)

lemma quiet_QueryOne_Tx: "quiet (QueryOne P Tx st)"
  unfolding QueryOne_def
  by (intro quiet_check quiet_Query_Tx) (auto intro: quiet_ret quiet_fail split: prod.splits nat.splits option.splits)

lemma quiet_Begin: "quiet (Begin P opts)"
  by (auto simp: quiet_def Begin_def Let_def split: fault.splits)

lemma Rollback_committed: "committed (snd (Rollback P s)) = committed s"
  by (auto simp: Rollback_def Let_def split: option.splits fault.splits)

lemma quiet_defer_Rollback: "quiet m \<Longrightarrow> quiet (defer_Rollback P m)"
  unfolding quiet_def defer_Rollback_def using Rollback_committed
  by (auto split: prod.splits) (metis snd_conv)

lemma quiet_if: "quiet m \<Longrightarrow> quiet n \<Longrightarrow> quiet (if b then m else n)"
  by simp

lemma quiet_option: "quiet m \<Longrightarrow> (\<And>a. quiet (k a)) \<Longrightarrow> quiet (case x of None \<Rightarrow> m | Some a \<Rightarrow> k a)"
  by (cases x) simp_all

lemma quiet_with_tx: "quiet m \<Longrightarrow> quiet (with_tx P opts w m)"
  unfolding with_tx_def by (intro quiet_check quiet_Begin quiet_defer_Rollback)

lemmas quiet_intros = quiet_ret quiet_fail quiet_panic quiet_if quiet_option quiet_with_tx quiet_check quiet_Exec_Tx quiet_Query_Tx
  quiet_QueryOne_Tx quiet_Begin quiet_defer_Rollback

section \<open>Atomic programs\<close>

definition atomic_at :: "pg \<Rightarrow> (pg \<Rightarrow> 'a prog) \<Rightarrow> sess \<Rightarrow> bool" where
  "atomic_at P m s =
     (m P s = m (reliable P) s \<or>
      \<not> is_Ok (fst (m P s)) \<and>
      (committed (snd (m P s)) = committed s \<or>
       committed (snd (m P s)) = committed (snd (m (reliable P) s))))"

definition atomic :: "pg \<Rightarrow> (pg \<Rightarrow> 'a prog) \<Rightarrow> bool" where
  "atomic P m = (\<forall>s. atomic_at P m s)"

lemma atomic_const: "m P = m (reliable P) \<Longrightarrow> atomic P m"
  by (simp add: atomic_def atomic_at_def)

lemma atomic_ret: "atomic P (\<lambda>P. ret a)"
  by (simp add: atomic_const)

lemma atomic_fail: "atomic P (\<lambda>P. fail f e)"
  by (simp add: atomic_const)

lemma atomic_panic: "atomic P (\<lambda>P. panic e)"
  by (simp add: atomic_const)

lemma atomic_cases:
  assumes "atomic P m"
  obtains (same) "m P s = m (reliable P) s"
  | (before) "\<not> is_Ok (fst (m P s))" "committed (snd (m P s)) = committed s"
  | (after) "\<not> is_Ok (fst (m P s))" "committed (snd (m P s)) = committed (snd (m (reliable P) s))"
  using assms by (auto simp: atomic_def atomic_at_def)

lemma check_fails: "\<not> is_Ok (fst (m s)) \<Longrightarrow>
    \<not> is_Ok (fst (check m w k s)) \<and> snd (check m w k s) = snd (m s)"
  by (auto simp: check_def is_Ok_def split: prod.splits result.splits)

lemma check_not_Ok_snd: "\<not> is_Ok (fst (m s)) \<Longrightarrow> snd (check m w k s) = snd (m s)"
  by (simp add: check_fails)

lemma check_Ok: "m s = (Ok a, s1) \<Longrightarrow> check m w k s = k a s1"
  by (simp add: check_def)

lemma not_is_Ok_cases: "(\<And>a. r = Ok a \<Longrightarrow> Q) \<Longrightarrow> (\<not> is_Ok r \<Longrightarrow> Q) \<Longrightarrow> Q"
  by (cases r) auto

lemma atomic_check:
  assumes "\<And>P. quiet (m P)" and "atomic P m" and "\<And>a. atomic P (\<lambda>P. k P a)"
  shows "atomic P (\<lambda>P. check (m P) w (k P))"
  unfolding atomic_def
proof
  fix s
  show "atomic_at P (\<lambda>P. check (m P) w (k P)) s"
    using assms(2)
  proof (cases rule: atomic_cases [where s = s])
    case same
    show ?thesis
    proof (rule not_is_Ok_cases [of "fst (m P s)"])
      fix a assume "fst (m P s) = Ok a"
      then obtain s1 where s1: "m P s = (Ok a, s1)" by (metis prod.collapse)
      then have "committed s1 = committed s" by (rule quietD [OF assms(1)])
      moreover have "atomic_at P (\<lambda>P. k P a) s1"
        using assms(3) [of a] by (simp add: atomic_def)
      ultimately show ?thesis
        using s1 same by (simp add: atomic_at_def check_Ok)
    next
      assume "\<not> is_Ok (fst (m P s))"
      then have "check (m P) w (k P) s = check (m (reliable P)) w (k (reliable P)) s"
        using same by (auto simp: check_def split: prod.splits result.splits)
      then show ?thesis by (simp add: atomic_at_def)
    qed
  next
    case before
    then show ?thesis by (simp add: atomic_at_def check_fails)
  next
    case after
    moreover have "committed (snd (m P s)) = committed s"
      using assms(1) by (simp add: quiet_def)
    ultimately show ?thesis by (simp add: atomic_at_def check_fails)
  qed
qed

text \<open>The last effect of a program need not be quiet.\<close>

lemma committed_check_pure:
  "(\<And>a s. snd (k a s) = s) \<Longrightarrow> committed (snd (check m w k s)) = committed (snd (m s))"
  by (auto simp: check_def split: prod.splits result.splits)

lemma atomic_check_pure:
  assumes "atomic P m" and "\<And>a s. snd (k a s) = s"
  shows "atomic P (\<lambda>P. check (m P) w k)"
  unfolding atomic_def
proof
  fix s
  show "atomic_at P (\<lambda>P. check (m P) w k) s"
    using assms(1)
  proof (cases rule: atomic_cases [where s = s])
    case same
    then show ?thesis by (simp add: atomic_at_def check_def)
  qed (simp_all add: atomic_at_def check_fails committed_check_pure [OF assms(2)])
qed

lemma atomic_check_ret: "atomic P m \<Longrightarrow> atomic P (\<lambda>P. check (m P) w (\<lambda>a. ret (f a)))"
  by (intro atomic_check_pure) (simp_all add: ret_def)

text \<open>Exec, Query and QueryOne are one statement each, and a value computed from its reply.\<close>

lemma atomic_pg_run:
  assumes "st P = st (reliable P)"
  shows "pg_run P r (st P) s = pg_run (reliable P) r (st (reliable P)) s \<or>
    (\<exists>e. fst (pg_run P r (st P) s) = Inl e) \<and>
      (committed (snd (pg_run P r (st P) s)) = committed s \<or>
       committed (snd (pg_run P r (st P) s)) = committed (snd (pg_run (reliable P) r (st (reliable P)) s)))"
  by (cases r; cases "fault_at P (calls s)")
    (auto simp: pg_run.simps Let_def assms split: option.splits if_splits prod.splits sum.splits)

definition reply :: "(sess \<Rightarrow> goerr + 'r \<Rightarrow> 'a result) \<Rightarrow> pg \<Rightarrow> runner \<Rightarrow> 'r stmt \<Rightarrow> 'a prog" where
  "reply g P r st s = (case pg_run P r st s of (x, s1) \<Rightarrow> (g s x, s1))"

lemma atomic_reply:
  assumes "st P = st (reliable P)" and "\<And>s e. \<not> is_Ok (g s (Inl e))"
  shows "atomic P (\<lambda>P. reply g P r (st P))"
  unfolding atomic_def
proof
  fix s
  show "atomic_at P (\<lambda>P. reply g P r (st P)) s"
    using atomic_pg_run [of st P r s] assms
    by (auto simp: atomic_at_def reply_def split: prod.splits)
qed

lemma quiet_reply_Tx: "quiet (reply g P Tx st)"
  by (auto simp: quiet_def reply_def pg_run_Tx_committed split: prod.splits)

definition rows_result :: "bool \<Rightarrow> ('r list \<Rightarrow> 'a result) \<Rightarrow> goerr + 'r list \<Rightarrow> 'a result" where
  "rows_result late f x =
     (case x of
        Inr rows \<Rightarrow> f rows
      | Inl e \<Rightarrow> if late then Err e else fail_with (\<lambda>err. handleError err InternalError) e)"

definition one_row :: "'r list \<Rightarrow> 'r result" where
  "one_row rows =
     (case rows of
        [] \<Rightarrow> Err (HttpError ProblemNotFound 404 (Sentinel ErrNotFound))
      | [x] \<Rightarrow> Ok x
      | _ \<Rightarrow> Err (HttpError ProblemInternalError 500 (Sentinel ErrMultipleRecords)))"

lemma rows_result_Inl: "\<not> is_Ok (rows_result late f (Inl e))"
  by (simp add: rows_result_def fail_with_not_Ok)

lemma fail_with_propagates:
  "(case fail_with f e of Ok a \<Rightarrow> g a | Err x \<Rightarrow> Err x | Panic x \<Rightarrow> Panic x) = fail_with f e"
  by (auto simp: fail_with_def split: result.splits option.splits)

lemma Exec_reply: "Exec P r st = reply (\<lambda>_. driver_result) P r st"
  by (rule ext) (simp add: Exec_def reply_def)

lemma Query_reply:
  "Query P r st cb c = reply (\<lambda>s. rows_result (late_at P (calls s)) (\<lambda>rows. Ok (query_loop cb rows c))) P r st"
proof
  fix s
  obtain x s1 where x: "pg_run P r st s = (x, s1)" by fastforce
  show "Query P r st cb c s =
      reply (\<lambda>s. rows_result (late_at P (calls s)) (\<lambda>rows. Ok (query_loop cb rows c))) P r st s"
    by (cases x) (auto simp: Query_def reply_def check_def run_query_def x finishRows_def
        rows_result_def driver_result_def fail_with_def split: result.splits option.splits)
qed

lemma QueryPtr_Query: "QueryPtr = Query"
  by (intro ext) (simp add: QueryPtr_def Query_def)

lemma count_two_loop:
  "query_loop count_two rows (0, None) =
     (case rows of [] \<Rightarrow> (0, None) | [x] \<Rightarrow> (1, Some x) | x # y # _ \<Rightarrow> (2, Some y))"
  by (auto simp: count_two_def split: list.splits)

lemma QueryOne_reply:
  "QueryOne P r st = reply (\<lambda>s. rows_result (late_at P (calls s)) one_row) P r st"
proof
  fix s
  obtain x s1 where x: "pg_run P r st s = (x, s1)" by fastforce
  show "QueryOne P r st s = reply (\<lambda>s. rows_result (late_at P (calls s)) one_row) P r st s"
  proof (cases x)
    case (Inl e)
    then show ?thesis
      by (auto simp: QueryOne_def Query_reply reply_def check_def x rows_result_def fail_with_def
          split: result.splits option.splits)
  next
    case (Inr rows)
    then show ?thesis
      by (auto simp: QueryOne_def Query_reply reply_def check_def x rows_result_def one_row_def
          count_two_loop fail_def ret_def split: list.splits)
  qed
qed

lemma atomic_Exec: "st P = st (reliable P) \<Longrightarrow> atomic P (\<lambda>P. Exec P r (st P))"
  unfolding Exec_reply by (intro atomic_reply driver_result_Inl)

lemma atomic_QueryOne:
  "st P = st (reliable P) \<Longrightarrow> atomic P (\<lambda>P. QueryOne P r (st P))"
  using atomic_reply [of st P "\<lambda>s. rows_result (late_at P (calls s)) one_row" r]
  by (simp add: QueryOne_reply rows_result_Inl atomic_def atomic_at_def)

lemma atomic_Query:
  "st P = st (reliable P) \<Longrightarrow> atomic P (\<lambda>P. Query P r (st P) cb c)"
  using atomic_reply [of st P "\<lambda>s. rows_result (late_at P (calls s)) (\<lambda>rows. Ok (query_loop cb rows c))" r]
  by (simp add: Query_reply rows_result_Inl atomic_def atomic_at_def)

lemma atomic_Begin: "atomic P (\<lambda>P. Begin P opts)"
  by (auto simp: atomic_def atomic_at_def Begin_def Let_def driver_result_Inl split: fault.splits)

lemma atomic_Commit: "atomic P (\<lambda>P. Commit P)"
  by (auto simp: atomic_def atomic_at_def Commit_def Let_def driver_result_Inl
      split: fault.splits option.splits)

lemma defer_Rollback_committed: "committed (snd (defer_Rollback P m s)) = committed (snd (m s))"
  using Rollback_committed [of P "snd (m s)"]
  by (cases "m s"; cases "Rollback P (snd (m s))") (simp add: defer_Rollback_def)

lemma defer_Rollback_not_Ok: "\<not> is_Ok (fst (m s)) \<Longrightarrow> \<not> is_Ok (fst (defer_Rollback P m s))"
  by (auto simp: defer_Rollback_def is_Ok_def split: prod.splits result.splits)

lemma Rollback_reliable: "Rollback P s = Rollback (reliable P) s \<or> (\<exists>p. fst (Rollback P s) = Panic p)"
  by (auto simp: Rollback_def Let_def split: option.splits fault.splits)

lemma atomic_defer_Rollback:
  assumes "atomic P m"
  shows "atomic P (\<lambda>P. defer_Rollback P (m P))"
  unfolding atomic_def
proof
  fix s
  show "atomic_at P (\<lambda>P. defer_Rollback P (m P)) s"
    using assms
  proof (cases rule: atomic_cases [where s = s])
    case same
    show ?thesis
    proof (cases "Rollback P (snd (m P s)) = Rollback (reliable P) (snd (m P s))")
      case True
      with same show ?thesis
        by (cases "m (reliable P) s") (simp add: atomic_at_def defer_Rollback_def)
    next
      case False
      then obtain p where "fst (Rollback P (snd (m P s))) = Panic p"
        using Rollback_reliable by blast
      then have "\<not> is_Ok (fst (defer_Rollback P (m P) s))"
        by (auto simp: defer_Rollback_def split: prod.splits)
      with same show ?thesis by (simp add: atomic_at_def defer_Rollback_committed)
    qed
  qed (simp_all add: atomic_at_def defer_Rollback_not_Ok defer_Rollback_committed)
qed

lemma atomic_with_tx: "atomic P body \<Longrightarrow> atomic P (\<lambda>P. with_tx P opts w (body P))"
  unfolding with_tx_def by (intro atomic_check quiet_Begin atomic_Begin atomic_defer_Rollback)

text \<open>A transaction whose body never commits is quiet; most bodies end with their commit.\<close>

lemma atomic_commit_ret: "atomic P (\<lambda>P. check (Commit P) w (\<lambda>_. ret a))"
  by (intro atomic_check_ret atomic_Commit)

lemma atomic_if: "(b \<Longrightarrow> atomic P m) \<Longrightarrow> (\<not> b \<Longrightarrow> atomic P n) \<Longrightarrow> atomic P (\<lambda>P. if b then m P else n P)"
  by (cases b) simp_all

lemma atomic_option:
  "(x = None \<Longrightarrow> atomic P m) \<Longrightarrow> (\<And>a. x = Some a \<Longrightarrow> atomic P (\<lambda>P. k P a)) \<Longrightarrow>
     atomic P (\<lambda>P. case x of None \<Rightarrow> m P | Some a \<Rightarrow> k P a)"
  by (cases x) simp_all

lemmas atomic_intros = atomic_ret atomic_fail atomic_panic atomic_if atomic_option atomic_Exec atomic_QueryOne atomic_Query atomic_Begin
  atomic_with_tx atomic_commit_ret atomic_check

section \<open>Failures without effect\<close>

text \<open>
  \<^verbatim>\<open>clean\<close>: a run that reports a failure leaves the committed tables as they were. With a driver
  that does not fail, a transaction is clean. Together with atomicity: with any driver a failure
  leaves either nothing or the whole effect of the run that would have succeeded.
\<close>

definition clean :: "'a prog \<Rightarrow> bool" where
  "clean m = (\<forall>s. is_Ok (fst (m s)) \<or> committed (snd (m s)) = committed s)"

lemma clean_quiet: "quiet m \<Longrightarrow> clean m"
  by (simp add: clean_def quiet_def)

lemma clean_check:
  assumes "quiet m" and "\<And>a. clean (k a)"
  shows "clean (check m w k)"
  unfolding clean_def
proof
  fix s
  show "is_Ok (fst (check m w k s)) \<or> committed (snd (check m w k s)) = committed s"
  proof (rule not_is_Ok_cases [of "fst (m s)"])
    fix a assume "fst (m s) = Ok a"
    then obtain s1 where s1: "m s = (Ok a, s1)" by (metis prod.collapse)
    then have "committed s1 = committed s" by (rule quietD [OF assms(1)])
    moreover have "is_Ok (fst (k a s1)) \<or> committed (snd (k a s1)) = committed s1"
      using assms(2) [of a] by (simp add: clean_def)
    ultimately show ?thesis using s1 by (simp add: check_Ok)
  next
    assume "\<not> is_Ok (fst (m s))"
    then show ?thesis using assms(1) by (simp add: check_fails quiet_def)
  qed
qed

lemma clean_commit_ret: "clean (check (Commit (reliable P)) w (\<lambda>_. ret a))"
  by (auto simp: clean_def check_def Commit_def ret_def Let_def split: option.splits result.splits prod.splits)

lemma clean_with_tx:
  assumes "clean body"
  shows "clean (with_tx (reliable P) opts w body)"
  unfolding with_tx_def
proof (intro clean_check quiet_Begin)
  show "clean (defer_Rollback (reliable P) body)"
    unfolding clean_def
  proof
    fix s
    have "\<exists>s2. Rollback (reliable P) s1 = (Ok (), s2)" for s1
      by (auto simp: Rollback_def Let_def split: option.splits)
    then have "fst (defer_Rollback (reliable P) body s) = fst (body s)"
      by (metis (no_types, lifting) defer_Rollback_def case_prod_beta fst_conv result.simps(10))
    then show "is_Ok (fst (defer_Rollback (reliable P) body s)) \<or>
        committed (snd (defer_Rollback (reliable P) body s)) = committed s"
      using assms by (simp add: clean_def defer_Rollback_committed)
  qed
qed

text \<open>A single statement on the pool, refused when it affected no row.\<close>

lemma clean_Exec_rows:
  assumes "\<And>now d q d' q'. st now d q = (Inr (d', 0), q') \<Longrightarrow> d' = d"
  shows "clean (check (Exec (reliable P) Pool st) w (\<lambda>n. if n = 0 then fail f e else ret a))"
  using assms
  by (auto simp: clean_def check_def Exec_def pg_run.simps Let_def driver_result_def fail_def ret_def
      fail_with_def split: prod.splits sum.splits result.splits option.splits)

lemma clean_if: "clean m \<Longrightarrow> clean n \<Longrightarrow> clean (if b then m else n)"
  by simp

lemma clean_option: "clean m \<Longrightarrow> (\<And>a. clean (k a)) \<Longrightarrow> clean (case x of None \<Rightarrow> m | Some a \<Rightarrow> k a)"
  by (cases x) simp_all

lemmas clean_intros = clean_if clean_option clean_commit_ret clean_with_tx
  clean_quiet [OF quiet_ret] clean_quiet [OF quiet_fail] clean_quiet [OF quiet_panic] clean_check

text \<open>The two together.\<close>

definition all_or_nothing :: "pg \<Rightarrow> (pg \<Rightarrow> 'a prog) \<Rightarrow> sess \<Rightarrow> bool" where
  "all_or_nothing P m s =
     (if is_Ok (fst (m P s)) then m P s = m (reliable P) s
      else committed (snd (m P s)) = committed s \<or>
        is_Ok (fst (m (reliable P) s)) \<and> committed (snd (m P s)) = committed (snd (m (reliable P) s)))"

lemma all_or_nothingI:
  assumes "atomic P m" and "clean (m (reliable P))"
  shows "all_or_nothing P m s"
  using assms(1)
proof (cases rule: atomic_cases [where s = s])
  case same
  then show ?thesis using assms(2) by (auto simp: all_or_nothing_def clean_def)
next
  case before
  then show ?thesis by (simp add: all_or_nothing_def)
next
  case after
  moreover have "is_Ok (fst (m (reliable P) s)) \<or> committed (snd (m (reliable P) s)) = committed s"
    using assms(2) by (simp add: clean_def)
  ultimately show ?thesis by (auto simp: all_or_nothing_def)
qed

end
