(* ===== verification/VM_Inv.thy ===== *)
theory VM_Inv
  imports VM_Atomic
begin

text \<open>
  Invariants of the tables, lifted from statements to programs, and the equations of a session
  whose driver does not fail.

  The locale \<^verbatim>\<open>db_invariant\<close> is the interface between the schema and the services: an invariant of
  tables and sequences that survives a sequence moving on. If each statement of a program keeps it,
  the program keeps it on the committed tables and on the open transaction, whatever the driver
  does. It is interpreted for \<^verbatim>\<open>schema_ok\<close>.
\<close>

section \<open>Sequences only grow\<close>

definition seq_le :: "seqs \<Rightarrow> seqs \<Rightarrow> bool" where
  "seq_le q q' =
     (card_seq q \<le> card_seq q' \<and> kind_seq q \<le> kind_seq q' \<and> media_set_seq q \<le> media_set_seq q' \<and>
      media_seq q \<le> media_seq q' \<and> task_seq q \<le> task_seq q')"

lemma seq_le_refl [simp]: "seq_le q q"
  by (simp add: seq_le_def)

definition sess_inv :: "(db \<Rightarrow> seqs \<Rightarrow> bool) \<Rightarrow> sess \<Rightarrow> bool" where
  "sess_inv I s =
     (I (committed s) (seqs_of s) \<and> (case txn s of None \<Rightarrow> True | Some t \<Rightarrow> I (work t) (seqs_of s)))"

definition stmt_keeps :: "(db \<Rightarrow> seqs \<Rightarrow> bool) \<Rightarrow> 'r stmt \<Rightarrow> bool" where
  "stmt_keeps I st =
     (\<forall>now d q. I d q \<longrightarrow>
        (case st now d q of (r, q') \<Rightarrow>
           seq_le q q' \<and> (case r of Inl e \<Rightarrow> True | Inr (d', x) \<Rightarrow> I d' q')))"

definition keeps :: "(sess \<Rightarrow> bool) \<Rightarrow> 'a prog \<Rightarrow> bool" where
  "keeps J m = (\<forall>s. J s \<longrightarrow> J (snd (m s)))"

lemma keepsD: "keeps J m \<Longrightarrow> J s \<Longrightarrow> J (snd (m s))"
  by (simp add: keeps_def)

lemma keeps_ret: "keeps J (ret a)"
  by (simp add: keeps_def ret_def)

lemma keeps_fail: "keeps J (fail f e)"
  by (simp add: keeps_def fail_def)

lemma keeps_panic: "keeps J (panic e)"
  by (simp add: keeps_def panic_def)

lemma keeps_pure: "(\<And>s. snd (m s) = s) \<Longrightarrow> keeps J m"
  by (simp add: keeps_def)

lemma keeps_check: "keeps J m \<Longrightarrow> (\<And>a. keeps J (k a)) \<Longrightarrow> keeps J (check m w k)"
  unfolding keeps_def check_def by (force split: prod.splits result.splits)

lemma keeps_if: "(b \<Longrightarrow> keeps J m) \<Longrightarrow> (\<not> b \<Longrightarrow> keeps J n) \<Longrightarrow> keeps J (if b then m else n)"
  by simp

lemma keeps_option:
  "(x = None \<Longrightarrow> keeps J m) \<Longrightarrow> (\<And>a. x = Some a \<Longrightarrow> keeps J (k a)) \<Longrightarrow>
     keeps J (case x of None \<Rightarrow> m | Some a \<Rightarrow> k a)"
  by (cases x) simp_all

locale db_invariant =
  fixes I :: "db \<Rightarrow> seqs \<Rightarrow> bool"
  assumes seq_mono: "seq_le q q' \<Longrightarrow> I d q \<Longrightarrow> I d q'"
begin

lemma stmt_keepsD:
  assumes "stmt_keeps I st" and "I d q" and "st now d q = (r, q')"
  shows "seq_le q q'" and "r = Inr (d', x) \<Longrightarrow> I d' q'"
proof -
  from assms have "seq_le q q' \<and> (case r of Inl e \<Rightarrow> True | Inr (d', x) \<Rightarrow> I d' q')"
    unfolding stmt_keeps_def by (metis (no_types, lifting) case_prod_conv)
  then show "seq_le q q'" and "r = Inr (d', x) \<Longrightarrow> I d' q'" by simp_all
qed

lemma keeps_pg_run:
  assumes "stmt_keeps I st" and "sess_inv I s"
  shows "sess_inv I (snd (pg_run P r st s))"
proof (cases r)
  case Pool
  obtain x q where x: "st (clock_at P (calls s)) (committed s) (seqs_of s) = (x, q)" by fastforce
  with assms have "seq_le (seqs_of s) q"
    by (auto simp: sess_inv_def intro: stmt_keepsD)
  moreover have "I d q" if "x = Inr (d, y)" for d y
    using stmt_keepsD(2) [OF assms(1) _ x that] assms(2) by (simp add: sess_inv_def)
  ultimately show ?thesis
    using assms(2) Pool x
    by (auto simp: pg_run.simps sess_inv_def Let_def seq_mono split: fault.splits option.splits sum.splits)
next
  case Tx
  show ?thesis
  proof (cases "txn s")
    case None
    with Tx assms(2) show ?thesis by (simp add: pg_run.simps sess_inv_def Let_def)
  next
    case (Some t)
    obtain x q where x: "st (began t) (work t) (seqs_of s) = (x, q)" by fastforce
    with Some assms have "seq_le (seqs_of s) q"
      by (auto simp: sess_inv_def intro: stmt_keepsD)
    moreover have "I d q" if "x = Inr (d, y)" for d y
      using stmt_keepsD(2) [OF assms(1) _ x that] Some assms(2) by (simp add: sess_inv_def)
    ultimately show ?thesis
      using assms(2) Tx Some x
      by (auto simp: pg_run.simps sess_inv_def Let_def seq_mono split: fault.splits sum.splits)
  qed
qed

lemma keeps_reply:
  assumes "stmt_keeps I st"
  shows "keeps (sess_inv I) (reply g P r st)"
  unfolding keeps_def reply_def
proof (intro allI impI)
  fix s assume "sess_inv I s"
  with assms have "sess_inv I (snd (pg_run P r st s))" by (rule keeps_pg_run)
  then show "sess_inv I (snd (case pg_run P r st s of (x, s1) \<Rightarrow> (g s x, s1)))"
    by (cases "pg_run P r st s") simp
qed

lemma keeps_Exec: "stmt_keeps I st \<Longrightarrow> keeps (sess_inv I) (Exec P r st)"
  by (simp add: Exec_reply keeps_reply)

lemma keeps_QueryOne: "stmt_keeps I st \<Longrightarrow> keeps (sess_inv I) (QueryOne P r st)"
  by (simp add: QueryOne_reply keeps_reply)

lemma keeps_Query: "stmt_keeps I st \<Longrightarrow> keeps (sess_inv I) (Query P r st cb c)"
  by (simp add: Query_reply keeps_reply)

lemma keeps_Begin: "keeps (sess_inv I) (Begin P opts)"
  by (auto simp: keeps_def Begin_def Let_def sess_inv_def split: fault.splits option.splits)

lemma keeps_Commit: "keeps (sess_inv I) (Commit P)"
  by (auto simp: keeps_def Commit_def Let_def sess_inv_def split: fault.splits option.splits)

lemma keeps_Rollback: "keeps (sess_inv I) (Rollback P)"
  by (auto simp: keeps_def Rollback_def Let_def sess_inv_def split: fault.splits option.splits)

lemma keeps_defer_Rollback: "keeps (sess_inv I) m \<Longrightarrow> keeps (sess_inv I) (defer_Rollback P m)"
  using keeps_Rollback unfolding keeps_def defer_Rollback_def
  by (auto split: prod.splits) (metis snd_conv)

lemma keeps_with_tx: "keeps (sess_inv I) body \<Longrightarrow> keeps (sess_inv I) (with_tx P opts w body)"
  unfolding with_tx_def by (intro keeps_check keeps_Begin keeps_defer_Rollback)

lemma stmt_keeps_select: "stmt_keeps I (select_stmt f)"
  by (simp add: stmt_keeps_def select_stmt_def)

lemma stmt_keeps_modify:
  assumes "\<And>d q d' x. I d q \<Longrightarrow> f d = Inr (d', x) \<Longrightarrow> I d' q"
  shows "stmt_keeps I (modify_stmt f)"
  using assms by (auto simp: stmt_keeps_def modify_stmt_def split: sum.splits)

lemma stmt_keeps_int4: "stmt_keeps I st \<Longrightarrow> stmt_keeps I (int4 xs st)"
  by (auto simp: stmt_keeps_def int4_def)

lemmas keeps_intros = keeps_ret keeps_fail keeps_panic keeps_Exec keeps_QueryOne keeps_Query keeps_Begin
  keeps_Commit keeps_with_tx keeps_check keeps_if keeps_option

end

lemma serial_ok_mono: "serial_ok f v rows \<Longrightarrow> v \<le> v' \<Longrightarrow> serial_ok f v' rows"
  by (force simp: serial_ok_def)

interpretation schema: db_invariant schema_ok
proof
  fix q q' :: seqs and d
  assume "seq_le q q'" and "schema_ok d q"
  then show "schema_ok d q'"
    by (auto simp: schema_ok_def catalog_ok_def media_ok_def tasks_ok_def seq_le_def
        intro: serial_ok_mono order_trans)
qed

text \<open>
  The invariant of the whole system adds what only the services promise. Between the inserts of
  one transaction it may be broken; every other statement keeps it.
\<close>

definition good :: "db \<Rightarrow> seqs \<Rightarrow> bool" where
  "good d q = (schema_ok d q \<and> details_ok d)"

interpretation good: db_invariant good
  by unfold_locales (auto simp: good_def intro: schema.seq_mono)

lemma good_empty: "good empty_db initial_seqs"
  unfolding good_def by (rule conjI [OF schema_ok_empty]) (simp add: details_ok_def empty_db_def)

section \<open>Equations of a reliable session\<close>

text \<open>
  \<^verbatim>\<open>in_tx s lvl t0 n d q\<close> is the session \<open>s\<close> inside a transaction begun at time \<open>t0\<close> whose tables are
  \<open>d\<close>, after \<open>n\<close> driver calls; a reliable statement moves from one such session to the next.
  \<^verbatim>\<open>outcome\<close> is what a caller and the other clients see of a program: its result, the committed
  tables and the sequences.
\<close>

definition in_tx :: "sess \<Rightarrow> isolation option \<Rightarrow> int \<Rightarrow> nat \<Rightarrow> db \<Rightarrow> seqs \<Rightarrow> sess" where
  "in_tx s lvl t0 n d q =
     \<lparr>committed = committed s, seqs_of = q,
      txn = Some \<lparr>work = d, aborted = False, began = t0, iso = lvl\<rparr>, calls = n,
      renames = renames s\<rparr>"

definition outcome :: "'a prog \<Rightarrow> sess \<Rightarrow> 'a result \<times> db \<times> seqs" where
  "outcome m s = (fst (m s), committed (snd (m s)), seqs_of (snd (m s)))"

lemma outcome_ret [wp_rules]: "outcome (ret a) s = (Ok a, committed s, seqs_of s)"
  by (simp add: outcome_def ret_def)

lemma outcome_fail [wp_rules]: "outcome (fail f e) s = (fail_with f e, committed s, seqs_of s)"
  by (simp add: outcome_def fail_def)

lemma outcome_panic [wp_rules]: "outcome (panic e) s = (Panic e, committed s, seqs_of s)"
  by (simp add: outcome_def panic_def)

lemma check_ret [wp_rules]: "check (ret a) w k = k a"
  by (rule ext) (simp add: check_def ret_def)

lemma check_assoc [wp_rules]: "check (check m w k) w' k' = check m (\<lambda>e. w' (w e)) (\<lambda>a. check (k a) w' k')"
  by (rule ext) (simp add: check_def split: prod.splits result.splits)

lemma check_if [wp_rules]: "check (if b then m else n) w k = (if b then check m w k else check n w k)"
  by simp

lemma check_option [wp_rules]:
  "check (case x of None \<Rightarrow> m | Some a \<Rightarrow> f a) w k =
     (case x of None \<Rightarrow> check m w k | Some a \<Rightarrow> check (f a) w k)"
  by (cases x) simp_all

lemma outcome_if [wp_rules]: "outcome (if b then m else n) s = (if b then outcome m s else outcome n s)"
  by simp

lemma outcome_check_fail [wp_rules]:
  "outcome (check (fail f e) w k) s =
     ((case fail_with f e :: unit result of
         Err x \<Rightarrow> Err (w x) | Panic p \<Rightarrow> Panic p | Ok _ \<Rightarrow> Err (w e)), committed s, seqs_of s)"
  by (auto simp: outcome_def check_def fail_def fail_with_def split: result.splits option.splits)

lemma in_tx_simps [simp]:
  "committed (in_tx s lvl t0 n d q) = committed s"
  "seqs_of (in_tx s lvl t0 n d q) = q"
  "calls (in_tx s lvl t0 n d q) = n"
  by (simp_all add: in_tx_def)

lemma handleError_simps [simp]:
  "as_PgError e \<noteq> Some ''40001'' \<Longrightarrow> handleError (Some e) f = f (Some e)"
  by (auto simp: handleError_def split: option.splits)

lemma pg_error_codes [simp]:
  "as_PgError check_violation = Some ''23514''" "as_HttpError check_violation = None"
  "as_PgError unique_violation = Some ''23505''" "as_HttpError unique_violation = None"
  "as_PgError foreign_key_violation = Some ''23503''" "as_HttpError foreign_key_violation = None"
  "as_PgError sequence_exhausted = Some ''2200H''" "as_HttpError sequence_exhausted = None"
  "as_PgError invalid_json = Some ''22P02''" "as_HttpError invalid_json = None"
  "as_PgError int4_range = None" "as_HttpError int4_range = None"
  by (simp_all add: pg_errors int4_range_def)

text \<open>The result of an error that a statement reports: late or through handleError.\<close>

definition err_outcome :: "(goerr \<Rightarrow> goerr) \<Rightarrow> bool \<Rightarrow> goerr \<Rightarrow> 'b result" where
  "err_outcome w late e =
     (if late then Err (w e)
      else (case fail_with (\<lambda>err. handleError err InternalError) e :: unit result of
              Err x \<Rightarrow> Err (w x) | Panic p \<Rightarrow> Panic p | Ok _ \<Rightarrow> Err (w e)))"

lemma err_outcome_plain [simp]:
  assumes "as_HttpError e = None" and "as_PgError e \<noteq> Some ''40001''"
  shows "err_outcome w late e = Err (w (if late then e else HttpError ProblemInternalError 500 e))"
  using assms
  by (auto simp: err_outcome_def fail_with_def handleError_def InternalError_def split: option.splits)

lemma err_outcome_not_Ok: "\<not> is_Ok (err_outcome w late e)"
  by (auto simp: err_outcome_def split: result.splits)

lemma pg_run_in_tx:
  "pg_run (reliable P) Tx st (in_tx s lvl t0 n d q) =
     (case st t0 d q of
        (Inl e, q') \<Rightarrow>
          (Inl e, (in_tx s lvl t0 (Suc n) d q')\<lparr>txn := Some \<lparr>work = d, aborted = True, began = t0, iso = lvl\<rparr>\<rparr>)
      | (Inr (d', x), q') \<Rightarrow> (Inr x, in_tx s lvl t0 (Suc n) d' q'))"
  by (simp add: pg_run.simps in_tx_def Let_def split: prod.splits sum.splits)

lemma outcome_Exec_tx [wp_rules]:
  "outcome (check (Exec (reliable P) Tx st) w k) (in_tx s lvl t0 n d q) =
     (case st t0 d q of
        (Inl e, q') \<Rightarrow> (err_outcome w False e, committed s, q')
      | (Inr (d', x), q') \<Rightarrow> outcome (k x) (in_tx s lvl t0 (Suc n) d' q'))"
  by (auto simp: outcome_def check_def Exec_def pg_run_in_tx driver_result_def err_outcome_def
      fail_with_def split: prod.splits sum.splits result.splits option.splits)

lemma outcome_QueryOne_tx [wp_rules]:
  "outcome (check (QueryOne (reliable P) Tx st) w k) (in_tx s lvl t0 n d q) =
     (case st t0 d q of
        (Inl e, q') \<Rightarrow> (err_outcome w (late_at P n) e, committed s, q')
      | (Inr (d', rows), q') \<Rightarrow>
          (case rows of
             [x] \<Rightarrow> outcome (k x) (in_tx s lvl t0 (Suc n) d' q')
           | [] \<Rightarrow> (Err (w (HttpError ProblemNotFound 404 (Sentinel ErrNotFound))), committed s, q')
           | _ \<Rightarrow> (Err (w (HttpError ProblemInternalError 500 (Sentinel ErrMultipleRecords))),
                   committed s, q')))"
  by (auto simp: outcome_def check_def QueryOne_reply reply_def pg_run_in_tx rows_result_def
      one_row_def err_outcome_def fail_with_def
      split: prod.splits sum.splits result.splits option.splits list.splits)

lemma outcome_Query_tx [wp_rules]:
  "outcome (check (Query (reliable P) Tx st cb c) w k) (in_tx s lvl t0 n d q) =
     (case st t0 d q of
        (Inl e, q') \<Rightarrow> (err_outcome w (late_at P n) e, committed s, q')
      | (Inr (d', rows), q') \<Rightarrow> outcome (k (query_loop cb rows c)) (in_tx s lvl t0 (Suc n) d' q'))"
  by (auto simp: outcome_def check_def Query_reply reply_def pg_run_in_tx rows_result_def
      err_outcome_def fail_with_def split: prod.splits sum.splits result.splits option.splits)

lemma outcome_Commit [wp_rules]:
  "outcome (check (Commit (reliable P)) w (\<lambda>_. ret a)) (in_tx s lvl t0 n d q) = (Ok a, d, q)"
  by (simp add: outcome_def check_def Commit_def in_tx_def ret_def Let_def)

lemma outcome_with_tx [wp_rules]:
  "outcome (with_tx (reliable P) opts w body) s =
     outcome body (in_tx s (fold (\<lambda>opt _. Some opt) opts None) (clock_at P (calls s)) (Suc (calls s))
                    (committed s) (seqs_of s))"
proof -
  let ?s = "in_tx s (fold (\<lambda>opt _. Some opt) opts None) (clock_at P (calls s)) (Suc (calls s))
      (committed s) (seqs_of s)"
  have "Begin (reliable P) opts s = (Ok (), ?s)"
    by (simp add: Begin_def Let_def in_tx_def)
  moreover obtain r s1 where "body ?s = (r, s1)" by fastforce
  ultimately show ?thesis
    by (auto simp: outcome_def with_tx_def check_def defer_Rollback_def Rollback_def Let_def
        split: option.splits)
qed

text \<open>Statements on the pool commit at once.\<close>

lemma outcome_Exec_pool [wp_rules]:
  "outcome (check (Exec (reliable P) Pool st) w k) s =
     (case st (clock_at P (calls s)) (committed s) (seqs_of s) of
        (Inl e, q') \<Rightarrow> (err_outcome w False e, committed s, q')
      | (Inr (d', x), q') \<Rightarrow>
          outcome (k x) (s\<lparr>calls := Suc (calls s), committed := d', seqs_of := q'\<rparr>))"
  by (auto simp: outcome_def check_def Exec_def pg_run.simps Let_def driver_result_def
      err_outcome_def fail_with_def split: prod.splits sum.splits result.splits option.splits)

lemma outcome_QueryOne_pool [wp_rules]:
  "outcome (check (QueryOne (reliable P) Pool st) w k) s =
     (case st (clock_at P (calls s)) (committed s) (seqs_of s) of
        (Inl e, q') \<Rightarrow> (err_outcome w (late_at P (calls s)) e, committed s, q')
      | (Inr (d', rows), q') \<Rightarrow>
          (let s' = s\<lparr>calls := Suc (calls s), committed := d', seqs_of := q'\<rparr> in
           case rows of
             [x] \<Rightarrow> outcome (k x) s'
           | [] \<Rightarrow> (Err (w (HttpError ProblemNotFound 404 (Sentinel ErrNotFound))), d', q')
           | _ \<Rightarrow> (Err (w (HttpError ProblemInternalError 500 (Sentinel ErrMultipleRecords))), d', q')))"
  by (auto simp: outcome_def check_def QueryOne_reply reply_def pg_run.simps Let_def rows_result_def
      one_row_def err_outcome_def fail_with_def
      split: prod.splits sum.splits result.splits option.splits list.splits)

lemma outcome_Query_pool [wp_rules]:
  "outcome (check (Query (reliable P) Pool st cb c) w k) s =
     (case st (clock_at P (calls s)) (committed s) (seqs_of s) of
        (Inl e, q') \<Rightarrow> (err_outcome w (late_at P (calls s)) e, committed s, q')
      | (Inr (d', rows), q') \<Rightarrow>
          outcome (k (query_loop cb rows c)) (s\<lparr>calls := Suc (calls s), committed := d', seqs_of := q'\<rparr>))"
  by (auto simp: outcome_def check_def Query_reply reply_def pg_run.simps Let_def rows_result_def
      err_outcome_def fail_with_def split: prod.splits sum.splits result.splits option.splits)

lemma outcome_pure [wp_rules]:
  "outcome (check (\<lambda>s. (r, s)) w k) s =
     (case r of
        Ok a \<Rightarrow> outcome (k a) s
      | Err e \<Rightarrow> (Err (w e), committed s, seqs_of s)
      | Panic p \<Rightarrow> (Panic p, committed s, seqs_of s))"
  by (simp add: outcome_def check_def split: result.splits)

text \<open>A program whose outcome is known can be followed by a pure step or by another program.\<close>

lemma outcome_check_ret:
  "outcome (check m w (\<lambda>a. ret (f a))) s =
     (case outcome m s of
        (Ok a, d, q) \<Rightarrow> (Ok (f a), d, q)
      | (Err e, d, q) \<Rightarrow> (Err (w e), d, q)
      | (Panic p, d, q) \<Rightarrow> (Panic p, d, q))"
  by (simp add: outcome_def check_def ret_def split: prod.splits result.splits)

lemma outcome_OkE:
  assumes "outcome m s = (Ok a, d, q)"
  obtains s1 where "committed s1 = d" and "seqs_of s1 = q" and "m s = (Ok a, s1)"
  using assms by (cases "m s") (auto simp: outcome_def)

lemma outcome_check_Ok: "m s = (Ok a, s1) \<Longrightarrow> outcome (check m w k) s = outcome (k a) s1"
  by (simp add: outcome_def check_def)

text \<open>Two requests in a row: the second starts from the tables the first committed.\<close>

lemma outcome_bind:
  assumes "outcome m s = (Ok a, d, q)"
    and "\<And>s1. committed s1 = d \<Longrightarrow> seqs_of s1 = q \<Longrightarrow> outcome (k a) s1 = r"
  shows "outcome (check m w k) s = r"
proof -
  obtain s1 where "committed s1 = d" "seqs_of s1 = q" "m s = (Ok a, s1)"
    using assms(1) by (rule outcome_OkE)
  with assms(2) show ?thesis by (simp add: outcome_check_Ok [where m = m])
qed

text \<open>From a reliable run to every run.\<close>

lemma atomic_outcome:
  assumes "atomic P m"
  shows "outcome (m P) s = outcome (m (reliable P)) s \<or>
    \<not> is_Ok (fst (m P s)) \<and>
      (committed (snd (m P s)) = committed s \<or>
       committed (snd (m P s)) = fst (snd (outcome (m (reliable P)) s)))"
  using assms by (cases rule: atomic_cases [where s = s]) (simp_all add: outcome_def)

lemma atomic_committed:
  assumes "atomic P m" and "J (committed s)" and "J (fst (snd (outcome (m (reliable P)) s)))"
  shows "J (committed (snd (m P s)))"
  using atomic_outcome [OF assms(1), of s] assms(2,3) by (auto simp: outcome_def)

section \<open>Sessions at rest\<close>

text \<open>Between two requests no transaction is open; every handler leaves its session that way.\<close>

abbreviation idle :: "'a prog \<Rightarrow> bool" where
  "idle m \<equiv> keeps (\<lambda>s. txn s = None) m"

lemma idle_reply_Pool: "idle (reply g P Pool st)"
  by (auto simp: keeps_def reply_def pg_run.simps Let_def split: prod.splits fault.splits sum.splits)

lemma idle_Exec: "idle (Exec P Pool st)"
  by (simp add: Exec_reply idle_reply_Pool)

lemma idle_QueryOne: "idle (QueryOne P Pool st)"
  by (simp add: QueryOne_reply idle_reply_Pool)

lemma idle_Query: "idle (Query P Pool st cb c)"
  by (simp add: Query_reply idle_reply_Pool)

lemma idle_with_tx: "idle (with_tx P opts w body)"
proof -
  have "txn (snd (Rollback P s)) = None" for s
    by (auto simp: Rollback_def Let_def split: option.splits fault.splits)
  then have "txn (snd (defer_Rollback P body s)) = None" for s
    by (simp add: defer_Rollback_def split_def)
  then show ?thesis
    by (auto simp: keeps_def with_tx_def check_def Begin_def Let_def driver_result_def fail_with_def
        split: fault.splits result.splits option.splits)
qed

lemmas idle_intros = keeps_ret keeps_fail keeps_panic idle_Exec idle_QueryOne idle_Query idle_with_tx
  keeps_if keeps_option keeps_check

text \<open>\<^verbatim>\<open>at_rest\<close>: no transaction is open and the committed tables satisfy the system's invariant.\<close>

definition at_rest :: "sess \<Rightarrow> bool" where
  "at_rest s = (txn s = None \<and> good (committed s) (seqs_of s))"

lemma at_restI:
  assumes "idle m" and "keeps (sess_inv good) m" and "at_rest s"
  shows "at_rest (snd (m s))"
proof -
  have "sess_inv good s" using assms(3) by (simp add: at_rest_def sess_inv_def)
  then have "sess_inv good (snd (m s))" using assms(2) by (simp add: keeps_def)
  moreover have "txn (snd (m s)) = None" using assms(1,3) by (simp add: keeps_def at_rest_def)
  ultimately show ?thesis by (simp add: at_rest_def sess_inv_def)
qed

end
