(* ===== verification/VM_Page.thy ===== *)
theory VM_Page
  imports VM_Token VM_Inv "HOL-Library.List_Lexorder" "HOL-Library.Char_ord"
begin

text \<open>
  Package vmpage (src/internal/lib/vmpage): the page of a table listing (list.go) and of a sorted
  list of strings (list_strings.go).

  The SQL text of a \<^verbatim>\<open>ListQuery\<close> is checked for its two parameters by the code, and kept; what the
  text means is a statement that depends on the two parameter values. The locale \<^verbatim>\<open>paged_query\<close> is
  the contract between \<^verbatim>\<open>ListPtr\<close> and a service: the statement selects, in key order, the first
  rows whose key is above the last seen one. The locale \<^verbatim>\<open>paged_listing\<close> is the contract of a listing
  towards its clients; in it is proved once that following the tokens visits every row. Each listing
  of the services interprets them.
\<close>

section \<open>list.go\<close>

record ListQuery =
  Sql :: string
  Want :: "uint32 option"
  Default :: uint32
  Max :: uint32
  PageToken :: "string option"

definition bad_list_query :: "string \<Rightarrow> goerr" where
  "bad_list_query msg = wrapf_before (Sentinel ErrPanicBadListQuery) msg"

definition limit :: "ListQuery \<Rightarrow> uint32 result" where
  "limit lq =
     (if Max lq = 0 then Panic (bad_list_query '': Max is zero'')
      else if Default lq = 0 then Panic (bad_list_query '': Default is zero'')
      else (case Want lq of Some n \<Rightarrow> Ok (min n (Max lq)) | None \<Rightarrow> Ok (Default lq)))"

fun contains :: "string \<Rightarrow> string \<Rightarrow> bool" where
  "contains [] sub = (sub = [])"
| "contains (c # s) sub = (take (length sub) (c # s) = sub \<or> contains s sub)"

text \<open>The parameters @limit and @lastSeenId of the statement.\<close>

definition statement :: "ListQuery \<Rightarrow> (uint32 \<times> uint32) result" where
  "statement lq =
     (if \<not> contains (Sql lq) ''@limit'' then Panic (bad_list_query '': sql missing @limit'')
      else if \<not> contains (Sql lq) ''@lastSeenId''
        then Panic (bad_list_query '': sql missing @lastSeenId'')
      else
        (case toLastSeenId (PageToken lq) of
           Ok lastSeenId \<Rightarrow>
             (case limit lq of
                Ok n \<Rightarrow> Ok (n + 1, lastSeenId)
              | Err e \<Rightarrow> Err e
              | Panic p \<Rightarrow> Panic p)
         | Err e \<Rightarrow> Err e
         | Panic p \<Rightarrow> Panic p))"

text \<open>
  The callback given to QueryPtr, on its captured variables \<^verbatim>\<open>count\<close>, \<^verbatim>\<open>lastSeenId\<close> and those of
  the caller's callback.
\<close>

definition list_step ::
  "uint32 \<Rightarrow> ('r \<Rightarrow> 'c \<Rightarrow> uint32 \<times> 'c) \<Rightarrow> 'r \<Rightarrow> uint32 \<times> uint32 \<times> 'c \<Rightarrow> bool \<times> uint32 \<times> uint32 \<times> 'c" where
  "list_step n cb record v =
     (case v of (count, lastSeenId, c) \<Rightarrow>
        if count + 1 \<le> n then (case cb record c of (seen, c') \<Rightarrow> (True, count + 1, seen, c'))
        else (False, count + 1, lastSeenId, c))"

definition ListPtr ::
  "pg \<Rightarrow> runner \<Rightarrow> ListQuery \<Rightarrow> (uint32 \<Rightarrow> uint32 \<Rightarrow> 'r list stmt) \<Rightarrow>
   ('r \<Rightarrow> 'c \<Rightarrow> uint32 \<times> 'c) \<Rightarrow> 'c \<Rightarrow> (string option \<times> 'c) prog" where
  "ListPtr P r query sql cb c =
     bind (\<lambda>s. (statement query, s)) (\<lambda>(lim, last).
     bind (\<lambda>s. (limit query, s)) (\<lambda>n.
     bind (QueryPtr P r (sql last lim) (list_step n cb) (0, 0, c)) (\<lambda>(count, lastSeenId, c').
       ret (if n < count then Some (fromLastSeenId lastSeenId) else None, c'))))"

section \<open>list\_strings.go\<close>

record Limit =
  l_Want :: "uint32 option"
  l_Default :: uint32
  l_Max :: uint32

definition bad_limit :: "string \<Rightarrow> goerr" where
  "bad_limit msg = wrapf_before (Sentinel ErrPanicBadLimit) msg"

definition Limit_Limit :: "Limit \<Rightarrow> uint32 result" where
  "Limit_Limit l =
     (case l_Want l of
        Some n \<Rightarrow>
          if l_Max l = 0 then Panic (bad_limit '': Max is zero'') else Ok (min n (l_Max l))
      | None \<Rightarrow>
          if l_Default l = 0 then Panic (bad_limit '': Default is zero'') else Ok (l_Default l))"

fun strings_loop :: "uint32 \<Rightarrow> string \<Rightarrow> string list \<Rightarrow> string list \<Rightarrow> string list" where
  "strings_loop n lastSeen [] out = out"
| "strings_loop n lastSeen (s # ss) out =
     (if s \<le> lastSeen then strings_loop n lastSeen ss out
      else if n \<le> of_nat (length (out @ [s])) then out @ [s]
      else strings_loop n lastSeen ss (out @ [s]))"

definition ListFromStrings ::
  "string list \<Rightarrow> Limit \<Rightarrow> string option \<Rightarrow> (string list \<times> string option) result" where
  "ListFromStrings strings l pageToken =
     (case Limit_Limit l of
        Ok n \<Rightarrow>
          (case toLastSeenString pageToken of
             Ok lastSeen \<Rightarrow>
               (let out = strings_loop n lastSeen (sort strings) [] in
                Ok (out,
                    if of_nat (length out) = n \<and> 0 < length out
                    then Some (fromLastSeenString (last out)) else None))
           | Err e \<Rightarrow> Err e
           | Panic p \<Rightarrow> Panic p)
      | Err e \<Rightarrow> Err e
      | Panic p \<Rightarrow> Panic p)"

section \<open>The page of a table\<close>

definition rows_above :: "('r \<Rightarrow> 'k :: linorder) \<Rightarrow> 'k \<Rightarrow> 'r list \<Rightarrow> 'r list" where
  "rows_above key lastSeen rows = sort_key key (filter (\<lambda>r. lastSeen < key r) rows)"

lemma list_step_loop:
  assumes "\<And>r es. cb r es = (key r, es @ [conv r])"
    and "k \<le> unat n" and "k + length rows \<le> Suc (unat n)" and small: "Suc (unat n) < 2 ^ 32"
  shows "query_loop (list_step n cb) rows (of_nat k, v, es) =
    (of_nat (k + length rows),
     (if take (unat n - k) rows = [] then v else key (last (take (unat n - k) rows))),
     es @ map conv (take (unat n - k) rows))"
  using assms(2-3)
proof (induction rows arbitrary: k v es)
  case (Cons r rows)
  show ?case
  proof (cases "k < unat n")
    case True
    then have "of_nat k + 1 \<le> n"
      using small by (simp add: word_le_nat_alt unat_of_nat unat_word_ariths take_bit_eq_mod)
    moreover have "unat n - k = Suc (unat n - Suc k)" using True by simp
    ultimately show ?thesis
      using Cons.IH [of "Suc k" "key r" "es @ [conv r]"] Cons.prems True
      by (simp add: list_step_def assms(1) add.commute)
  next
    case False
    with Cons.prems have "k = unat n" and "rows = []" by auto
    moreover have "\<not> n + 1 \<le> n"
      using small by (simp add: word_le_nat_alt unat_word_ariths)
    ultimately show ?thesis by (simp add: list_step_def add.commute)
  qed
qed simp

lemma last_take_in_set: "0 < n \<Longrightarrow> xs \<noteq> [] \<Longrightarrow> last (take n xs) \<in> set xs"
  by (rule in_set_takeD, rule last_in_set) simp

lemma strict_sorted_above:
  fixes key :: "'r \<Rightarrow> 'k :: linorder"
  assumes "sorted_wrt (\<lambda>a b. key a < key b) rs" and "0 < n" and "n \<le> length rs"
  shows "filter (\<lambda>r. key (last (take n rs)) < key r) rs = drop n rs"
proof -
  define xs x ys where parts: "xs = take (n - 1) rs" "x = rs ! (n - 1)" "ys = drop n rs"
  have rs: "rs = xs @ x # ys" and n: "n = Suc (length xs)"
    using assms(2,3) id_take_nth_drop [of "n - 1" rs] by (simp_all add: parts)
  with assms(1) have "filter (\<lambda>r. key x < key r) xs = []" "filter (\<lambda>r. key x < key r) ys = ys"
    by (auto simp: sorted_wrt_append filter_empty_conv filter_id_conv not_less less_imp_le)
  then show ?thesis by (simp add: rs n)
qed

lemma rows_above_sorted:
  assumes "keyed key rows"
  shows "sorted_wrt (\<lambda>a b. key a < key b) (rows_above key v rows)"
proof -
  have "sorted (map key (rows_above key v rows))" by (simp add: rows_above_def)
  moreover have "distinct (map key (rows_above key v rows))"
    using keyed_filter [OF assms, of "\<lambda>r. v < key r"]
    by (simp add: rows_above_def keyed_def distinct_map)
  ultimately show ?thesis
    by (metis strict_sorted_iff sorted_wrt_map)
qed

lemma rows_above_next:
  assumes "keyed key rows" and "0 < n" and "n \<le> length (rows_above key v rows)"
  shows "rows_above key (key (last (take n (rows_above key v rows)))) rows = drop n (rows_above key v rows)"
proof -
  let ?rs = "rows_above key v rows" and ?k = "key (last (take n (rows_above key v rows)))"
  have "last (take n ?rs) \<in> set ?rs"
    using assms(2,3) by (intro last_take_in_set) auto
  then have "v < ?k" by (auto simp: rows_above_def)
  then have "filter (\<lambda>r. ?k < key r) (filter (\<lambda>r. v < key r) rows) = filter (\<lambda>r. ?k < key r) rows"
    by (auto intro!: filter_cong)
  then have "rows_above key ?k rows = filter (\<lambda>r. ?k < key r) ?rs"
    by (simp add: rows_above_def filter_sort)
  also have "\<dots> = drop n ?rs"
    using strict_sorted_above [OF rows_above_sorted [OF assms(1)] assms(2)] assms(3) by simp
  finally show ?thesis .
qed

text \<open>A client that follows the tokens, for at most \<^verbatim>\<open>fuel\<close> pages.\<close>

fun walk :: "nat \<Rightarrow> (string option \<Rightarrow> ('e list \<times> string option) prog) \<Rightarrow> string option \<Rightarrow> 'e list prog" where
  "walk 0 list_page tok = fail InternalError (New ''too many pages'')"
| "walk (Suc fuel) list_page tok =
     bind (list_page tok) (\<lambda>(entries, next).
       case next of
         None \<Rightarrow> ret entries
       | Some t \<Rightarrow> bind (walk fuel list_page (Some t)) (\<lambda>more. ret (entries @ more)))"

text \<open>The page size a request asks for, as every listing of the services bounds it.\<close>

definition page_size :: "uint32 option \<Rightarrow> uint32" where
  "page_size want = (case want of None \<Rightarrow> 50 | Some n \<Rightarrow> min n 100)"

lemma page_size_bound: "Suc (unat (page_size want)) < 2 ^ 32"
proof -
  have "page_size want \<le> 100" by (auto simp: page_size_def split: option.splits)
  then show ?thesis by (simp add: word_le_nat_alt)
qed

lemma page_size_pos: "want \<noteq> Some 0 \<Longrightarrow> 0 < unat (page_size want)"
  by (auto simp: page_size_def min_def unat_gt_0 split: option.splits)

definition next_token :: "('r \<Rightarrow> uint32) \<Rightarrow> uint32 \<Rightarrow> 'r list \<Rightarrow> string option" where
  "next_token key n rs =
     (if unat n < length rs
      then Some (fromLastSeenId (if n = 0 then 0 else key (last (take (unat n) rs))))
      else None)"

text \<open>
  The contract of a query: its text has both parameters, and it selects in key order the first rows
  above the last seen key. Under it, \<^verbatim>\<open>ListPtr\<close> gives the page on the pool and in a transaction.
\<close>

locale paged_query =
  fixes sql_text :: string
    and tbl :: "db \<Rightarrow> 'r list"
    and key :: "'r \<Rightarrow> uint32"
    and sql :: "uint32 \<Rightarrow> uint32 \<Rightarrow> 'r list stmt"
    and cb :: "'r \<Rightarrow> 'e list \<Rightarrow> uint32 \<times> 'e list"
    and conv :: "'r \<Rightarrow> 'e"
  assumes text_ok: "contains sql_text ''@limit''" "contains sql_text ''@lastSeenId''"
    and sql_selects: "sql v lim = int4 [v] (select_stmt (\<lambda>d. take (unat lim) (rows_above key v (tbl d))))"
    and cb_collects: "cb r es = (key r, es @ [conv r])"
begin

abbreviation query :: "uint32 option \<Rightarrow> string option \<Rightarrow> ListQuery" where
  "query want tok \<equiv> \<lparr>Sql = sql_text, Want = want, Default = 50, Max = 100, PageToken = tok\<rparr>"

lemma query_limit: "limit (query want tok) = Ok (page_size want)"
  by (simp add: limit_def page_size_def split: option.splits)

lemma query_statement: "toLastSeenId tok = Ok v \<Longrightarrow> statement (query want tok) = Ok (page_size want + 1, v)"
  by (simp add: statement_def text_ok query_limit)

lemma page_loop:
  assumes "n = page_size want" and "page = take (unat (n + 1)) rs"
  shows "query_loop (list_step n cb) page (0, 0, []) =
      (of_nat (length page), (if take (unat n) rs = [] then 0 else key (last (take (unat n) rs))),
       map conv (take (unat n) rs))"
    and "n < of_nat (length page) \<longleftrightarrow> unat n < length rs"
proof -
  have bound: "Suc (unat n) < 2 ^ 32" using page_size_bound [of want] assms(1) by simp
  then have page: "page = take (Suc (unat n)) rs" using assms(2) by (simp add: unat_word_ariths)
  show "query_loop (list_step n cb) page (0, 0, []) =
      (of_nat (length page), (if take (unat n) rs = [] then 0 else key (last (take (unat n) rs))),
       map conv (take (unat n) rs))"
    using list_step_loop [where cb = cb and key = key and conv = conv and k = 0 and n = n and rows = page
        and v = 0 and es = "[]", OF cb_collects _ _ bound]
    by (simp add: page min_def)
  show "n < of_nat (length page) \<longleftrightarrow> unat n < length rs"
    using bound by (simp add: page word_less_nat_alt unat_of_nat take_bit_eq_mod min_def)
qed

lemma ListPtr_pool:
  assumes "toLastSeenId tok = Ok v" and "v \<le> max_serial"
    and "n = page_size want" and "rs = rows_above key v (tbl (committed s))"
  shows "outcome (ListPtr (reliable P) Pool (query want tok) sql cb []) s =
    (Ok (next_token key n rs, map conv (take (unat n) rs)), committed s, seqs_of s)"
  using assms(2) page_loop [OF assms(3) refl, of rs] query_limit [of want tok] query_statement [OF assms(1), of want]
  by (simp add: ListPtr_def QueryPtr_Query split_def wp_rules sql_selects select_stmt_def
      next_token_def unat_eq_zero flip: assms(3,4))

lemma ListPtr_tx:
  assumes "toLastSeenId tok = Ok v" and "v \<le> max_serial"
    and "n = page_size want" and "rs = rows_above key v (tbl d)"
  shows "outcome (check (ListPtr (reliable P) Tx (query want tok) sql cb []) w k) (in_tx s lvl t0 m d q) =
    outcome (k (next_token key n rs, map conv (take (unat n) rs))) (in_tx s lvl t0 (Suc m) d q)"
  using assms(2) page_loop [OF assms(3) refl, of rs] query_limit [of want tok] query_statement [OF assms(1), of want]
  by (simp add: ListPtr_def QueryPtr_Query split_def wp_rules sql_selects select_stmt_def
      next_token_def unat_eq_zero flip: assms(3,4))

end

text \<open>
  The contract of a listing, for its clients: on consistent tables (\<^verbatim>\<open>ok\<close>) it answers the next rows in
  key order, each as the tables show it (\<^verbatim>\<open>view\<close>), and a token exactly when more follow.
\<close>

locale paged_listing =
  fixes ok :: "db \<Rightarrow> bool"
    and tbl :: "db \<Rightarrow> 'r list"
    and key :: "'r \<Rightarrow> uint32"
    and view :: "db \<Rightarrow> 'r \<Rightarrow> 'e"
    and listing :: "uint32 option \<Rightarrow> string option \<Rightarrow> ('e list \<times> string option) prog"
  assumes key_serial: "ok d \<Longrightarrow> serial_ok key max_serial (tbl d)"
    and page: "ok (committed s) \<Longrightarrow> toLastSeenId tok = Ok v \<Longrightarrow> v \<le> max_serial \<Longrightarrow>
      outcome (listing want tok) s =
        (let rs = rows_above key v (tbl (committed s)); n = page_size want in
         (Ok (map (view (committed s)) (take (unat n) rs), next_token key n rs), committed s, seqs_of s))"
begin

lemma walk_rows:
  assumes "ok (committed s)" and "want \<noteq> Some 0"
    and "toLastSeenId tok = Ok v" and "v \<le> max_serial"
    and "length (rows_above key v (tbl (committed s))) < fuel"
  shows "outcome (walk fuel (listing want) tok) s =
    (Ok (map (view (committed s)) (rows_above key v (tbl (committed s)))), committed s, seqs_of s)"
  using assms
proof (induction fuel arbitrary: s tok v)
  case (Suc fuel)
  let ?d = "committed s"
  let ?rs = "rows_above key v (tbl ?d)" and ?n = "unat (page_size want)"
  let ?k = "key (last (take ?n ?rs))"
  have n: "0 < ?n" using page_size_pos Suc.prems(2) .
  have ser: "serial_ok key max_serial (tbl ?d)" using key_serial Suc.prems(1) .
  have page1: "outcome (listing want tok) s =
      (Ok (map (view ?d) (take ?n ?rs), next_token key (page_size want) ?rs), ?d, seqs_of s)"
    using page [OF Suc.prems(1,3,4)] by (simp add: Let_def)
  show ?case
    unfolding walk.simps
  proof (rule outcome_bind [OF page1], goal_cases)
    case (1 s1)
    show ?case
    proof (cases "?n < length ?rs")
      case False
      then show ?thesis by (simp add: 1 next_token_def wp_rules)
    next
      case True
      then have "last (take ?n ?rs) \<in> set ?rs"
        using n by (intro last_take_in_set) auto
      then have "last (take ?n ?rs) \<in> set (tbl ?d)" by (auto simp: rows_above_def)
      then have k: "?k \<le> max_serial" using ser by (auto simp: serial_ok_def)
      have rest: "rows_above key ?k (tbl ?d) = drop ?n ?rs"
        using rows_above_next [OF _ n less_imp_le [OF True]] ser by (simp add: serial_ok_def)
      have "outcome (walk fuel (listing want) (Some (fromLastSeenId ?k))) s1 =
          (Ok (map (view ?d) (drop ?n ?rs)), ?d, seqs_of s)"
        using Suc.IH [of s1 "Some (fromLastSeenId ?k)" ?k] Suc.prems k n True
        by (simp add: 1 rest toLastSeenId_fromLastSeenId)
      moreover have "page_size want \<noteq> 0" using n by auto
      ultimately show ?thesis
        using True by (simp add: next_token_def outcome_check_ret flip: map_append)
    qed
  qed
qed simp

text \<open>From the first page, a client that asks for pages of one entry or more sees every row once, in key order.\<close>

lemma walk_all:
  assumes "ok (committed s)" and "want \<noteq> Some 0" and "length (tbl (committed s)) < fuel"
  shows "outcome (walk fuel (listing want) None) s =
    (Ok (map (view (committed s)) (sort_key key (tbl (committed s)))), committed s, seqs_of s)"
proof -
  have "\<forall>r\<in>set (tbl (committed s)). 0 < key r"
    using key_serial [OF assms(1)] by (auto simp: serial_ok_def)
  then have all: "rows_above key 0 (tbl (committed s)) = sort_key key (tbl (committed s))"
    by (simp add: rows_above_def filter_True)
  with assms walk_rows [of s want None 0 fuel] show ?thesis
    by (simp add: toLastSeenId_def max_serial_def)
qed

text \<open>With a page size of zero every page is empty, and its token leads back to the start.\<close>

lemma page_zero:
  assumes "ok (committed s)" and "toLastSeenId tok = Ok v" and "v \<le> max_serial"
    and "rows_above key v (tbl (committed s)) \<noteq> []"
  shows "outcome (listing (Some 0) tok) s = (Ok ([], Some (fromLastSeenId 0)), committed s, seqs_of s)"
  using page [OF assms(1-3), of "Some 0"] assms(4)
  by (simp add: Let_def next_token_def page_size_def)

text \<open>So a client that follows the tokens with that size never ends.\<close>

lemma walk_zero:
  assumes "ok (committed s)" and "tbl (committed s) \<noteq> []"
  shows "outcome (walk fuel (listing (Some 0)) None) s =
    (Err (HttpError ProblemInternalError 500 (New ''too many pages'')), committed s, seqs_of s)"
proof -
  have all: "rows_above key 0 (tbl (committed s)) \<noteq> []"
  proof
    assume "rows_above key 0 (tbl (committed s)) = []"
    then have "set (filter (\<lambda>r. 0 < key r) (tbl (committed s))) = {}"
      unfolding rows_above_def by (metis set_sort list.set(1))
    then show False
      using assms(2) key_serial [OF assms(1)] by (auto simp: serial_ok_def filter_empty_conv)
  qed
  have "toLastSeenId tok = Ok 0 \<Longrightarrow> committed s' = committed s \<Longrightarrow> seqs_of s' = seqs_of s \<Longrightarrow>
      outcome (walk fuel (listing (Some 0)) tok) s' =
      (Err (HttpError ProblemInternalError 500 (New ''too many pages'')), committed s, seqs_of s)" for tok s'
  proof (induction fuel arbitrary: tok s')
    case 0
    then show ?case by (simp add: wp_rules)
  next
    case (Suc fuel)
    have page: "outcome (listing (Some 0) tok) s' = (Ok ([], Some (fromLastSeenId 0)), committed s, seqs_of s)"
      using page_zero [of s' tok 0] Suc.prems all assms(1) by (simp add: max_serial_def)
    show ?case
      unfolding walk.simps
      by (rule outcome_bind [OF page])
        (use Suc.IH in \<open>simp add: toLastSeenId_fromLastSeenId outcome_check_ret\<close>)
  qed
  then show ?thesis by (simp add: toLastSeenId_def)
qed

end

text \<open>A listing that runs its query on the pool and answers the rows as the callback converts them.\<close>

definition consistent :: "db \<Rightarrow> bool" where
  "consistent d = (\<exists>q. schema_ok d q)"

locale paged_table = paged_query +
  fixes listing :: "pg \<Rightarrow> uint32 option \<Rightarrow> string option \<Rightarrow> ('b list \<times> string option) prog"
  assumes listing_eq: "listing P want tok =
      bind (ListPtr P Pool \<lparr>Sql = sql_text, Want = want, Default = 50, Max = 100, PageToken = tok\<rparr>
        sql cb []) (\<lambda>(next, entries). ret (entries, next))"
    and table_serial: "schema_ok d q \<Longrightarrow> serial_ok key max_serial (tbl d)"
begin

sublocale paged_listing consistent tbl key "\<lambda>_. conv" "listing (reliable P)" for P
proof
  show "consistent d \<Longrightarrow> serial_ok key max_serial (tbl d)" for d
    by (auto simp: consistent_def table_serial)
  show "toLastSeenId tok = Ok v \<Longrightarrow> v \<le> max_serial \<Longrightarrow>
      outcome (listing (reliable P) want tok) s =
        (let rs = rows_above key v (tbl (committed s)); n = page_size want in
         (Ok (map conv (take (unat n) rs), next_token key n rs), committed s, seqs_of s))" for s tok v want
    by (simp add: listing_eq split_def outcome_check_ret ListPtr_pool Let_def)
qed

end

section \<open>The page of a list of strings\<close>

lemma strings_loop_take:
  assumes "length out < max 1 (unat n)" and "length out + length ss < 2 ^ 32"
  shows "strings_loop n v ss out = out @ take (max 1 (unat n) - length out) (filter (\<lambda>s. v < s) ss)"
  using assms
proof (induction ss arbitrary: out)
  case (Cons s ss)
  have full: "n \<le> of_nat (length (out @ [s])) \<longleftrightarrow> unat n \<le> Suc (length out)"
    using Cons.prems(2) by (simp add: word_le_nat_alt unat_word_ariths unat_of_nat take_bit_eq_mod)
  show ?case
  proof (cases "v < s")
    case False
    with Cons show ?thesis by simp
  next
    case True
    then have "\<not> s \<le> v" by (simp add: not_le)
    show ?thesis
    proof (cases "unat n \<le> Suc (length out)")
      case True
      with Cons.prems(1) have "max 1 (unat n) - length out = 1" by linarith
      with True full \<open>v < s\<close> \<open>\<not> s \<le> v\<close> show ?thesis by simp
    next
      case False
      then have "max 1 (unat n) - length out = Suc (max 1 (unat n) - length (out @ [s]))" by simp
      with False full \<open>v < s\<close> \<open>\<not> s \<le> v\<close> Cons.IH [of "out @ [s]"] Cons.prems show ?thesis by simp
    qed
  qed
qed simp

lemma ListFromStrings_page:
  assumes "Limit_Limit l = Ok n" and "toLastSeenString tok = Ok v" and "length strings < 2 ^ 32"
  shows "ListFromStrings strings l tok =
    (let page = take (max 1 (unat n)) (rows_above (\<lambda>s. s) v strings) in
     Ok (page, if length page = unat n \<and> page \<noteq> [] then Some (fromLastSeenString (last page)) else None))"
proof -
  define page where "page = take (max 1 (unat n)) (rows_above (\<lambda>s. s) v strings)"
  have page: "strings_loop n v (sort strings) [] = page"
    using strings_loop_take [of "[]" n "sort strings" v] assms(3)
    by (simp add: page_def rows_above_def filter_sort)
  have "length page \<le> length (rows_above (\<lambda>s. s) v strings)" by (simp add: page_def)
  also have "\<dots> \<le> length strings" by (simp add: rows_above_def)
  finally have "of_nat (length page) = n \<longleftrightarrow> length page = unat n"
    using assms(3) by (auto simp: word_unat_eq_iff unat_of_nat take_bit_eq_mod)
  then show ?thesis
    unfolding page_def [symmetric] Let_def by (simp add: ListFromStrings_def assms(1,2) page)
qed

fun walk_strings :: "nat \<Rightarrow> string list \<Rightarrow> Limit \<Rightarrow> string option \<Rightarrow> string list option" where
  "walk_strings 0 strings l tok = None"
| "walk_strings (Suc fuel) strings l tok =
     (case ListFromStrings strings l tok of
        Ok (page, None) \<Rightarrow> Some page
      | Ok (page, Some t) \<Rightarrow> map_option (\<lambda>more. page @ more) (walk_strings fuel strings l (Some t))
      | _ \<Rightarrow> None)"

lemma walk_strings_above:
  assumes "Limit_Limit l = Ok n" and "0 < n" and "length strings < 2 ^ 32" and "distinct strings"
    and "\<forall>t\<in>set strings. to_valid_utf8 t = t"
    and "toLastSeenString tok = Ok v" and "length (rows_above (\<lambda>s. s) v strings) < fuel"
  shows "walk_strings fuel strings l tok = Some (rows_above (\<lambda>s. s) v strings)"
  using assms(6-7)
proof (induction fuel arbitrary: tok v)
  case (Suc fuel)
  let ?rs = "rows_above (\<lambda>s. s) v strings" and ?n = "unat n"
  have n: "0 < ?n" using assms(2) by (simp add: unat_gt_0)
  then have page: "ListFromStrings strings l tok =
      Ok (take ?n ?rs, if ?n \<le> length ?rs then Some (fromLastSeenString (last (take ?n ?rs))) else None)"
    using ListFromStrings_page [OF assms(1) Suc.prems(1) assms(3)]
    by (auto simp: Let_def max_def min_def)
  show ?case
  proof (cases "?n \<le> length ?rs")
    case False
    then show ?thesis by (simp add: page)
  next
    case True
    let ?k = "last (take ?n ?rs)"
    have "keyed (\<lambda>s. s) strings" using assms(4) by (simp add: keyed_def)
    have "?k \<in> set ?rs" using n True by (intro last_take_in_set) auto
    then have "?k \<in> set strings" by (auto simp: rows_above_def)
    then have tok: "toLastSeenString (Some (fromLastSeenString ?k)) = Ok ?k"
      using assms(5) by (simp add: toLastSeenString_fromLastSeenString)
    have "rows_above (\<lambda>s. s) ?k strings = drop ?n ?rs"
      using rows_above_next [OF \<open>keyed (\<lambda>s. s) strings\<close> n] True by blast
    then show ?thesis
      using page True Suc.IH [OF tok] Suc.prems(2) n by simp
  qed
qed simp

text \<open>
  The token of a string that is not UTF-8 carries another string. Where that one sorts below the first string, pages of size
  one start over with the same string, and the walk does not end.
\<close>

lemma walk_strings_repeats:
  assumes "Limit_Limit l = Ok 1" and "length strings < 2 ^ 32" and "sort strings = t # rest" and "to_valid_utf8 t < t"
    and "toLastSeenString tok = Ok v" and "v < t"
  shows "walk_strings fuel strings l tok = None"
  using assms(5,6)
proof (induction fuel arbitrary: tok v)
  case (Suc fuel)
  have "sorted (t # rest)" using assms(3) by (metis sorted_sort)
  then have "\<forall>u\<in>set (sort strings). v < u" using Suc.prems(2) assms(3) by auto
  then have "filter (\<lambda>u. v < u) strings = strings" by (simp add: filter_id_conv)
  then have "rows_above (\<lambda>s. s) v strings = t # rest" using assms(3) by (simp add: rows_above_def)
  then have page: "ListFromStrings strings l tok = Ok ([t], Some (fromLastSeenString t))"
    using ListFromStrings_page [OF assms(1) Suc.prems(1) assms(2)] by simp
  show ?case
    using page Suc.IH [OF toLastSeenString_fromLastSeenString assms(4)] by simp
qed simp

end
