(* ===== verification/VM_Kinds.thy ===== *)
theory VM_Kinds
  imports VM_Page
begin

text \<open>
  Movie edition kinds (src/internal/services/catalog/movie\_edition\_kind.go): list, create, delete,
  read and patch. Each SQL text of the code is a statement of the model; a handler runs them in the
  code's order and with its error wrapping. Request and response objects carry the fields of the
  API types that the code reads or fills.
\<close>

section \<open>Requests and responses\<close>

record MovieEditionKind =
  mek_Id :: uint32
  mek_Name :: string
  mek_IsDefault :: bool

record PostKindBody =
  pk_Name :: string
  pk_IsDefault :: "bool option"

record KindPatch =
  kp_Name :: "string option"
  kp_IsDefault :: "bool option"

definition kind_of_row :: "kind_row \<Rightarrow> MovieEditionKind" where
  "kind_of_row r = \<lparr>mek_Id = k_id r, mek_Name = k_name r, mek_IsDefault = k_is_default r\<rparr>"

section \<open>Statements\<close>

definition list_kinds_sql :: string where
  "list_kinds_sql = ''SELECT id, name, is_default FROM catalog_movie_edition_kinds WHERE id > @lastSeenId ORDER BY id ASC LIMIT @limit;''"

definition list_kinds_stmt :: "uint32 \<Rightarrow> uint32 \<Rightarrow> kind_row list stmt" where
  "list_kinds_stmt lastSeenId lim =
     int4 [lastSeenId] (select_stmt (\<lambda>d. take (unat lim) (rows_above k_id lastSeenId (movie_edition_kinds d))))"

definition kind_name_count :: "pg \<Rightarrow> string \<Rightarrow> nat list stmt" where
  "kind_name_count P name = select_stmt (\<lambda>d.
     [count_where (\<lambda>k. sql_lower P (k_name k) = sql_lower P name) (movie_edition_kinds d)])"

definition unset_rows :: "kind_row list \<Rightarrow> kind_row list" where
  "unset_rows rows = update_where k_is_default (\<lambda>k. k\<lparr>k_is_default := False\<rparr>) rows"

definition unset_default_kinds :: "nat stmt" where
  "unset_default_kinds = modify_stmt (\<lambda>d.
     Inr (d\<lparr>movie_edition_kinds := unset_rows (movie_edition_kinds d)\<rparr>,
          count_where k_is_default (movie_edition_kinds d)))"

text \<open>
  The id comes from the sequence of the table; the partial unique index allows one default.
\<close>

definition insert_kind :: "string \<Rightarrow> bool \<Rightarrow> uint32 list stmt" where
  "insert_kind name isDefault now d q =
     (if kind_seq q < max_serial then
        (let i = kind_seq q + 1; q' = q\<lparr>kind_seq := i\<rparr>;
             rows = movie_edition_kinds d @ [\<lparr>k_id = i, k_name = name, k_is_default = isDefault\<rparr>] in
         if count_where k_is_default rows \<le> 1
         then (Inr (d\<lparr>movie_edition_kinds := rows\<rparr>, [i]), q')
         else (Inl unique_violation, q'))
      else (Inl sequence_exhausted, q))"

definition delete_kind :: "uint32 \<Rightarrow> nat stmt" where
  "delete_kind i = int4 [i] (modify_stmt (\<lambda>d.
     if i \<in> e_kind_id ` set (catalog_movie_editions d) \<and> i \<in> k_id ` set (movie_edition_kinds d)
     then Inl foreign_key_violation
     else Inr (d\<lparr>movie_edition_kinds := filter (\<lambda>k. k_id k \<noteq> i) (movie_edition_kinds d)\<rparr>,
               count_where (\<lambda>k. k_id k = i) (movie_edition_kinds d))))"

definition select_kind :: "uint32 \<Rightarrow> kind_row list stmt" where
  "select_kind i = int4 [i] (select_stmt (\<lambda>d. filter (\<lambda>k. k_id k = i) (movie_edition_kinds d)))"

definition update_kind_name :: "string \<Rightarrow> uint32 \<Rightarrow> nat stmt" where
  "update_kind_name name i = int4 [i] (modify_stmt (\<lambda>d.
     Inr (d\<lparr>movie_edition_kinds :=
              update_where (\<lambda>k. k_id k = i) (\<lambda>k. k\<lparr>k_name := name\<rparr>) (movie_edition_kinds d)\<rparr>,
          count_where (\<lambda>k. k_id k = i) (movie_edition_kinds d))))"

definition update_kind_default :: "bool \<Rightarrow> uint32 \<Rightarrow> nat stmt" where
  "update_kind_default isDefault i = int4 [i] (modify_stmt (\<lambda>d.
     let rows = update_where (\<lambda>k. k_id k = i) (\<lambda>k. k\<lparr>k_is_default := isDefault\<rparr>) (movie_edition_kinds d) in
     if count_where k_is_default rows \<le> 1
     then Inr (d\<lparr>movie_edition_kinds := rows\<rparr>, count_where (\<lambda>k. k_id k = i) (movie_edition_kinds d))
     else Inl unique_violation))"

lemmas kind_stmt_defs = list_kinds_stmt_def kind_name_count_def unset_default_kinds_def
  insert_kind_def delete_kind_def select_kind_def update_kind_name_def update_kind_default_def

section \<open>Handlers\<close>

definition no_begin :: "goerr \<Rightarrow> goerr" where
  "no_begin = wrapf ''could not begin transaction: ''"

definition list_kinds_cb :: "kind_row \<Rightarrow> MovieEditionKind list \<Rightarrow> uint32 \<times> MovieEditionKind list" where
  "list_kinds_cb r entries = (k_id r, entries @ [kind_of_row r])"

definition ListMovieEditionKinds ::
  "pg \<Rightarrow> uint32 option \<Rightarrow> string option \<Rightarrow> (MovieEditionKind list \<times> string option) prog" where
  "ListMovieEditionKinds P pageSize pageToken =
     bind (ListPtr P Pool \<lparr>Sql = list_kinds_sql, Want = pageSize, Default = 50, Max = 100,
                            PageToken = pageToken\<rparr> list_kinds_stmt list_kinds_cb [])
       (\<lambda>(nextPageToken, entries). ret (entries, nextPageToken))"

definition PostMovieEditionKind :: "pg \<Rightarrow> PostKindBody option \<Rightarrow> MovieEditionKind prog" where
  "PostMovieEditionKind P body =
     (case body of
        None \<Rightarrow> panic nil_dereference
      | Some b \<Rightarrow>
          if pk_Name b = [] then fail BadRequest (New ''name must be non-empty'')
          else
            (let name = pk_Name b;
                 isDefault = (case pk_IsDefault b of None \<Rightarrow> False | Some v \<Rightarrow> v) in
             with_tx P [] no_begin
               (check (QueryOne P Tx (kind_name_count P name))
                  (wrapf ''could not check for existing movie edition kind name: '') (\<lambda>n.
                if 0 < n
                then fail AlreadyExists (New ''movie edition kind with the given name already exists'')
                else
                  check (if isDefault then Exec P Tx unset_default_kinds else ret 0)
                    (wrapf ''could not unset existing default movie edition kind: '') (\<lambda>_.
                  check (QueryOne P Tx (insert_kind name isDefault))
                    (\<lambda>e. wrapf_before e '': failed to insert new movie edition kind'') (\<lambda>i.
                  bind (Commit P) (\<lambda>_.
                  ret \<lparr>mek_Id = i, mek_Name = name, mek_IsDefault = isDefault\<rparr>)))))))"

definition DeleteMovieEditionKind :: "pg \<Rightarrow> uint32 \<Rightarrow> unit prog" where
  "DeleteMovieEditionKind P i =
     (if i = 0 then fail BadRequest (New ''non-zero id is required'')
      else
        bind (Exec P Pool (delete_kind i)) (\<lambda>rowsAffected.
        if rowsAffected = 0
        then fail NotFound (errorf (''movie_edition_kind_id '' @ decimal (unat i) @ '' not found''))
        else ret ()))"

text \<open>
  \<^verbatim>\<open>if errors.Is(err, vmdb.ErrNotFound)\<close> the error becomes a fresh one under \<^verbatim>\<open>vmerr.NotFound\<close>;
  other errors pass.
\<close>

definition not_found_as :: "string \<Rightarrow> goerr \<Rightarrow> goerr" where
  "not_found_as msg e =
     (if errors_Is e ErrNotFound then HttpError ProblemNotFound 404 (errorf msg) else e)"

definition getMovieEditionKind :: "pg \<Rightarrow> runner \<Rightarrow> uint32 \<Rightarrow> MovieEditionKind prog" where
  "getMovieEditionKind P r i =
     check (QueryOne P r (select_kind i))
       (not_found_as (''movie_edition_kind with id '' @ decimal (unat i) @ '' not found''))
       (\<lambda>row. ret (kind_of_row row))"

definition GetMovieEditionKind :: "pg \<Rightarrow> uint32 \<Rightarrow> MovieEditionKind prog" where
  "GetMovieEditionKind P i =
     (if i = 0 then fail BadRequest (New ''non-zero id is required'')
      else getMovieEditionKind P Pool i)"

text \<open>One round of the loop over the patches.\<close>

definition patch_kind :: "pg \<Rightarrow> uint32 \<Rightarrow> KindPatch \<Rightarrow> unit prog" where
  "patch_kind P i patch =
     bind (case kp_Name patch of
             None \<Rightarrow> ret 0
           | Some name \<Rightarrow>
               check (Exec P Tx (update_kind_name name i))
                 (\<lambda>e. wrapf_before e '': failed to update name'') ret) (\<lambda>rowsAffected1.
     bind (case kp_IsDefault patch of
             None \<Rightarrow> ret rowsAffected1
           | Some isDefault \<Rightarrow>
               check (if isDefault then Exec P Tx unset_default_kinds else ret 0)
                 (\<lambda>e. wrapf_before e '': failed to unset existing default movie edition kind'') (\<lambda>_.
               check (Exec P Tx (update_kind_default isDefault i))
                 (\<lambda>e. wrapf_before e '': failed to update is_default'') ret)) (\<lambda>rowsAffected.
     let fieldsSet = (if kp_Name patch = None then 0 else 1) + (if kp_IsDefault patch = None then 0 else 1 :: nat) in
     if fieldsSet = 0 then fail BadRequest (New ''no valid fields to patch'')
     else if 1 < fieldsSet
       then fail BadRequest (New ''multiple fields to patch in a single patch are not supported'')
     else if rowsAffected = 0
       then fail NotFound (errorf (''movie edition kind with id '' @ decimal (unat i) @ '' not found''))
     else ret ()))"

fun patch_kinds :: "pg \<Rightarrow> uint32 \<Rightarrow> KindPatch list \<Rightarrow> unit prog" where
  "patch_kinds P i [] = ret ()"
| "patch_kinds P i (patch # patches) = bind (patch_kind P i patch) (\<lambda>_. patch_kinds P i patches)"

definition PatchMovieEditionKind :: "pg \<Rightarrow> uint32 \<Rightarrow> KindPatch list option \<Rightarrow> MovieEditionKind prog" where
  "PatchMovieEditionKind P i body =
     (if i = 0 then fail BadRequest (New ''non-zero id is required'')
      else
        with_tx P [] no_begin
          (case body of
             None \<Rightarrow> fail BadRequest (New ''no patches provided'')
           | Some patches \<Rightarrow>
               bind (patch_kinds P i patches) (\<lambda>_.
               bind (getMovieEditionKind P Tx i) (\<lambda>kind.
               bind (Commit P) (\<lambda>_. ret kind)))))"

section \<open>The listing\<close>

interpretation kind_pages: paged_table list_kinds_sql movie_edition_kinds k_id list_kinds_stmt
    list_kinds_cb kind_of_row ListMovieEditionKinds
proof
  show "contains list_kinds_sql ''@limit''" "contains list_kinds_sql ''@lastSeenId''"
    by code_simp+
  show "schema_ok d q \<Longrightarrow> serial_ok k_id max_serial (movie_edition_kinds d)" for d q
    by (auto simp: schema_ok_def catalog_ok_def serial_ok_def)
qed (simp_all add: list_kinds_stmt_def list_kinds_cb_def ListMovieEditionKinds_def)

section \<open>Atomicity and invariants\<close>

lemma atomic_PostMovieEditionKind: "atomic P (\<lambda>P. PostMovieEditionKind P body)"
  unfolding PostMovieEditionKind_def Let_def
  by (intro atomic_intros quiet_intros) (simp_all add: kind_name_count_def)

lemma atomic_DeleteMovieEditionKind: "atomic P (\<lambda>P. DeleteMovieEditionKind P i)"
  unfolding DeleteMovieEditionKind_def
  by (intro atomic_if atomic_fail atomic_check_pure atomic_Exec) (simp_all add: fail_def ret_def)

lemma atomic_patch_kind: "atomic P (\<lambda>P. patch_kind P i patch)"
  unfolding patch_kind_def Let_def
  by (intro atomic_intros quiet_intros) simp_all

lemma quiet_patch_kind: "quiet (patch_kind P i patch)"
  unfolding patch_kind_def Let_def by (intro quiet_intros)

lemma quiet_patch_kinds: "quiet (patch_kinds P i patches)"
  by (induction patches) (simp_all add: quiet_intros quiet_patch_kind)

lemma atomic_patch_kinds: "atomic P (\<lambda>P. patch_kinds P i patches)"
  by (induction patches) (simp_all add: atomic_intros atomic_patch_kind quiet_patch_kind)

lemma atomic_getMovieEditionKind: "atomic P (\<lambda>P. getMovieEditionKind P r i)"
  unfolding getMovieEditionKind_def by (intro atomic_check_ret atomic_QueryOne) simp

lemma quiet_getMovieEditionKind: "quiet (getMovieEditionKind P Tx i)"
  unfolding getMovieEditionKind_def by (intro quiet_intros)

lemma atomic_PatchMovieEditionKind: "atomic P (\<lambda>P. PatchMovieEditionKind P i body)"
  unfolding PatchMovieEditionKind_def
  by (intro atomic_intros quiet_intros atomic_patch_kinds quiet_patch_kinds
      atomic_getMovieEditionKind quiet_getMovieEditionKind)

lemma good_kinds:
  assumes "good d q" and "serial_ok k_id v rows" and "count_where k_is_default rows \<le> 1"
    and "e_kind_id ` set (catalog_movie_editions d) \<subseteq> k_id ` set rows" and "kind_seq q \<le> v"
  shows "good (d\<lparr>movie_edition_kinds := rows\<rparr>) (q\<lparr>kind_seq := v\<rparr>)"
  using assms
  by (simp add: good_def schema_ok_def catalog_ok_def media_ok_def links_ok_def tasks_ok_def
      details_ok_def one_detail_def)

lemma good_kinds_same_seq:
  assumes "good d q" and "serial_ok k_id (kind_seq q) rows" and "count_where k_is_default rows \<le> 1"
    and "e_kind_id ` set (catalog_movie_editions d) \<subseteq> k_id ` set rows"
  shows "good (d\<lparr>movie_edition_kinds := rows\<rparr>) q"
  using good_kinds [OF assms] by simp

lemma goodD:
  assumes "good d q"
  shows "serial_ok k_id (kind_seq q) (movie_edition_kinds d)"
    and "count_where k_is_default (movie_edition_kinds d) \<le> 1"
    and "e_kind_id ` set (catalog_movie_editions d) \<subseteq> k_id ` set (movie_edition_kinds d)"
    and "e \<in> set (catalog_movie_editions d) \<Longrightarrow> e_kind_id e \<in> k_id ` set (movie_edition_kinds d)"
    and "count_where k_is_default (movie_edition_kinds d) \<le> Suc 0"
  using assms by (auto simp: good_def schema_ok_def catalog_ok_def)

lemma unset_rows_simps [simp]:
  "count_where k_is_default (unset_rows rows) = 0"
  "serial_ok k_id v (unset_rows rows) = serial_ok k_id v rows"
  "k_id ` set (unset_rows rows) = k_id ` set rows"
  by (auto simp: unset_rows_def set_update_where) [1] (simp_all add: unset_rows_def)

lemma kinds_stmt_keeps [stmt_ok]:
  "stmt_keeps good (kind_name_count P name)"
  "stmt_keeps good (list_kinds_stmt v lim)"
  "stmt_keeps good (select_kind i)"
  by (simp_all add: kind_name_count_def list_kinds_stmt_def select_kind_def good.stmt_keeps_select
      good.stmt_keeps_int4)

lemma unset_default_kinds_keeps [stmt_ok]: "stmt_keeps good unset_default_kinds"
  unfolding unset_default_kinds_def
  by (rule good.stmt_keeps_modify) (auto intro!: good_kinds_same_seq dest: goodD)

lemma delete_kind_keeps [stmt_ok]: "stmt_keeps good (delete_kind i)"
  unfolding delete_kind_def
proof (intro good.stmt_keeps_int4 good.stmt_keeps_modify)
  fix d d' :: db and q x
  let ?rows = "filter (\<lambda>k. k_id k \<noteq> i) (movie_edition_kinds d)"
  assume d: "good d q" and "(if i \<in> e_kind_id ` set (catalog_movie_editions d) \<and>
        i \<in> k_id ` set (movie_edition_kinds d) then Inl foreign_key_violation
      else Inr (d\<lparr>movie_edition_kinds := ?rows\<rparr>, count_where (\<lambda>k. k_id k = i) (movie_edition_kinds d))) =
      Inr (d', x)"
  then have d': "d' = d\<lparr>movie_edition_kinds := ?rows\<rparr>" and free: "i \<notin> e_kind_id ` set (catalog_movie_editions d)"
    using goodD(3) [OF d] by (auto split: if_splits)
  have "e_kind_id ` set (catalog_movie_editions d) \<subseteq> k_id ` set ?rows"
    using goodD(3) [OF d] free by force
  moreover have "count_where k_is_default ?rows \<le> 1"
    using goodD(2) [OF d] count_where_filter_le order_trans by blast
  ultimately show "good d' q"
    unfolding d' using goodD(1) [OF d] d by (intro good_kinds_same_seq) (auto simp: serial_ok_filter)
qed

lemma count_kind_name [simp]:
  "count_where k_is_default (update_where P (k_name_update g) rows) = count_where k_is_default rows"
  by (induction rows) (auto simp: count_where_def update_where_def)

lemma update_kind_name_keeps [stmt_ok]: "stmt_keeps good (update_kind_name name i)"
  unfolding update_kind_name_def
  by (intro good.stmt_keeps_int4 good.stmt_keeps_modify) (auto intro!: good_kinds_same_seq dest: goodD)

lemma update_kind_default_keeps [stmt_ok]: "stmt_keeps good (update_kind_default b i)"
  unfolding update_kind_default_def
  by (intro good.stmt_keeps_int4 good.stmt_keeps_modify)
    (auto simp: Let_def split: if_splits intro!: good_kinds_same_seq dest: goodD)

lemma insert_kind_keeps [stmt_ok]: "stmt_keeps good (insert_kind name b)"
proof -
  have "seq_le q (q\<lparr>kind_seq := kind_seq q + 1\<rparr>)" if "kind_seq q < max_serial" for q :: seqs
    using word_succ_greater [OF that] by (simp add: seq_le_def)
  moreover have "good (d\<lparr>movie_edition_kinds := movie_edition_kinds d @ [r]\<rparr>) (q\<lparr>kind_seq := kind_seq q + 1\<rparr>)"
    if "good d q" "kind_seq q < max_serial" "k_id r = kind_seq q + 1"
      "count_where k_is_default (movie_edition_kinds d @ [r]) \<le> 1" for d q r
    using that goodD [OF that(1)] word_succ_greater [OF that(2)]
    by (intro good_kinds) (auto simp: serial_ok_snoc)
  ultimately show ?thesis
    by (auto simp: stmt_keeps_def insert_kind_def Let_def)
qed

lemma keeps_kinds:
  "keeps (sess_inv good) (PostMovieEditionKind P body)"
  "keeps (sess_inv good) (DeleteMovieEditionKind P i)"
  "keeps (sess_inv good) (getMovieEditionKind P r i)"
  unfolding PostMovieEditionKind_def DeleteMovieEditionKind_def getMovieEditionKind_def Let_def
  by (intro good.keeps_intros stmt_ok)+

lemma keeps_patch_kinds: "keeps (sess_inv good) (patch_kinds P i patches)"
proof -
  have "keeps (sess_inv good) (patch_kind P i patch)" for patch
    unfolding patch_kind_def Let_def by (intro good.keeps_intros stmt_ok)
  then show ?thesis by (induction patches) (simp_all add: good.keeps_intros)
qed

lemma keeps_PatchMovieEditionKind: "keeps (sess_inv good) (PatchMovieEditionKind P i body)"
  unfolding PatchMovieEditionKind_def
  by (intro good.keeps_intros keeps_patch_kinds keeps_kinds(3))

section \<open>What the handlers do\<close>

text \<open>The id that the next insert takes, and the names that are taken.\<close>

definition kind_name_taken :: "pg \<Rightarrow> db \<Rightarrow> string \<Rightarrow> bool" where
  "kind_name_taken P d name = (0 < count_where (\<lambda>k. sql_lower P (k_name k) = sql_lower P name) (movie_edition_kinds d))"

lemma PostMovieEditionKind_outcome:
  assumes "good (committed s) q0" and "pk_Name b \<noteq> []"
    and isDefault: "isDefault = (case pk_IsDefault b of None \<Rightarrow> False | Some v \<Rightarrow> v)"
    and i: "i = kind_seq (seqs_of s) + 1"
    and rows: "rows = movie_edition_kinds (committed s)"
  shows "kind_name_taken P (committed s) (pk_Name b) \<Longrightarrow>
      outcome (PostMovieEditionKind (reliable P) (Some b)) s =
        (Err (HttpError ProblemAlreadyExists 409 (New ''movie edition kind with the given name already exists'')),
         committed s, seqs_of s)"
    and "\<not> kind_name_taken P (committed s) (pk_Name b) \<Longrightarrow> kind_seq (seqs_of s) < max_serial \<Longrightarrow>
      outcome (PostMovieEditionKind (reliable P) (Some b)) s =
        (Ok \<lparr>mek_Id = i, mek_Name = pk_Name b, mek_IsDefault = isDefault\<rparr>,
         (committed s)\<lparr>movie_edition_kinds :=
            (if isDefault then unset_rows rows else rows) @
            [\<lparr>k_id = i, k_name = pk_Name b, k_is_default = isDefault\<rparr>]\<rparr>,
         (seqs_of s)\<lparr>kind_seq := i\<rparr>)"
proof -
  have count: "count_where k_is_default (rs @ [k]) = count_where k_is_default rs + (if k_is_default k then 1 else 0)"
    for rs k by (simp add: count_where_def)
  note eval = PostMovieEditionKind_def wp_rules kind_name_count_def select_stmt_def Let_def
    unset_default_kinds_def modify_stmt_def insert_kind_def kind_name_taken_def
  show "kind_name_taken P (committed s) (pk_Name b) \<Longrightarrow>
      outcome (PostMovieEditionKind (reliable P) (Some b)) s =
        (Err (HttpError ProblemAlreadyExists 409 (New ''movie edition kind with the given name already exists'')),
         committed s, seqs_of s)"
    using assms(2) by (simp add: eval)
  show "\<not> kind_name_taken P (committed s) (pk_Name b) \<Longrightarrow> kind_seq (seqs_of s) < max_serial \<Longrightarrow>
      outcome (PostMovieEditionKind (reliable P) (Some b)) s =
        (Ok \<lparr>mek_Id = i, mek_Name = pk_Name b, mek_IsDefault = isDefault\<rparr>,
         (committed s)\<lparr>movie_edition_kinds :=
            (if isDefault then unset_rows rows else rows) @
            [\<lparr>k_id = i, k_name = pk_Name b, k_is_default = isDefault\<rparr>]\<rparr>,
         (seqs_of s)\<lparr>kind_seq := i\<rparr>)"
    using assms(2) goodD(2) [OF assms(1)] by (simp add: eval count isDefault i rows)
qed

text \<open>Reading and deleting one kind.\<close>

lemma select_kind_rows:
  assumes "good d q" and "i \<le> max_serial"
  shows "k \<in> set (movie_edition_kinds d) \<Longrightarrow> k_id k = i \<Longrightarrow> select_kind i now d q' = (Inr (d, [k]), q')"
    and "i \<notin> k_id ` set (movie_edition_kinds d) \<Longrightarrow> select_kind i now d q' = (Inr (d, []), q')"
proof -
  have "keyed k_id (movie_edition_kinds d)"
    using goodD(1) [OF assms(1)] by (simp add: serial_ok_def)
  then show "k \<in> set (movie_edition_kinds d) \<Longrightarrow> k_id k = i \<Longrightarrow> select_kind i now d q' = (Inr (d, [k]), q')"
    using assms(2) by (auto simp: select_kind_def select_stmt_def keyed_filter_eq)
  show "i \<notin> k_id ` set (movie_edition_kinds d) \<Longrightarrow> select_kind i now d q' = (Inr (d, []), q')"
    using assms(2) by (simp add: select_kind_def select_stmt_def filter_key_absent)
qed

lemma GetMovieEditionKind_outcome:
  assumes "good (committed s) q0" and "i \<noteq> 0" and "i \<le> max_serial"
  shows "k \<in> set (movie_edition_kinds (committed s)) \<Longrightarrow> k_id k = i \<Longrightarrow>
      outcome (GetMovieEditionKind (reliable P) i) s = (Ok (kind_of_row k), committed s, seqs_of s)"
    and "i \<notin> k_id ` set (movie_edition_kinds (committed s)) \<Longrightarrow>
      outcome (GetMovieEditionKind (reliable P) i) s =
        (Err (HttpError ProblemNotFound 404
           (errorf (''movie_edition_kind with id '' @ decimal (unat i) @ '' not found''))),
         committed s, seqs_of s)"
  using assms(2) select_kind_rows [OF assms(1,3)]
  by (simp_all add: GetMovieEditionKind_def getMovieEditionKind_def wp_rules not_found_as_def)

lemmas delete_kind_eval = DeleteMovieEditionKind_def wp_rules delete_kind_def modify_stmt_def

lemma DeleteMovieEditionKind_used:
  assumes "good (committed s) q0" and "i \<noteq> 0" and "i \<le> max_serial"
    and "i \<in> e_kind_id ` set (catalog_movie_editions (committed s))"
  shows "outcome (DeleteMovieEditionKind (reliable P) i) s =
    (Err (HttpError ProblemInternalError 500 foreign_key_violation), committed s, seqs_of s)"
  using assms(2-) goodD(3) [OF assms(1)] by (simp add: delete_kind_eval subset_iff)

lemma DeleteMovieEditionKind_absent:
  assumes "i \<noteq> 0" and "i \<le> max_serial" and "i \<notin> k_id ` set (movie_edition_kinds (committed s))"
  shows "outcome (DeleteMovieEditionKind (reliable P) i) s =
    (Err (HttpError ProblemNotFound 404
       (errorf (''movie_edition_kind_id '' @ decimal (unat i) @ '' not found''))), committed s, seqs_of s)"
proof -
  have "filter (\<lambda>k. k_id k \<noteq> i) (movie_edition_kinds (committed s)) = movie_edition_kinds (committed s)"
    using assms(3) by (auto simp: filter_id_conv)
  with assms show ?thesis by (simp add: delete_kind_eval image_iff) fastforce
qed

lemma DeleteMovieEditionKind_removes:
  assumes "good (committed s) q0" and "i \<noteq> 0" and "i \<le> max_serial"
    and "i \<in> k_id ` set (movie_edition_kinds (committed s))"
    and "i \<notin> e_kind_id ` set (catalog_movie_editions (committed s))"
  shows "outcome (DeleteMovieEditionKind (reliable P) i) s =
    (Ok (), (committed s)\<lparr>movie_edition_kinds :=
       filter (\<lambda>k. k_id k \<noteq> i) (movie_edition_kinds (committed s))\<rparr>, seqs_of s)"
proof -
  have "keyed k_id (movie_edition_kinds (committed s))"
    using goodD(1) [OF assms(1)] by (simp add: serial_ok_def)
  with assms(2-) show ?thesis by (simp add: delete_kind_eval count_where_key)
qed

text \<open>
  A patch names one field. Applied to a table with the row, the patches act one after the other;
  setting a default unsets the others.
\<close>

definition apply_kind_patch :: "uint32 \<Rightarrow> KindPatch \<Rightarrow> kind_row list \<Rightarrow> kind_row list" where
  "apply_kind_patch i p rows =
     (case (kp_Name p, kp_IsDefault p) of
        (Some name, None) \<Rightarrow> update_where (\<lambda>k. k_id k = i) (\<lambda>k. k\<lparr>k_name := name\<rparr>) rows
      | (None, Some v) \<Rightarrow>
          update_where (\<lambda>k. k_id k = i) (\<lambda>k. k\<lparr>k_is_default := v\<rparr>) (if v then unset_rows rows else rows)
      | _ \<Rightarrow> rows)"

definition one_field :: "KindPatch \<Rightarrow> bool" where
  "one_field p = ((kp_Name p = None) \<noteq> (kp_IsDefault p = None))"

lemma count_where_update_le: "count_where P (update_where Q g rows) \<le> count_where P rows + count_where Q rows"
  by (induction rows) (auto simp: count_where_def update_where_def)

lemma count_default_false:
  "count_where k_is_default (update_where Q (\<lambda>k. k\<lparr>k_is_default := False\<rparr>) rows) \<le> count_where k_is_default rows"
  by (induction rows) (auto simp: count_where_def update_where_def)

lemma apply_patch_default:
  assumes "keyed k_id rows" and "count_where k_is_default rows \<le> 1"
  shows "count_where k_is_default (update_where (\<lambda>k. k_id k = i) (\<lambda>k. k\<lparr>k_is_default := v\<rparr>)
    (if v then unset_rows rows else rows)) \<le> 1"
proof (cases v)
  case True
  have "keyed k_id (unset_rows rows)" using assms(1) by (simp add: unset_rows_def)
  then have "count_where (\<lambda>k. k_id k = i) (unset_rows rows) \<le> 1" by (simp add: count_where_key)
  with True count_where_update_le [of k_is_default "\<lambda>k. k_id k = i" "\<lambda>k. k\<lparr>k_is_default := True\<rparr>" "unset_rows rows"]
  show ?thesis by simp
next
  case False
  then show ?thesis
    using assms(2) count_default_false [of "\<lambda>k. k_id k = i" rows] by simp
qed

lemma apply_kind_patch_keeps:
  "k_id ` set (apply_kind_patch i p rows) = k_id ` set rows"
  "keyed k_id (apply_kind_patch i p rows) = keyed k_id rows"
  "keyed k_id rows \<Longrightarrow> count_where k_is_default rows \<le> 1 \<Longrightarrow>
     count_where k_is_default (apply_kind_patch i p rows) \<le> 1"
  using apply_patch_default [of rows i]
  by (auto simp: apply_kind_patch_def unset_rows_def simp del: One_nat_def split: option.splits)

lemma patch_kind_outcome:
  assumes "one_field p" and "i \<le> max_serial" and "i \<in> k_id ` set (movie_edition_kinds d)"
    and keyed: "keyed k_id (movie_edition_kinds d)" and "count_where k_is_default (movie_edition_kinds d) \<le> 1"
  shows "\<exists>n'. outcome (check (patch_kind (reliable P) i p) w k) (in_tx s lvl t0 n d q) =
    outcome (k ()) (in_tx s lvl t0 n' (d\<lparr>movie_edition_kinds := apply_kind_patch i p (movie_edition_kinds d)\<rparr>) q)"
proof -
  note eval = apply_kind_patch_def patch_kind_def wp_rules update_kind_name_def update_kind_default_def
    unset_default_kinds_def modify_stmt_def Let_def
  have unset: "keyed k_id (unset_rows (movie_edition_kinds d))" using keyed by (simp add: unset_rows_def)
  note counts = count_where_key [OF keyed] count_where_key [OF unset]
  show ?thesis
  proof (cases "kp_Name p")
    case None
    with assms(1) obtain v where v: "kp_IsDefault p = Some v" by (auto simp: one_field_def)
    have "count_where k_is_default (update_where (\<lambda>k. k_id k = i) (\<lambda>k. k\<lparr>k_is_default := v\<rparr>)
        (if v then unset_rows (movie_edition_kinds d) else movie_edition_kinds d)) \<le> 1"
      using keyed assms(5) by (rule apply_patch_default)
    with None v assms(2,3) show ?thesis
      by (cases v) (auto simp: eval counts)
  next
    case (Some name)
    with assms show ?thesis by (auto simp: eval counts one_field_def)
  qed
qed

lemma patch_kinds_outcome:
  assumes "list_all one_field ps" and "i \<le> max_serial" and "i \<in> k_id ` set (movie_edition_kinds d)"
    and "keyed k_id (movie_edition_kinds d)" and "count_where k_is_default (movie_edition_kinds d) \<le> 1"
  shows "\<exists>n'. outcome (check (patch_kinds (reliable P) i ps) w k) (in_tx s lvl t0 n d q) =
    outcome (k ()) (in_tx s lvl t0 n' (d\<lparr>movie_edition_kinds := fold (apply_kind_patch i) ps (movie_edition_kinds d)\<rparr>) q)"
  using assms
proof (induction ps arbitrary: d n)
  case Nil
  have "d = d\<lparr>movie_edition_kinds := movie_edition_kinds d\<rparr>" by simp
  then show ?case by (auto simp: wp_rules)
next
  case (Cons p ps)
  let ?d = "d\<lparr>movie_edition_kinds := apply_kind_patch i p (movie_edition_kinds d)\<rparr>"
  obtain n1 where n1: "outcome (check (patch_kind (reliable P) i p) w (\<lambda>_. check (patch_kinds (reliable P) i ps) w k))
      (in_tx s lvl t0 n d q) = outcome (check (patch_kinds (reliable P) i ps) w k) (in_tx s lvl t0 n1 ?d q)"
    using patch_kind_outcome [of p i d] Cons.prems by (metis (no_types, lifting) list.pred_inject(2))
  have "\<exists>n'. outcome (check (patch_kinds (reliable P) i ps) w k) (in_tx s lvl t0 n1 ?d q) =
      outcome (k ()) (in_tx s lvl t0 n' (?d\<lparr>movie_edition_kinds := fold (apply_kind_patch i) ps (movie_edition_kinds ?d)\<rparr>) q)"
    using Cons.prems by (intro Cons.IH) (simp_all add: apply_kind_patch_keeps del: One_nat_def)
  with n1 show ?case by (simp add: check_assoc)
qed

lemma PatchMovieEditionKind_outcome:
  assumes "good (committed s) q0" and "i \<noteq> 0" and "i \<le> max_serial"
    and "i \<in> k_id ` set (movie_edition_kinds (committed s))" and "list_all one_field ps"
    and rows: "rows = fold (apply_kind_patch i) ps (movie_edition_kinds (committed s))"
  shows "\<exists>k\<in>set rows. k_id k = i \<and>
    outcome (PatchMovieEditionKind (reliable P) i (Some ps)) s =
      (Ok (kind_of_row k), (committed s)\<lparr>movie_edition_kinds := rows\<rparr>, seqs_of s)"
proof -
  let ?rows = "movie_edition_kinds (committed s)" and ?d = "(committed s)\<lparr>movie_edition_kinds := rows\<rparr>"
  have keyed: "keyed k_id ?rows" and "count_where k_is_default ?rows \<le> 1"
    using goodD [OF assms(1)] by (simp_all add: serial_ok_def)
  have kept: "k_id ` set (fold (apply_kind_patch i) qs rs) = k_id ` set rs"
    "keyed k_id (fold (apply_kind_patch i) qs rs) = keyed k_id rs" for qs rs
    by (induction qs arbitrary: rs) (simp_all add: apply_kind_patch_keeps)
  then obtain k where k: "k \<in> set rows" "k_id k = i" using assms(4) rows by (metis imageE)
  then have "filter (\<lambda>k. k_id k = i) rows = [k]"
    using keyed_filter_eq [of k_id rows k] kept(2) keyed rows by simp
  then have sel: "select_kind i now ?d q = (Inr (?d, [k]), q)" for now q
    using assms(3) by (simp add: select_kind_def select_stmt_def)
  have "\<exists>n'. outcome (PatchMovieEditionKind (reliable P) i (Some ps)) s =
      outcome (bind (getMovieEditionKind (reliable P) Tx i) (\<lambda>kind. bind (Commit (reliable P)) (\<lambda>_. ret kind)))
        (in_tx s None (clock_at P (calls s)) n' ?d (seqs_of s))"
    using patch_kinds_outcome [OF assms(5,3,4) keyed \<open>count_where k_is_default ?rows \<le> 1\<close>] assms(2)
    by (simp add: PatchMovieEditionKind_def outcome_with_tx rows)
  then show ?thesis
    using k sel by (auto simp: getMovieEditionKind_def wp_rules)
qed

lemma clean_PostMovieEditionKind: "clean (PostMovieEditionKind (reliable P) body)"
  unfolding PostMovieEditionKind_def Let_def by (intro clean_intros quiet_intros)

lemma clean_PatchMovieEditionKind: "clean (PatchMovieEditionKind (reliable P) i body)"
  unfolding PatchMovieEditionKind_def
  by (intro clean_intros quiet_intros quiet_patch_kinds quiet_getMovieEditionKind)

lemma clean_DeleteMovieEditionKind: "clean (DeleteMovieEditionKind (reliable P) i)"
proof -
  have "d' = d" if "delete_kind i now d q = (Inr (d', 0), q')" for now d q d' q'
  proof -
    from that have "\<forall>k\<in>set (movie_edition_kinds d). k_id k \<noteq> i"
      and "d' = d\<lparr>movie_edition_kinds := filter (\<lambda>k. k_id k \<noteq> i) (movie_edition_kinds d)\<rparr>"
      by (auto simp: delete_kind_def int4_def modify_stmt_def split: if_splits)
    then show ?thesis by (simp add: filter_True)
  qed
  then show ?thesis
    unfolding DeleteMovieEditionKind_def by (intro clean_intros clean_Exec_rows)
qed

lemma filter_unset [simp]: "filter k_is_default (unset_rows rows) = []"
  by (induction rows) (auto simp: unset_rows_def update_where_def)

lemma fold_kind_patch_default:
  assumes "keyed k_id rows" and "count_where k_is_default rows \<le> 1"
  shows "count_where k_is_default (fold (apply_kind_patch i) ps rows) \<le> 1"
  using assms
  by (induction ps arbitrary: rows) (simp_all add: apply_kind_patch_keeps del: One_nat_def)

end
