(* ===== verification/VM_Cards.thy ===== *)
theory VM_Cards
  imports VM_Kinds
begin

text \<open>
  Cards (src/internal/services/catalog/card.go): a card is a movie or an edition of a movie. List,
  create, delete, read and patch.
\<close>

section \<open>Requests and responses\<close>

record Movie =
  mo_TmdbId :: "uint64 option"
  mo_FanartId :: "string option"

record MovieEdition =
  me_KindId :: uint32
  me_MovieId :: uint32

record CardDetails =
  cd_Movie :: "Movie option"
  cd_MovieEdition :: "MovieEdition option"

record Card =
  ca_Id :: uint32
  ca_Name :: string
  ca_Note :: "string option"
  ca_Details :: CardDetails

record PostCardBody =
  pc_Name :: string
  pc_Note :: "string option"
  pc_Details :: CardDetails

record MoviePatch =
  mp_TmdbId :: "uint64 option"
  mp_FanartId :: "string option"
  mp_ReleaseYear :: "uint32 option"

record MovieEditionPatch =
  ep_KindId :: "uint32 option"

record CardPatch =
  cp_Name :: "string option"
  cp_Note :: "string option"
  cp_Movie :: "MoviePatch option"
  cp_MovieEdition :: "MovieEditionPatch option"

section \<open>Statements\<close>

text \<open>
  The row of the two queries on cards: the card with its movie columns and its edition columns,
  which are NULL where the left join found no row.
\<close>

record card_join =
  cj_Id :: uint32
  cj_Name :: string
  cj_Note :: "string option"
  cj_IsMovie :: bool
  cj_TmdbId :: "uint64 option"
  cj_FanartId :: "string option"
  cj_IsMovieEdition :: bool
  cj_KindId :: "uint32 option"
  cj_MovieCardId :: "uint32 option"

definition left_join :: "'b list \<Rightarrow> 'b option list" where
  "left_join matches = (case matches of [] \<Rightarrow> [None] | _ \<Rightarrow> map Some matches)"

definition join_row :: "card_row \<Rightarrow> movie_row option \<Rightarrow> edition_row option \<Rightarrow> card_join" where
  "join_row c m me =
     \<lparr>cj_Id = c_id c, cj_Name = c_name c, cj_Note = c_note c,
      cj_IsMovie = (m \<noteq> None),
      cj_TmdbId = (case m of None \<Rightarrow> None | Some x \<Rightarrow> mv_tmdb_id x),
      cj_FanartId = (case m of None \<Rightarrow> None | Some x \<Rightarrow> mv_fanart_id x),
      cj_IsMovieEdition = (me \<noteq> None),
      cj_KindId = map_option e_kind_id me,
      cj_MovieCardId = map_option e_movie_card_id me\<rparr>"

definition join_card :: "db \<Rightarrow> card_row \<Rightarrow> card_join list" where
  "join_card d c =
     [join_row c m me.
        m \<leftarrow> left_join (filter (\<lambda>m. mv_card_id m = c_id c) (catalog_movies d)),
        me \<leftarrow> left_join (filter (\<lambda>e. e_card_id e = c_id c) (catalog_movie_editions d))]"

definition card_joins :: "db \<Rightarrow> card_join list" where
  "card_joins d = concat (map (join_card d) (catalog_cards d))"

text \<open>The text of the listing, with its white space collapsed.\<close>

definition list_cards_sql :: string where
  "list_cards_sql = ''SELECT c.id, c.name, c.note, m.card_id IS NOT NULL AS is_movie, m.tmdb_id, m.fanart_id, me.card_id IS NOT NULL AS is_movie_edition, me.kind_id, me.movie_card_id FROM catalog_cards c LEFT JOIN catalog_movies m ON m.card_id = c.id LEFT JOIN catalog_movie_editions me ON me.card_id = c.id WHERE c.id > @lastSeenId ORDER BY c.id ASC LIMIT @limit;''"

definition list_cards_stmt :: "uint32 \<Rightarrow> uint32 \<Rightarrow> card_join list stmt" where
  "list_cards_stmt lastSeenId lim =
     int4 [lastSeenId] (select_stmt (\<lambda>d. take (unat lim) (rows_above cj_Id lastSeenId (card_joins d))))"

definition card_name_count :: "pg \<Rightarrow> string \<Rightarrow> nat list stmt" where
  "card_name_count P name = select_stmt (\<lambda>d.
     [count_where (\<lambda>c. sql_lower P (c_name c) = sql_lower P name) (catalog_cards d)])"

definition insert_card :: "string \<Rightarrow> string option \<Rightarrow> uint32 list stmt" where
  "insert_card name note now d q =
     (if card_seq q < max_serial then
        (let i = card_seq q + 1; q' = q\<lparr>card_seq := i\<rparr> in
         if name = [] then (Inl check_violation, q')
         else (Inr (d\<lparr>catalog_cards := catalog_cards d @ [\<lparr>c_id = i, c_name = name, c_note = note\<rparr>]\<rparr>, [i]), q'))
      else (Inl sequence_exhausted, q))"

text \<open>The column tmdb\_id is an INTEGER too: a larger value is refused by the driver.\<close>

definition tmdb_fits :: "uint64 option \<Rightarrow> bool" where
  "tmdb_fits t = (case t of None \<Rightarrow> True | Some v \<Rightarrow> v \<le> 2147483647)"

definition insert_movie :: "uint32 \<Rightarrow> uint64 option \<Rightarrow> string option \<Rightarrow> nat stmt" where
  "insert_movie i tmdb fanart = int4 [i] (modify_stmt (\<lambda>d.
     if \<not> tmdb_fits tmdb then Inl int4_range
     else if i \<in> mv_card_id ` set (catalog_movies d) then Inl unique_violation
     else if i \<notin> c_id ` set (catalog_cards d) then Inl foreign_key_violation
     else Inr (d\<lparr>catalog_movies := catalog_movies d @
                  [\<lparr>mv_card_id = i, mv_release_year = None, mv_tmdb_id = tmdb, mv_fanart_id = fanart\<rparr>]\<rparr>, 1)))"

definition kind_id_count :: "uint32 \<Rightarrow> nat list stmt" where
  "kind_id_count i = int4 [i] (select_stmt (\<lambda>d. [count_where (\<lambda>k. k_id k = i) (movie_edition_kinds d)]))"

definition movie_id_count :: "uint32 \<Rightarrow> nat list stmt" where
  "movie_id_count i = int4 [i] (select_stmt (\<lambda>d. [count_where (\<lambda>m. mv_card_id m = i) (catalog_movies d)]))"

definition insert_edition :: "uint32 \<Rightarrow> uint32 \<Rightarrow> uint32 \<Rightarrow> nat stmt" where
  "insert_edition i kind movie = int4 [i, kind, movie] (modify_stmt (\<lambda>d.
     if i \<in> e_card_id ` set (catalog_movie_editions d) then Inl unique_violation
     else if i \<notin> c_id ` set (catalog_cards d) \<or> kind \<notin> k_id ` set (movie_edition_kinds d) \<or>
             movie \<notin> mv_card_id ` set (catalog_movies d) then Inl foreign_key_violation
     else Inr (d\<lparr>catalog_movie_editions := catalog_movie_editions d @
                  [\<lparr>e_card_id = i, e_kind_id = kind, e_movie_card_id = movie\<rparr>]\<rparr>, 1)))"

definition delete_card :: "uint32 \<Rightarrow> nat stmt" where
  "delete_card i = int4 [i] (modify_stmt (\<lambda>d.
     if i \<in> c_id ` set (catalog_cards d)
     then Inr (delete_cards [i] d, count_where (\<lambda>c. c_id c = i) (catalog_cards d))
     else Inr (d, 0)))"

definition select_card :: "uint32 \<Rightarrow> card_join list stmt" where
  "select_card i = int4 [i] (select_stmt (\<lambda>d. filter (\<lambda>r. cj_Id r = i) (card_joins d)))"

definition update_card :: "uint32 \<Rightarrow> (card_row \<Rightarrow> card_row) \<Rightarrow> nat stmt" where
  "update_card i g = int4 [i] (modify_stmt (\<lambda>d.
     let rows = update_where (\<lambda>c. c_id c = i) g (catalog_cards d) in
     if \<exists>c\<in>set rows. c_name c = [] \<and> c_id c = i then Inl check_violation
     else Inr (d\<lparr>catalog_cards := rows\<rparr>, count_where (\<lambda>c. c_id c = i) (catalog_cards d))))"

definition update_card_name :: "string \<Rightarrow> uint32 \<Rightarrow> nat stmt" where
  "update_card_name name i = update_card i (\<lambda>c. c\<lparr>c_name := name\<rparr>)"

definition update_card_note :: "string \<Rightarrow> uint32 \<Rightarrow> nat stmt" where
  "update_card_note note i = update_card i (\<lambda>c. c\<lparr>c_note := Some note\<rparr>)"

definition update_movie :: "uint32 \<Rightarrow> (movie_row \<Rightarrow> movie_row) \<Rightarrow> nat stmt" where
  "update_movie i g = int4 [i] (modify_stmt (\<lambda>d.
     Inr (d\<lparr>catalog_movies := update_where (\<lambda>m. mv_card_id m = i) g (catalog_movies d)\<rparr>,
          count_where (\<lambda>m. mv_card_id m = i) (catalog_movies d))))"

definition update_tmdb_id :: "uint64 \<Rightarrow> uint32 \<Rightarrow> nat stmt" where
  "update_tmdb_id t i =
     (if tmdb_fits (Some t) then update_movie i (\<lambda>m. m\<lparr>mv_tmdb_id := Some t\<rparr>)
      else (\<lambda>now d q. (Inl int4_range, q)))"

definition update_fanart_id :: "string \<Rightarrow> uint32 \<Rightarrow> nat stmt" where
  "update_fanart_id f i = update_movie i (\<lambda>m. m\<lparr>mv_fanart_id := Some f\<rparr>)"

definition update_release_year :: "uint32 \<Rightarrow> uint32 \<Rightarrow> nat stmt" where
  "update_release_year y i = int4 [y] (update_movie i (\<lambda>m. m\<lparr>mv_release_year := Some y\<rparr>))"

definition update_edition_kind :: "uint32 \<Rightarrow> uint32 \<Rightarrow> nat stmt" where
  "update_edition_kind kind i = int4 [kind, i] (modify_stmt (\<lambda>d.
     if i \<in> e_card_id ` set (catalog_movie_editions d) \<and> kind \<notin> k_id ` set (movie_edition_kinds d)
     then Inl foreign_key_violation
     else Inr (d\<lparr>catalog_movie_editions :=
                  update_where (\<lambda>e. e_card_id e = i) (\<lambda>e. e\<lparr>e_kind_id := kind\<rparr>) (catalog_movie_editions d)\<rparr>,
               count_where (\<lambda>e. e_card_id e = i) (catalog_movie_editions d))))"

section \<open>Handlers\<close>

definition card_of_join :: "card_join \<Rightarrow> Card" where
  "card_of_join r =
     \<lparr>ca_Id = cj_Id r, ca_Name = cj_Name r, ca_Note = cj_Note r,
      ca_Details =
        (if cj_IsMovie r then
           \<lparr>cd_Movie = Some \<lparr>mo_TmdbId = cj_TmdbId r, mo_FanartId = cj_FanartId r\<rparr>, cd_MovieEdition = None\<rparr>
         else if cj_IsMovieEdition r then
           \<lparr>cd_Movie = None,
            cd_MovieEdition = Some
              \<lparr>me_KindId = (case cj_KindId r of None \<Rightarrow> 0 | Some v \<Rightarrow> v),
               me_MovieId = (case cj_MovieCardId r of None \<Rightarrow> 0 | Some v \<Rightarrow> v)\<rparr>\<rparr>
         else \<lparr>cd_Movie = None, cd_MovieEdition = None\<rparr>)\<rparr>"

definition list_cards_cb :: "card_join \<Rightarrow> Card list \<Rightarrow> uint32 \<times> Card list" where
  "list_cards_cb r entries = (cj_Id r, entries @ [card_of_join r])"

definition ListCards :: "pg \<Rightarrow> uint32 option \<Rightarrow> string option \<Rightarrow> (Card list \<times> string option) prog" where
  "ListCards P pageSize pageToken =
     bind (ListPtr P Pool \<lparr>Sql = list_cards_sql, Want = pageSize, Default = 50, Max = 100,
                            PageToken = pageToken\<rparr> list_cards_stmt list_cards_cb [])
       (\<lambda>(nextPageToken, entries). ret (entries, nextPageToken))"

definition card_not_found :: "uint32 \<Rightarrow> string" where
  "card_not_found i = ''card with id '' @ decimal (unat i) @ '' not found''"

definition kind_not_found :: "uint32 \<Rightarrow> string" where
  "kind_not_found i = ''movie edition kind with id '' @ decimal (unat i) @ '' not found''"

definition getCard :: "pg \<Rightarrow> runner \<Rightarrow> uint32 \<Rightarrow> Card prog" where
  "getCard P r i =
     check (QueryOne P r (select_card i)) (not_found_as (card_not_found i)) (\<lambda>row. ret (card_of_join row))"

text \<open>The details of a new card, inserted after the card.\<close>

definition post_details :: "pg \<Rightarrow> uint32 \<Rightarrow> CardDetails \<Rightarrow> unit prog" where
  "post_details P cardId details =
     (if cd_Movie details \<noteq> None \<and> cd_MovieEdition details \<noteq> None
      then fail BadRequest (New ''exactly one of Movie or MovieEdition must be set, not both'')
      else if cd_Movie details = None \<and> cd_MovieEdition details = None
      then fail BadRequest (New ''exactly one of Movie or MovieEdition must be set'')
      else
        (case cd_Movie details of
           Some movie \<Rightarrow>
             check (Exec P Tx (insert_movie cardId (mo_TmdbId movie) (mo_FanartId movie)))
               (wrapf ''failed to insert movie details: '') (\<lambda>_. ret ())
         | None \<Rightarrow>
             (case cd_MovieEdition details of
                None \<Rightarrow> ret ()
              | Some movieEdition \<Rightarrow>
                  check (QueryOne P Tx (kind_id_count (me_KindId movieEdition)))
                    (wrapf ''could not verify kind existence: '') (\<lambda>kindCount.
                  if kindCount = 0 then fail BadRequest (errorf (kind_not_found (me_KindId movieEdition)))
                  else
                    check (QueryOne P Tx (movie_id_count (me_MovieId movieEdition)))
                      (wrapf ''could not verify movie existence: '') (\<lambda>movieCount.
                    if movieCount = 0
                    then fail BadRequest (errorf (''movie card with id '' @
                           decimal (unat (me_MovieId movieEdition)) @ '' not found''))
                    else
                      check (Exec P Tx (insert_edition cardId (me_KindId movieEdition) (me_MovieId movieEdition)))
                        (wrapf ''failed to insert movie edition details: '') (\<lambda>_. ret ()))))))"

definition PostCard :: "pg \<Rightarrow> PostCardBody option \<Rightarrow> Card prog" where
  "PostCard P body =
     (case body of
        None \<Rightarrow> fail BadRequest (New ''request body is required'')
      | Some b \<Rightarrow>
          if pc_Name b = [] then fail BadRequest (New ''name must be non-empty'')
          else
            with_tx P [] no_begin
              (check (QueryOne P Tx (card_name_count P (pc_Name b)))
                 (wrapf ''could not check for existing card name: '') (\<lambda>n.
               if 0 < n then fail AlreadyExists (New ''card with the given name already exists'')
               else
                 check (QueryOne P Tx (insert_card (pc_Name b) (pc_Note b)))
                   (wrapf ''failed to insert new card: '') (\<lambda>cardId.
                 bind (post_details P cardId (pc_Details b)) (\<lambda>_.
                 bind (getCard P Tx cardId) (\<lambda>card.
                 bind (Commit P) (\<lambda>_. ret card)))))))"

definition DeleteCard :: "pg \<Rightarrow> uint32 \<Rightarrow> unit prog" where
  "DeleteCard P i =
     (if i = 0 then fail BadRequest (New ''non-zero id is required'')
      else
        bind (Exec P Pool (delete_card i)) (\<lambda>rowsAffected.
        if rowsAffected = 0 then fail NotFound (errorf (card_not_found i)) else ret ()))"

definition GetCard :: "pg \<Rightarrow> uint32 \<Rightarrow> Card prog" where
  "GetCard P i =
     (if i = 0 then fail BadRequest (New ''non-zero id is required'')
      else getCard P Pool i)"

section \<open>Patching a card\<close>

definition set_count :: "'a option \<Rightarrow> nat" where
  "set_count x = (if x = None then 0 else 1)"

definition patch_card_name :: "pg \<Rightarrow> uint32 \<Rightarrow> string \<Rightarrow> unit prog" where
  "patch_card_name P i name =
     (if name = [] then fail BadRequest (New ''name cannot be empty'')
      else
        check (Exec P Tx (update_card_name name i)) (wrapf ''could not update name: '') (\<lambda>rowsAffected.
        if rowsAffected = 0 then fail NotFound (errorf (card_not_found i)) else ret ()))"

definition patch_card_note :: "pg \<Rightarrow> uint32 \<Rightarrow> string \<Rightarrow> unit prog" where
  "patch_card_note P i note =
     check (Exec P Tx (update_card_note note i)) (wrapf ''could not update note: '') (\<lambda>rowsAffected.
     if rowsAffected = 0 then fail NotFound (errorf (card_not_found i)) else ret ())"

definition patch_movie :: "pg \<Rightarrow> uint32 \<Rightarrow> Card \<Rightarrow> MoviePatch \<Rightarrow> unit prog" where
  "patch_movie P i currentCard mp =
     (if cd_Movie (ca_Details currentCard) = None
      then fail BadRequest (New ''cannot patch movie fields on a non-movie card'')
      else if set_count (mp_TmdbId mp) + set_count (mp_FanartId mp) + set_count (mp_ReleaseYear mp) \<noteq> 1
      then fail BadRequest (New ''exactly one field must be set in Movie patch'')
      else
        bind (case mp_TmdbId mp of None \<Rightarrow> ret 0 | Some t \<Rightarrow>
                check (Exec P Tx (update_tmdb_id t i)) (wrapf ''could not update tmdb_id: '') ret) (\<lambda>_.
        bind (case mp_FanartId mp of None \<Rightarrow> ret 0 | Some f \<Rightarrow>
                check (Exec P Tx (update_fanart_id f i)) (wrapf ''could not update fanart_id: '') ret) (\<lambda>_.
        bind (case mp_ReleaseYear mp of None \<Rightarrow> ret 0 | Some y \<Rightarrow>
                check (Exec P Tx (update_release_year y i)) (wrapf ''could not update release_year: '') ret) (\<lambda>_.
        ret ()))))"

definition patch_edition :: "pg \<Rightarrow> uint32 \<Rightarrow> Card \<Rightarrow> MovieEditionPatch \<Rightarrow> unit prog" where
  "patch_edition P i currentCard ep =
     (if cd_MovieEdition (ca_Details currentCard) = None
      then fail BadRequest (New ''cannot patch movie_edition fields on a non-movie_edition card'')
      else
        (case ep_KindId ep of
           None \<Rightarrow> fail BadRequest (New ''exactly one field must be set in MovieEdition patch'')
         | Some kind \<Rightarrow>
             check (QueryOne P Tx (kind_id_count kind)) (wrapf ''could not verify kind existence: '') (\<lambda>n.
             if n = 0 then fail BadRequest (errorf (kind_not_found kind))
             else
               check (Exec P Tx (update_edition_kind kind i)) (wrapf ''could not update kind_id: '') (\<lambda>_. ret ()))))"

definition patch_card :: "pg \<Rightarrow> uint32 \<Rightarrow> Card \<Rightarrow> CardPatch \<Rightarrow> unit prog" where
  "patch_card P i currentCard patch =
     bind (case cp_Name patch of None \<Rightarrow> ret () | Some name \<Rightarrow> patch_card_name P i name) (\<lambda>_.
     bind (case cp_Note patch of None \<Rightarrow> ret () | Some note \<Rightarrow> patch_card_note P i note) (\<lambda>_.
     bind (case cp_Movie patch of None \<Rightarrow> ret () | Some mp \<Rightarrow> patch_movie P i currentCard mp) (\<lambda>_.
     bind (case cp_MovieEdition patch of None \<Rightarrow> ret () | Some ep \<Rightarrow> patch_edition P i currentCard ep) (\<lambda>_.
     let fieldsSet = set_count (cp_Name patch) + set_count (cp_Note patch) + set_count (cp_Movie patch) +
                     set_count (cp_MovieEdition patch) in
     if fieldsSet = 0 then fail BadRequest (New ''no valid fields to patch'')
     else if 1 < fieldsSet then fail BadRequest (New ''exactly one field must be set per patch'')
     else ret ()))))"

fun patch_cards :: "pg \<Rightarrow> uint32 \<Rightarrow> Card \<Rightarrow> CardPatch list \<Rightarrow> unit prog" where
  "patch_cards P i currentCard [] = ret ()"
| "patch_cards P i currentCard (p # ps) =
     bind (patch_card P i currentCard p) (\<lambda>_. patch_cards P i currentCard ps)"

definition PatchCard :: "pg \<Rightarrow> uint32 \<Rightarrow> CardPatch list option \<Rightarrow> Card prog" where
  "PatchCard P i body =
     (if i = 0 then fail BadRequest (New ''non-zero id is required'')
      else
        with_tx P [] no_begin
          (case body of
             None \<Rightarrow> fail BadRequest (New ''no patches provided'')
           | Some patches \<Rightarrow>
               bind (getCard P Tx i) (\<lambda>currentCard.
               bind (patch_cards P i currentCard patches) (\<lambda>_.
               bind (getCard P Tx i) (\<lambda>card.
               bind (Commit P) (\<lambda>_. ret card))))))"

section \<open>Atomicity\<close>

lemma atomic_getCard: "atomic P (\<lambda>P. getCard P r i)"
  unfolding getCard_def by (intro atomic_check_ret atomic_QueryOne) simp

lemma quiet_getCard: "quiet (getCard P Tx i)"
  unfolding getCard_def by (intro quiet_intros)

lemma quiet_post_details: "quiet (post_details P i ds)"
  unfolding post_details_def by (intro quiet_intros)

lemma atomic_post_details: "atomic P (\<lambda>P. post_details P i ds)"
  unfolding post_details_def by (intro atomic_intros quiet_intros) simp_all

lemma atomic_PostCard: "atomic P (\<lambda>P. PostCard P body)"
  unfolding PostCard_def
  by (intro atomic_intros quiet_intros atomic_post_details quiet_post_details atomic_getCard quiet_getCard)
    (simp_all add: card_name_count_def)

lemma clean_PostCard: "clean (PostCard (reliable P) body)"
  unfolding PostCard_def by (intro clean_intros quiet_intros quiet_post_details quiet_getCard)

lemma atomic_DeleteCard: "atomic P (\<lambda>P. DeleteCard P i)"
  unfolding DeleteCard_def
  by (intro atomic_if atomic_fail atomic_check_pure atomic_Exec) (simp_all add: fail_def ret_def)

lemmas patch_card_defs = patch_card_name_def patch_card_note_def patch_movie_def patch_edition_def

lemma quiet_patch_card: "quiet (patch_card P i c p)"
  unfolding patch_card_def patch_card_defs Let_def by (intro quiet_intros)

lemma atomic_patch_card: "atomic P (\<lambda>P. patch_card P i c p)"
  unfolding patch_card_def patch_card_defs Let_def by (intro atomic_intros quiet_intros) simp_all

lemma quiet_patch_cards: "quiet (patch_cards P i c ps)"
  by (induction ps) (simp_all add: quiet_intros quiet_patch_card)

lemma atomic_patch_cards: "atomic P (\<lambda>P. patch_cards P i c ps)"
  by (induction ps) (simp_all add: atomic_intros atomic_patch_card quiet_patch_card)

lemma atomic_PatchCard: "atomic P (\<lambda>P. PatchCard P i body)"
  unfolding PatchCard_def
  by (intro atomic_intros quiet_intros atomic_patch_cards quiet_patch_cards atomic_getCard quiet_getCard)

lemma clean_PatchCard: "clean (PatchCard (reliable P) i body)"
  unfolding PatchCard_def by (intro clean_intros quiet_intros quiet_patch_cards quiet_getCard)

section \<open>The listing\<close>

text \<open>Both joins are on primary keys, so each card gives one row.\<close>

definition movie_of :: "db \<Rightarrow> uint32 \<Rightarrow> movie_row option" where
  "movie_of d i = find (\<lambda>m. mv_card_id m = i) (catalog_movies d)"

definition edition_of :: "db \<Rightarrow> uint32 \<Rightarrow> edition_row option" where
  "edition_of d i = find (\<lambda>e. e_card_id e = i) (catalog_movie_editions d)"

definition card_view :: "db \<Rightarrow> card_row \<Rightarrow> Card" where
  "card_view d c = card_of_join (join_row c (movie_of d (c_id c)) (edition_of d (c_id c)))"

lemma left_join_key:
  assumes "keyed f rows"
  shows "left_join (filter (\<lambda>r. f r = i) rows) = [find (\<lambda>r. f r = i) rows]"
proof (cases "find (\<lambda>r. f r = i) rows")
  case None
  then have "filter (\<lambda>r. f r = i) rows = []" by (simp add: find_None_iff filter_empty_conv)
  with None show ?thesis by (simp add: left_join_def)
next
  case (Some r)
  then have "r \<in> set rows" "f r = i" by (auto simp: find_Some_iff)
  with Some keyed_filter_eq [OF assms] show ?thesis by (force simp: left_join_def)
qed

lemma card_joins_map:
  assumes "schema_ok d q"
  shows "card_joins d = map (\<lambda>c. join_row c (movie_of d (c_id c)) (edition_of d (c_id c))) (catalog_cards d)"
proof -
  have "keyed mv_card_id (catalog_movies d)" "keyed e_card_id (catalog_movie_editions d)"
    using assms by (simp_all add: schema_ok_def catalog_ok_def)
  then have "join_card d = (\<lambda>c. [join_row c (movie_of d (c_id c)) (edition_of d (c_id c))])"
    by (intro ext) (simp add: join_card_def left_join_key movie_of_def edition_of_def)
  then show ?thesis by (simp add: card_joins_def concat_map_singleton)
qed

lemma cj_Id_join_row [simp]: "cj_Id (join_row c m e) = c_id c"
  by (simp add: join_row_def)

interpretation card_pages: paged_table list_cards_sql card_joins cj_Id list_cards_stmt
    list_cards_cb card_of_join ListCards
proof
  show "contains list_cards_sql ''@limit''" "contains list_cards_sql ''@lastSeenId''"
    by code_simp+
  show "serial_ok cj_Id max_serial (card_joins d)" if "schema_ok d q" for d q
    using that by (auto simp: card_joins_map [OF that] schema_ok_def catalog_ok_def serial_ok_def
        keyed_def comp_def)
qed (simp_all add: list_cards_stmt_def list_cards_cb_def ListCards_def)

section \<open>Invariants\<close>

lemma details_ok_cong:
  assumes "c_id ` set (catalog_cards d') = c_id ` set (catalog_cards d)"
    and "mv_card_id ` set (catalog_movies d') = mv_card_id ` set (catalog_movies d)"
    and "e_card_id ` set (catalog_movie_editions d') = e_card_id ` set (catalog_movie_editions d)"
  shows "details_ok d' = details_ok d"
proof -
  have "details_ok x = (\<forall>i\<in>c_id ` set (catalog_cards x). one_detail x i)" for x
    by (simp add: details_ok_def)
  then show ?thesis by (simp only: assms one_detail_def)
qed

lemma card_select_keeps [stmt_ok]:
  "stmt_keeps good (list_cards_stmt v lim)"
  "stmt_keeps good (select_card i)"
  "stmt_keeps good (kind_id_count i)"
  by (simp_all add: list_cards_stmt_def select_card_def kind_id_count_def good.stmt_keeps_select
      good.stmt_keeps_int4)

lemma good_card_rows:
  assumes "good d q" and "\<And>r. c_id (g r) = c_id r"
    and "\<forall>c\<in>set (update_where R g (catalog_cards d)). c_name c \<noteq> []"
  shows "good (d\<lparr>catalog_cards := update_where R g (catalog_cards d)\<rparr>) q"
proof -
  have "details_ok (d\<lparr>catalog_cards := update_where R g (catalog_cards d)\<rparr>) = details_ok d"
    using assms(2) by (intro details_ok_cong) simp_all
  with assms show ?thesis
    by (simp add: good_def schema_ok_def catalog_ok_def media_ok_def links_ok_def tasks_ok_def)
qed

lemma update_card_keeps [stmt_ok]:
  assumes "\<And>r. c_id (g r) = c_id r"
  shows "stmt_keeps good (update_card i g)"
  unfolding update_card_def
proof (intro good.stmt_keeps_int4 good.stmt_keeps_modify)
  fix d d' :: db and q x
  let ?rows = "update_where (\<lambda>c. c_id c = i) g (catalog_cards d)"
  assume d: "good d q" and "(let rows = ?rows in
      if \<exists>c\<in>set rows. c_name c = [] \<and> c_id c = i then Inl check_violation
      else Inr (d\<lparr>catalog_cards := rows\<rparr>, count_where (\<lambda>c. c_id c = i) (catalog_cards d))) = Inr (d', x)"
  then have d': "d' = d\<lparr>catalog_cards := ?rows\<rparr>"
    and named: "\<forall>c\<in>set ?rows. c_id c = i \<longrightarrow> c_name c \<noteq> []"
    by (auto simp: Let_def split: if_splits)
  have "\<forall>c\<in>set (catalog_cards d). c_name c \<noteq> []"
    using d by (simp add: good_def schema_ok_def catalog_ok_def)
  with named have "\<forall>c\<in>set ?rows. c_name c \<noteq> []"
    using assms by (auto simp: set_update_where)
  then show "good d' q" unfolding d' using assms by (intro good_card_rows [OF d])
qed

lemma update_movie_keeps [stmt_ok]:
  assumes "\<And>r. mv_card_id (g r) = mv_card_id r"
  shows "stmt_keeps good (update_movie i g)"
  unfolding update_movie_def
proof (intro good.stmt_keeps_int4 good.stmt_keeps_modify)
  fix d d' :: db and q x
  let ?d = "d\<lparr>catalog_movies := update_where (\<lambda>m. mv_card_id m = i) g (catalog_movies d)\<rparr>"
  assume d: "good d q" and "Inr (?d, count_where (\<lambda>m. mv_card_id m = i) (catalog_movies d)) = (Inr (d', x) :: goerr + db \<times> nat)"
  then have d': "d' = ?d" by simp
  have "details_ok ?d = details_ok d"
    using assms by (intro details_ok_cong) simp_all
  with d assms show "good d' q"
    by (simp add: d' good_def schema_ok_def catalog_ok_def media_ok_def links_ok_def tasks_ok_def)
qed

lemma update_edition_kind_keeps [stmt_ok]: "stmt_keeps good (update_edition_kind kind i)"
  unfolding update_edition_kind_def
proof (intro good.stmt_keeps_int4 good.stmt_keeps_modify)
  fix d d' :: db and q x
  let ?es = "update_where (\<lambda>e. e_card_id e = i) (\<lambda>e. e\<lparr>e_kind_id := kind\<rparr>) (catalog_movie_editions d)"
  assume d: "good d q" and "(if i \<in> e_card_id ` set (catalog_movie_editions d) \<and>
        kind \<notin> k_id ` set (movie_edition_kinds d) then Inl foreign_key_violation
      else Inr (d\<lparr>catalog_movie_editions := ?es\<rparr>,
        count_where (\<lambda>e. e_card_id e = i) (catalog_movie_editions d))) = Inr (d', x)"
  then have d': "d' = d\<lparr>catalog_movie_editions := ?es\<rparr>"
    and ok: "i \<in> e_card_id ` set (catalog_movie_editions d) \<longrightarrow> kind \<in> k_id ` set (movie_edition_kinds d)"
    by (auto split: if_splits)
  have "e_kind_id ` set ?es \<subseteq> k_id ` set (movie_edition_kinds d)"
    using ok goodD(4) [OF d] by (auto simp: set_update_where)
  moreover have "details_ok d' = details_ok d"
    unfolding d' by (intro details_ok_cong) simp_all
  ultimately show "good d' q"
    using d by (simp add: d' good_def schema_ok_def catalog_ok_def media_ok_def links_ok_def tasks_ok_def)
qed

lemma delete_card_keeps [stmt_ok]: "stmt_keeps good (delete_card i)"
  unfolding delete_card_def
  by (intro good.stmt_keeps_int4 good.stmt_keeps_modify)
    (auto simp: good_def delete_cards_schema_ok delete_cards_details_ok split: if_splits
      simp del: delete_cards.simps)

lemma card_update_keeps [stmt_ok]:
  "stmt_keeps good (update_card_name name i)" "stmt_keeps good (update_card_note note i)"
  "stmt_keeps good (update_tmdb_id t i)" "stmt_keeps good (update_fanart_id f i)"
  "stmt_keeps good (update_release_year y i)"
  by (auto simp: update_card_name_def update_card_note_def update_tmdb_id_def update_fanart_id_def
      update_release_year_def stmt_keeps_def [of good "\<lambda>now d q. (Inl int4_range, q)"]
      intro!: stmt_ok good.stmt_keeps_int4)

lemma keeps_getCard: "keeps (sess_inv good) (getCard P r i)"
  unfolding getCard_def by (intro good.keeps_intros stmt_ok)

lemma keeps_DeleteCard: "keeps (sess_inv good) (DeleteCard P i)"
  unfolding DeleteCard_def by (intro good.keeps_intros stmt_ok)

lemma keeps_patch_cards: "keeps (sess_inv good) (patch_cards P i c ps)"
proof -
  have "keeps (sess_inv good) (patch_card P i c p)" for p
    unfolding patch_card_def patch_card_defs Let_def by (intro good.keeps_intros card_update_keeps stmt_ok)
  then show ?thesis by (induction ps) (simp_all add: good.keeps_intros)
qed

lemma keeps_PatchCard: "keeps (sess_inv good) (PatchCard P i body)"
  unfolding PatchCard_def by (intro good.keeps_intros keeps_patch_cards keeps_getCard)

section \<open>Creating a card\<close>

lemma card_schema_select [stmt_ok]:
  "stmt_keeps schema_ok (card_name_count P name)" "stmt_keeps schema_ok (kind_id_count i)"
  "stmt_keeps schema_ok (movie_id_count i)" "stmt_keeps schema_ok (select_card i)"
  by (simp_all add: card_name_count_def kind_id_count_def movie_id_count_def select_card_def
      schema.stmt_keeps_select schema.stmt_keeps_int4)

lemma insert_card_keeps [stmt_ok]: "stmt_keeps schema_ok (insert_card name note)"
proof -
  have "seq_le q (q\<lparr>card_seq := card_seq q + 1\<rparr>)" if "card_seq q < max_serial" for q :: seqs
    using word_succ_greater [OF that] by (simp add: seq_le_def)
  moreover have "schema_ok (d\<lparr>catalog_cards := catalog_cards d @ [c]\<rparr>) (q\<lparr>card_seq := card_seq q + 1\<rparr>)"
    if "schema_ok d q" "card_seq q < max_serial" "c_id c = card_seq q + 1" "c_name c \<noteq> []" for d q c
    using that
    by (auto simp: schema_ok_def catalog_ok_def media_ok_def links_ok_def tasks_ok_def serial_ok_snoc)
  ultimately show ?thesis
    by (auto simp: stmt_keeps_def insert_card_def Let_def)
qed

lemma schema_ok_add_movie:
  assumes "schema_ok d q" and "mv_card_id m \<notin> mv_card_id ` set (catalog_movies d)"
    and "mv_card_id m \<in> c_id ` set (catalog_cards d)"
  shows "schema_ok (d\<lparr>catalog_movies := catalog_movies d @ [m]\<rparr>) q"
  using assms
  by (simp add: schema_ok_def catalog_ok_def media_ok_def links_ok_def tasks_ok_def subset_insertI2)

lemma insert_movie_keeps [stmt_ok]: "stmt_keeps schema_ok (insert_movie i t f)"
  unfolding insert_movie_def
  by (intro schema.stmt_keeps_int4 schema.stmt_keeps_modify)
    (auto simp del: not_None_eq intro!: schema_ok_add_movie split: if_split_asm)

lemma schema_ok_add_edition:
  assumes "schema_ok d q" and "e_card_id e \<notin> e_card_id ` set (catalog_movie_editions d)"
    and "e_card_id e \<in> c_id ` set (catalog_cards d)" and "e_kind_id e \<in> k_id ` set (movie_edition_kinds d)"
    and "e_movie_card_id e \<in> mv_card_id ` set (catalog_movies d)"
  shows "schema_ok (d\<lparr>catalog_movie_editions := catalog_movie_editions d @ [e]\<rparr>) q"
  using assms
  by (simp add: schema_ok_def catalog_ok_def media_ok_def links_ok_def tasks_ok_def)

lemma insert_edition_keeps [stmt_ok]: "stmt_keeps schema_ok (insert_edition i kind movie)"
  unfolding insert_edition_def
  by (intro schema.stmt_keeps_int4 schema.stmt_keeps_modify)
    (auto intro!: schema_ok_add_edition split: if_split_asm)

lemma schema_PostCard: "keeps (sess_inv schema_ok) (PostCard P body)"
  unfolding PostCard_def post_details_def getCard_def by (intro schema.keeps_intros stmt_ok)

definition valid_details :: "db \<Rightarrow> CardDetails \<Rightarrow> bool" where
  "valid_details d ds =
     (case (cd_Movie ds, cd_MovieEdition ds) of
        (Some m, None) \<Rightarrow> tmdb_fits (mo_TmdbId m)
      | (None, Some e) \<Rightarrow>
          me_KindId e \<in> k_id ` set (movie_edition_kinds d) \<and> me_MovieId e \<in> mv_card_id ` set (catalog_movies d)
      | _ \<Rightarrow> False)"

definition add_card :: "uint32 \<Rightarrow> PostCardBody \<Rightarrow> db \<Rightarrow> db" where
  "add_card i b d =
     (let d1 = d\<lparr>catalog_cards := catalog_cards d @ [\<lparr>c_id = i, c_name = pc_Name b, c_note = pc_Note b\<rparr>]\<rparr> in
      case (cd_Movie (pc_Details b), cd_MovieEdition (pc_Details b)) of
        (Some m, _) \<Rightarrow>
          d1\<lparr>catalog_movies := catalog_movies d @
              [\<lparr>mv_card_id = i, mv_release_year = None, mv_tmdb_id = mo_TmdbId m, mv_fanart_id = mo_FanartId m\<rparr>]\<rparr>
      | (_, Some e) \<Rightarrow>
          d1\<lparr>catalog_movie_editions := catalog_movie_editions d @
              [\<lparr>e_card_id = i, e_kind_id = me_KindId e, e_movie_card_id = me_MovieId e\<rparr>]\<rparr>
      | _ \<Rightarrow> d1)"

lemma filter_card_joins:
  "filter (\<lambda>r. cj_Id r = i) (card_joins d) = concat (map (join_card d) (filter (\<lambda>c. c_id c = i) (catalog_cards d)))"
proof -
  have one: "filter (\<lambda>r. cj_Id r = i) (join_card d c) = (if c_id c = i then join_card d c else [])" for c
    by (auto simp: join_card_def filter_empty_conv filter_id_conv)
  have "filter (\<lambda>r. cj_Id r = i) (concat (map (join_card d) cs)) =
      concat (map (join_card d) (filter (\<lambda>c. c_id c = i) cs))" for cs
    by (induction cs) (simp_all add: one)
  then show ?thesis by (simp add: card_joins_def)
qed

lemma fresh_card:
  assumes "schema_ok d q" and "card_seq q < max_serial"
  shows "card_seq q + 1 \<notin> c_id ` set (catalog_cards d)"
    and "card_seq q + 1 \<notin> mv_card_id ` set (catalog_movies d)"
    and "card_seq q + 1 \<notin> e_card_id ` set (catalog_movie_editions d)"
    and "card_seq q + 1 \<le> max_serial"
proof -
  have "card_seq q < card_seq q + 1" using assms(2) by (rule word_succ_greater)
  then show c: "card_seq q + 1 \<notin> c_id ` set (catalog_cards d)"
    using assms(1) by (auto simp: schema_ok_def catalog_ok_def serial_ok_def)
  then show "card_seq q + 1 \<notin> mv_card_id ` set (catalog_movies d)"
    and "card_seq q + 1 \<notin> e_card_id ` set (catalog_movie_editions d)"
    using assms(1) by (auto simp: schema_ok_def catalog_ok_def)
  show "card_seq q + 1 \<le> max_serial" using assms(2) by (rule inc_le)
qed

lemma add_card_join:
  assumes "schema_ok d q" and "card_seq q < max_serial" and "valid_details d (pc_Details b)"
    and i: "i = card_seq q + 1"
  shows "\<exists>r. filter (\<lambda>r. cj_Id r = i) (card_joins (add_card i b d)) = [r] \<and>
    card_of_join r = \<lparr>ca_Id = i, ca_Name = pc_Name b, ca_Note = pc_Note b, ca_Details = pc_Details b\<rparr>"
proof -
  note fresh = fresh_card [OF assms(1,2), folded i]
  show ?thesis
    using assms(3) fresh(1-3)
    by (auto simp: valid_details_def add_card_def filter_card_joins join_card_def left_join_def
        filter_key_absent join_row_def card_of_join_def split: option.splits)
qed

definition card_name_taken :: "pg \<Rightarrow> db \<Rightarrow> string \<Rightarrow> bool" where
  "card_name_taken P d name = (0 < count_where (\<lambda>c. sql_lower P (c_name c) = sql_lower P name) (catalog_cards d))"

lemma post_details_outcome:
  assumes "schema_ok d q0" and "card_seq q0 < max_serial" and "valid_details d (pc_Details b)"
    and i: "i = card_seq q0 + 1"
  shows "\<exists>n'. outcome (check (post_details (reliable P) i (pc_Details b)) w k)
      (in_tx s lvl t0 n (d\<lparr>catalog_cards := catalog_cards d @ [\<lparr>c_id = i, c_name = pc_Name b, c_note = pc_Note b\<rparr>]\<rparr>) q) =
    outcome (k ()) (in_tx s lvl t0 n' (add_card i b d) q)"
proof -
  note fresh = fresh_card [OF assms(1,2), folded i]
  have keyed: "keyed k_id (movie_edition_kinds d)" "keyed mv_card_id (catalog_movies d)"
    and kind_le: "\<forall>k\<in>set (movie_edition_kinds d). k_id k \<le> max_serial"
    and movie_le: "\<forall>m\<in>set (catalog_movies d). mv_card_id m \<le> max_serial"
    using assms(1) by (auto simp: schema_ok_def catalog_ok_def serial_ok_def)
  note eval = post_details_def wp_rules insert_movie_def modify_stmt_def kind_id_count_def
    movie_id_count_def select_stmt_def insert_edition_def add_card_def
  consider (movie) m where "cd_Movie (pc_Details b) = Some m" "cd_MovieEdition (pc_Details b) = None"
      "tmdb_fits (mo_TmdbId m)"
    | (edition) e where "cd_Movie (pc_Details b) = None" "cd_MovieEdition (pc_Details b) = Some e"
      "me_KindId e \<in> k_id ` set (movie_edition_kinds d)" "me_MovieId e \<in> mv_card_id ` set (catalog_movies d)"
    using assms(3) by (auto simp: valid_details_def split: option.splits)
  then show ?thesis
  proof cases
    case movie
    with fresh show ?thesis by (auto simp: eval)
  next
    case edition
    then have "me_KindId e \<le> max_serial" "me_MovieId e \<le> max_serial" using kind_le movie_le by auto
    with edition fresh show ?thesis by (auto simp: eval count_where_key [OF keyed(1)] count_where_key [OF keyed(2)])
  qed
qed

lemma PostCard_taken:
  assumes "pc_Name b \<noteq> []" and "card_name_taken P (committed s) (pc_Name b)"
  shows "outcome (PostCard (reliable P) (Some b)) s =
    (Err (HttpError ProblemAlreadyExists 409 (New ''card with the given name already exists'')),
     committed s, seqs_of s)"
  using assms
  by (simp add: PostCard_def wp_rules card_name_count_def select_stmt_def card_name_taken_def)

lemma PostCard_creates:
  assumes "good (committed s) (seqs_of s)" and "pc_Name b \<noteq> []" and "\<not> card_name_taken P (committed s) (pc_Name b)"
    and "card_seq (seqs_of s) < max_serial" and "valid_details (committed s) (pc_Details b)"
    and i: "i = card_seq (seqs_of s) + 1"
  shows "outcome (PostCard (reliable P) (Some b)) s =
    (Ok \<lparr>ca_Id = i, ca_Name = pc_Name b, ca_Note = pc_Note b, ca_Details = pc_Details b\<rparr>,
     add_card i b (committed s), (seqs_of s)\<lparr>card_seq := i\<rparr>)"
proof -
  let ?d = "committed s" and ?q = "seqs_of s"
  have ok: "schema_ok ?d ?q" using assms(1) by (simp add: good_def)
  let ?d1 = "?d\<lparr>catalog_cards := catalog_cards ?d @ [\<lparr>c_id = i, c_name = pc_Name b, c_note = pc_Note b\<rparr>]\<rparr>"
  obtain r where r: "filter (\<lambda>r. cj_Id r = i) (card_joins (add_card i b ?d)) = [r]"
      "card_of_join r = \<lparr>ca_Id = i, ca_Name = pc_Name b, ca_Note = pc_Note b, ca_Details = pc_Details b\<rparr>"
    using add_card_join [OF ok assms(4,5) i] by blast
  have "i \<le> max_serial" using fresh_card(4) [OF ok assms(4)] i by simp
  with r have sel: "select_card i now (add_card i b ?d) q = (Inr (add_card i b ?d, [r]), q)" for now q
    by (simp add: select_card_def select_stmt_def)
  let ?rest = "\<lambda>_. bind (getCard (reliable P) Tx i) (\<lambda>card. bind (Commit (reliable P)) (\<lambda>_. ret card))"
  have post: "outcome (PostCard (reliable P) (Some b)) s =
      outcome (bind (post_details (reliable P) i (pc_Details b)) ?rest)
        (in_tx s None (clock_at P (calls s)) (Suc (Suc (Suc (calls s)))) ?d1 (?q\<lparr>card_seq := i\<rparr>))"
    using assms(2-4)
    by (simp add: PostCard_def wp_rules card_name_count_def select_stmt_def card_name_taken_def
        insert_card_def Let_def i count_where_pos)
  obtain n' where "outcome (bind (post_details (reliable P) i (pc_Details b)) ?rest)
        (in_tx s None (clock_at P (calls s)) (Suc (Suc (Suc (calls s)))) ?d1 (?q\<lparr>card_seq := i\<rparr>)) =
      outcome (?rest ()) (in_tx s None (clock_at P (calls s)) n' (add_card i b ?d) (?q\<lparr>card_seq := i\<rparr>))"
    using post_details_outcome [OF ok assms(4,5) i] by blast
  then show ?thesis
    unfolding post using r(2) sel by (simp add: getCard_def wp_rules)
qed

lemma add_card_details:
  assumes "good d q" and "card_seq q < max_serial" and "valid_details d (pc_Details b)"
  shows "details_ok (add_card (card_seq q + 1) b d)"
proof -
  have "schema_ok d q" using assms(1) by (simp add: good_def)
  note fresh = fresh_card [OF this assms(2)]
  then have "c_id c \<noteq> card_seq q + 1" if "c \<in> set (catalog_cards d)" for c using that by force
  with assms fresh show ?thesis
    by (auto simp: good_def details_ok_def one_detail_def add_card_def valid_details_def split: option.splits)
qed

lemma post_details_invalid:
  assumes "schema_ok d q0" and "card_seq q0 < max_serial" and "\<not> valid_details d (pc_Details b)"
    and i: "i = card_seq q0 + 1"
  shows "\<exists>e q'. outcome (bind (post_details (reliable P) i (pc_Details b)) k)
      (in_tx s lvl t0 n (d\<lparr>catalog_cards := catalog_cards d @ [\<lparr>c_id = i, c_name = pc_Name b, c_note = pc_Note b\<rparr>]\<rparr>) q) =
    (Err e, committed s, q')"
proof -
  note fresh = fresh_card [OF assms(1,2), folded i]
  have keyed: "keyed k_id (movie_edition_kinds d)" "keyed mv_card_id (catalog_movies d)"
    using assms(1) by (auto simp: schema_ok_def catalog_ok_def serial_ok_def)
  show ?thesis
    using assms(3) fresh
    by (auto simp: valid_details_def post_details_def wp_rules insert_movie_def modify_stmt_def
        kind_id_count_def movie_id_count_def select_stmt_def insert_edition_def int4_def
        count_where_key [OF keyed(1)] count_where_key [OF keyed(2)] split: option.splits)
qed

lemma PostCard_refuses:
  assumes "good (committed s) (seqs_of s)" and "card_seq (seqs_of s) < max_serial"
    and "\<not> valid_details (committed s) (pc_Details b)"
  shows "\<exists>e q'. outcome (PostCard (reliable P) (Some b)) s = (Err e, committed s, q')"
proof (cases "pc_Name b = [] \<or> card_name_taken P (committed s) (pc_Name b)")
  case True
  then show ?thesis
    by (cases "pc_Name b = []") (simp_all add: PostCard_taken, simp add: PostCard_def wp_rules)
next
  case False
  have ok: "schema_ok (committed s) (seqs_of s)" using assms(1) by (simp add: good_def)
  with False assms(2) post_details_invalid [OF ok assms(2,3) refl] show ?thesis
    by (simp add: PostCard_def wp_rules card_name_count_def select_stmt_def card_name_taken_def
        insert_card_def Let_def count_where_pos)
qed

lemma PostCard_exhausted:
  assumes "\<not> card_seq (seqs_of s) < max_serial"
  shows "\<not> is_Ok (fst (PostCard (reliable P) body s))"
proof (cases body)
  case None
  then show ?thesis by (simp add: PostCard_def fail_def)
next
  case (Some b)
  have "\<not> is_Ok (fst (outcome (PostCard (reliable P) (Some b)) s))"
    using assms
    by (simp add: PostCard_def wp_rules card_name_count_def select_stmt_def insert_card_def Let_def)
  with Some show ?thesis by (simp add: outcome_def)
qed

text \<open>The reliable run of PostCard either changes nothing or adds the card with valid details.\<close>

lemma PostCard_reliable_details:
  assumes "good (committed s) (seqs_of s)"
  shows "details_ok (committed (snd (PostCard (reliable P) body s)))"
proof (cases "is_Ok (fst (PostCard (reliable P) body s))")
  case False
  then have "committed (snd (PostCard (reliable P) body s)) = committed s"
    using clean_PostCard [of P body] by (auto simp: clean_def)
  then show ?thesis using assms by (simp add: good_def)
next
  case True
  then obtain b where b: "body = Some b" by (cases body) (simp_all add: PostCard_def fail_def)
  have ok: "is_Ok (fst (outcome (PostCard (reliable P) (Some b)) s))"
    using True b by (simp add: outcome_def)
  have seq: "card_seq (seqs_of s) < max_serial" using True PostCard_exhausted by blast
  have "pc_Name b \<noteq> []" using ok by (auto simp: PostCard_def wp_rules)
  moreover have "\<not> card_name_taken P (committed s) (pc_Name b)"
    using ok PostCard_taken [OF calculation] by auto
  moreover have valid: "valid_details (committed s) (pc_Details b)"
  proof (rule ccontr)
    assume "\<not> valid_details (committed s) (pc_Details b)"
    then obtain e q' where "outcome (PostCard (reliable P) (Some b)) s = (Err e, committed s, q')"
      using PostCard_refuses [OF assms seq] by blast
    with ok show False by simp
  qed
  ultimately have "committed (snd (PostCard (reliable P) body s)) = add_card (card_seq (seqs_of s) + 1) b (committed s)"
    using PostCard_creates [OF assms _ _ seq _ refl, of b P] by (simp add: b outcome_def)
  then show ?thesis using add_card_details [OF assms seq valid] by simp
qed

lemma PostCard_at_rest:
  assumes "at_rest s"
  shows "at_rest (snd (PostCard P body s))"
proof -
  let ?s = "snd (PostCard P body s)"
  have good: "good (committed s) (seqs_of s)" and "txn s = None" using assms by (simp_all add: at_rest_def)
  then have "details_ok (committed ?s)"
    using atomic_committed [OF atomic_PostCard [of P body], of details_ok s] PostCard_reliable_details [of s P body]
    by (simp add: outcome_def good_def)
  moreover have "sess_inv schema_ok ?s"
    using schema_PostCard good \<open>txn s = None\<close> by (auto simp: keeps_def sess_inv_def good_def)
  moreover have "idle (PostCard P body)" unfolding PostCard_def by (intro idle_intros)
  ultimately show ?thesis
    using \<open>txn s = None\<close> by (simp add: at_rest_def good_def sess_inv_def keeps_def)
qed

lemma PostCard_Ok_iff:
  assumes "good (committed s) (seqs_of s)"
  shows "is_Ok (fst (PostCard (reliable P) body s)) \<longleftrightarrow>
    (\<exists>b. body = Some b \<and> pc_Name b \<noteq> [] \<and> \<not> card_name_taken P (committed s) (pc_Name b) \<and>
         valid_details (committed s) (pc_Details b) \<and> card_seq (seqs_of s) < max_serial)"
proof (cases body)
  case None
  then show ?thesis by (simp add: PostCard_def fail_def)
next
  case (Some b)
  have fst: "fst (PostCard (reliable P) x s) = fst (outcome (PostCard (reliable P) x) s)" for x
    by (simp add: outcome_def)
  show ?thesis
  proof (cases "card_seq (seqs_of s) < max_serial")
    case False
    then show ?thesis using PostCard_exhausted [OF False] by blast
  next
    case seq: True
    consider "pc_Name b = []" | "pc_Name b \<noteq> []" "card_name_taken P (committed s) (pc_Name b)"
      | "\<not> valid_details (committed s) (pc_Details b)"
      | "pc_Name b \<noteq> []" "\<not> card_name_taken P (committed s) (pc_Name b)" "valid_details (committed s) (pc_Details b)"
      by blast
    then show ?thesis
    proof cases
      case 1
      then show ?thesis by (simp add: Some PostCard_def fail_def)
    next
      case 2
      then show ?thesis using PostCard_taken [OF 2] by (simp add: fst Some)
    next
      case 3
      then show ?thesis using PostCard_refuses [OF assms seq 3, of P] by (auto simp: fst Some)
    next
      case 4
      then show ?thesis using seq PostCard_creates [OF assms 4(1,2) seq 4(3) refl] by (simp add: fst Some)
    qed
  qed
qed

end
