(* ===== verification/VM_CardOps.thy ===== *)
theory VM_CardOps
  imports VM_Cards
begin

text \<open>
  What reading, deleting and patching a card do, on a session whose driver does not fail: the
  answer of the handler and the tables it leaves.
\<close>

section \<open>Reading and deleting a card\<close>

lemma select_card_keyed:
  assumes keyed: "keyed c_id (catalog_cards d)" "keyed mv_card_id (catalog_movies d)"
      "keyed e_card_id (catalog_movie_editions d)"
    and "i \<le> max_serial" and c: "c \<in> set (catalog_cards d)" "c_id c = i"
  shows "\<exists>r. (\<forall>now q'. select_card i now d q' = (Inr (d, [r]), q')) \<and> card_of_join r = card_view d c"
proof -
  have "filter (\<lambda>c. c_id c = i) (catalog_cards d) = [c]"
    using keyed_filter_eq [OF keyed(1) c(1)] c(2) by simp
  then show ?thesis
    using assms(4) c(2) by (simp add: select_card_def select_stmt_def filter_card_joins join_card_def
        left_join_key [OF keyed(2)] left_join_key [OF keyed(3)] card_view_def movie_of_def edition_of_def)
qed

lemma select_card_view:
  assumes "schema_ok d q" and "i \<le> max_serial" and "c \<in> set (catalog_cards d)" and "c_id c = i"
  shows "\<exists>r. (\<forall>now q'. select_card i now d q' = (Inr (d, [r]), q')) \<and> card_of_join r = card_view d c"
  using assms by (intro select_card_keyed) (simp_all add: schema_ok_def catalog_ok_def serial_ok_def)

lemma select_card_absent:
  "i \<le> max_serial \<Longrightarrow> i \<notin> c_id ` set (catalog_cards d) \<Longrightarrow> select_card i now d q' = (Inr (d, []), q')"
  by (simp add: select_card_def select_stmt_def filter_card_joins filter_key_absent)

lemma GetCard_found:
  assumes "good (committed s) q0" and "i \<noteq> 0" and "i \<le> max_serial"
    and "c \<in> set (catalog_cards (committed s))" and "c_id c = i"
  shows "outcome (GetCard (reliable P) i) s = (Ok (card_view (committed s) c), committed s, seqs_of s)"
proof -
  have "schema_ok (committed s) q0" using assms(1) by (simp add: good_def)
  then obtain r where "\<And>now q'. select_card i now (committed s) q' = (Inr (committed s, [r]), q')"
      "card_of_join r = card_view (committed s) c"
    using select_card_view assms(3-5) by blast
  with assms(2) show ?thesis by (simp add: GetCard_def getCard_def wp_rules)
qed

lemma GetCard_absent:
  assumes "i \<noteq> 0" and "i \<le> max_serial" and "i \<notin> c_id ` set (catalog_cards (committed s))"
  shows "outcome (GetCard (reliable P) i) s =
    (Err (HttpError ProblemNotFound 404 (errorf (card_not_found i))), committed s, seqs_of s)"
  using assms by (simp add: GetCard_def getCard_def wp_rules select_card_absent not_found_as_def)

lemma GetCard_added:
  assumes "good d q" and "card_seq q < max_serial" and "valid_details d (pc_Details b)"
    and i: "i = card_seq q + 1" and "committed s = add_card i b d"
  shows "outcome (GetCard (reliable P) i) s =
    (Ok \<lparr>ca_Id = i, ca_Name = pc_Name b, ca_Note = pc_Note b, ca_Details = pc_Details b\<rparr>,
     add_card i b d, seqs_of s)"
proof -
  have ok: "schema_ok d q" using assms(1) by (simp add: good_def)
  obtain r where r: "filter (\<lambda>r. cj_Id r = i) (card_joins (add_card i b d)) = [r]"
      "card_of_join r = \<lparr>ca_Id = i, ca_Name = pc_Name b, ca_Note = pc_Note b, ca_Details = pc_Details b\<rparr>"
    using add_card_join [OF ok assms(2,3) i] by blast
  have "i \<le> max_serial" using fresh_card(4) [OF ok assms(2)] i by simp
  moreover have "i \<noteq> 0"
    using word_succ_greater [OF assms(2)] i by (metis word_not_simps(1))
  ultimately show ?thesis
    using r by (simp add: GetCard_def getCard_def wp_rules select_card_def select_stmt_def assms(5))
qed

lemma DeleteCard_cascade:
  assumes "good (committed s) q0" and "i \<noteq> 0" and "i \<le> max_serial"
    and "i \<in> c_id ` set (catalog_cards (committed s))"
  shows "outcome (DeleteCard (reliable P) i) s =
    (Ok (), drop_cards (doomed (committed s) i) (committed s), seqs_of s)"
proof -
  have ok: "catalog_ok (committed s) q0" "details_ok (committed s)" "keyed c_id (catalog_cards (committed s))"
    using assms(1) by (simp_all add: good_def schema_ok_def catalog_ok_def serial_ok_def)
  note closed = delete_card_closed_form [OF ok(1,2)]
  show ?thesis
    using assms(2-) by (simp add: DeleteCard_def wp_rules delete_card_def modify_stmt_def closed
        count_where_key [OF ok(3)] del: delete_cards.simps)
qed

lemma DeleteCard_absent:
  assumes "i \<noteq> 0" and "i \<le> max_serial" and "i \<notin> c_id ` set (catalog_cards (committed s))"
  shows "outcome (DeleteCard (reliable P) i) s =
    (Err (HttpError ProblemNotFound 404 (errorf (card_not_found i))), committed s, seqs_of s)"
  using assms by (simp add: DeleteCard_def wp_rules delete_card_def modify_stmt_def del: delete_cards.simps)

lemma clean_DeleteCard: "clean (DeleteCard (reliable P) i)"
proof -
  have "d' = d" if "delete_card i now d q = (Inr (d', 0), q')" for now d q d' q'
    using that by (auto simp: delete_card_def int4_def modify_stmt_def split: if_splits)
  then show ?thesis unfolding DeleteCard_def by (intro clean_intros clean_Exec_rows)
qed

section \<open>Patching a card\<close>

definition apply_movie_patch :: "MoviePatch \<Rightarrow> movie_row \<Rightarrow> movie_row" where
  "apply_movie_patch mp m =
     (case mp_TmdbId mp of
        Some t \<Rightarrow> m\<lparr>mv_tmdb_id := Some t\<rparr>
      | None \<Rightarrow>
          (case mp_FanartId mp of
             Some f \<Rightarrow> m\<lparr>mv_fanart_id := Some f\<rparr>
           | None \<Rightarrow>
               (case mp_ReleaseYear mp of Some y \<Rightarrow> m\<lparr>mv_release_year := Some y\<rparr> | None \<Rightarrow> m)))"

definition movie_patch_ok :: "MoviePatch \<Rightarrow> bool" where
  "movie_patch_ok mp =
     (set_count (mp_TmdbId mp) + set_count (mp_FanartId mp) + set_count (mp_ReleaseYear mp) = 1 \<and>
      tmdb_fits (mp_TmdbId mp) \<and>
      (case mp_ReleaseYear mp of None \<Rightarrow> True | Some y \<Rightarrow> y \<le> max_serial))"

definition card_patch_ok :: "db \<Rightarrow> uint32 \<Rightarrow> CardPatch \<Rightarrow> bool" where
  "card_patch_ok d i p =
     (set_count (cp_Name p) + set_count (cp_Note p) + set_count (cp_Movie p) + set_count (cp_MovieEdition p) = 1 \<and>
      cp_Name p \<noteq> Some [] \<and>
      (case cp_Movie p of None \<Rightarrow> True
       | Some mp \<Rightarrow> i \<in> mv_card_id ` set (catalog_movies d) \<and> movie_patch_ok mp) \<and>
      (case cp_MovieEdition p of None \<Rightarrow> True
       | Some ep \<Rightarrow> i \<in> e_card_id ` set (catalog_movie_editions d) \<and>
           (case ep_KindId ep of None \<Rightarrow> False | Some k \<Rightarrow> k \<in> k_id ` set (movie_edition_kinds d))))"

definition apply_card_patch :: "uint32 \<Rightarrow> CardPatch \<Rightarrow> db \<Rightarrow> db" where
  "apply_card_patch i p d = d\<lparr>
     catalog_cards := update_where (\<lambda>c. c_id c = i)
       (\<lambda>c. c\<lparr>c_name := (case cp_Name p of Some n \<Rightarrow> n | None \<Rightarrow> c_name c),
              c_note := (case cp_Note p of Some n \<Rightarrow> Some n | None \<Rightarrow> c_note c)\<rparr>) (catalog_cards d),
     catalog_movies := update_where (\<lambda>m. mv_card_id m = i)
       (case cp_Movie p of Some mp \<Rightarrow> apply_movie_patch mp | None \<Rightarrow> (\<lambda>m. m)) (catalog_movies d),
     catalog_movie_editions := update_where (\<lambda>e. e_card_id e = i)
       (case cp_MovieEdition p of
          Some ep \<Rightarrow> (case ep_KindId ep of Some k \<Rightarrow> (\<lambda>e. e\<lparr>e_kind_id := k\<rparr>) | None \<Rightarrow> (\<lambda>e. e))
        | None \<Rightarrow> (\<lambda>e. e)) (catalog_movie_editions d)\<rparr>"

text \<open>What the loop over the patches relies on, and keeps.\<close>

definition patch_ready :: "db \<Rightarrow> uint32 \<Rightarrow> Card \<Rightarrow> bool" where
  "patch_ready d i cur =
     (i \<le> max_serial \<and> i \<in> c_id ` set (catalog_cards d) \<and> keyed c_id (catalog_cards d) \<and>
      (\<forall>c\<in>set (catalog_cards d). c_name c \<noteq> []) \<and>
      serial_ok k_id max_serial (movie_edition_kinds d) \<and>
      (cd_Movie (ca_Details cur) \<noteq> None \<longleftrightarrow> i \<in> mv_card_id ` set (catalog_movies d)) \<and>
      (cd_MovieEdition (ca_Details cur) \<noteq> None \<longleftrightarrow> i \<in> e_card_id ` set (catalog_movie_editions d)))"

lemma apply_movie_patch_id [simp]: "mv_card_id (apply_movie_patch mp m) = mv_card_id m"
  by (simp add: apply_movie_patch_def split: option.splits)

lemma apply_card_patch_keys [simp]:
  "c_id ` set (catalog_cards (apply_card_patch i p d)) = c_id ` set (catalog_cards d)"
  "keyed c_id (catalog_cards (apply_card_patch i p d)) = keyed c_id (catalog_cards d)"
  "mv_card_id ` set (catalog_movies (apply_card_patch i p d)) = mv_card_id ` set (catalog_movies d)"
  "e_card_id ` set (catalog_movie_editions (apply_card_patch i p d)) = e_card_id ` set (catalog_movie_editions d)"
  "movie_edition_kinds (apply_card_patch i p d) = movie_edition_kinds d"
  by (simp_all add: apply_card_patch_def split: option.splits)

lemma patch_ready_apply:
  assumes "patch_ready d i cur" and "cp_Name p \<noteq> Some []"
  shows "patch_ready (apply_card_patch i p d) i cur"
proof -
  have "\<forall>c\<in>set (catalog_cards (apply_card_patch i p d)). c_name c \<noteq> []"
    using assms by (auto simp: patch_ready_def apply_card_patch_def set_update_where split: option.splits)
  with assms show ?thesis by (simp add: patch_ready_def)
qed

lemma card_patch_ok_apply [simp]: "card_patch_ok (apply_card_patch i p d) j = card_patch_ok d j"
  by (intro ext) (simp only: card_patch_ok_def apply_card_patch_keys)

lemma update_where_id [simp]: "update_where R (\<lambda>x. x) rows = rows"
  by (simp add: update_where_def)

lemma update_movie_tx:
  assumes "i \<le> max_serial"
  shows "update_movie i g t0 d q = (Inr (d\<lparr>catalog_movies := update_where (\<lambda>m. mv_card_id m = i) g (catalog_movies d)\<rparr>,
    count_where (\<lambda>m. mv_card_id m = i) (catalog_movies d)), q)"
  using assms by (simp add: update_movie_def modify_stmt_def)

lemma update_card_tx:
  assumes "patch_ready d i cur" and "\<And>c. c_id (g c) = c_id c" and "\<And>c. c_name c \<noteq> [] \<Longrightarrow> c_name (g c) \<noteq> []"
  shows "update_card i g t0 d q = (Inr (d\<lparr>catalog_cards := update_where (\<lambda>c. c_id c = i) g (catalog_cards d)\<rparr>, 1), q)"
proof -
  have "c_name c \<noteq> []" if "c \<in> set (update_where (\<lambda>c. c_id c = i) g (catalog_cards d))" for c
    using that assms by (auto simp: patch_ready_def set_update_where)
  moreover have "count_where (\<lambda>c. c_id c = i) (catalog_cards d) = 1"
    using assms(1) by (simp add: patch_ready_def count_where_key)
  ultimately show ?thesis
    using assms(1) by (auto simp: patch_ready_def update_card_def modify_stmt_def Let_def)
qed

lemma patch_card_outcome:
  assumes ready: "patch_ready d i cur" and ok: "card_patch_ok d i p"
  shows "\<exists>n'. outcome (check (patch_card (reliable P) i cur p) w k) (in_tx s lvl t0 n d q) =
    outcome (k ()) (in_tx s lvl t0 n' (apply_card_patch i p d) q)"
proof -
  have i: "i \<le> max_serial" using ready by (simp add: patch_ready_def)
  note eval = patch_card_def patch_card_defs wp_rules set_count_def apply_card_patch_def Let_def
  consider (name) nm where "cp_Name p = Some nm" "nm \<noteq> []" "cp_Note p = None" "cp_Movie p = None" "cp_MovieEdition p = None"
    | (noted) nt where "cp_Name p = None" "cp_Note p = Some nt" "cp_Movie p = None" "cp_MovieEdition p = None"
    | (movie) mp where "cp_Name p = None" "cp_Note p = None" "cp_Movie p = Some mp" "cp_MovieEdition p = None"
        "cd_Movie (ca_Details cur) \<noteq> None" "movie_patch_ok mp"
    | (edition) ep kd where "cp_Name p = None" "cp_Note p = None" "cp_Movie p = None" "cp_MovieEdition p = Some ep"
        "cd_MovieEdition (ca_Details cur) \<noteq> None" "ep_KindId ep = Some kd" "kd \<in> k_id ` set (movie_edition_kinds d)"
    using ok ready by (auto simp: card_patch_ok_def patch_ready_def set_count_def split: option.splits if_splits)
  then show ?thesis
  proof cases
    case name
    then show ?thesis by (auto simp: eval update_card_name_def update_card_tx [OF ready])
  next
    case noted
    then show ?thesis by (auto simp: eval update_card_note_def update_card_tx [OF ready])
  next
    case movie
    then show ?thesis
      using i by (auto simp: eval movie_patch_ok_def update_tmdb_id_def update_fanart_id_def
          update_release_year_def update_movie_tx apply_movie_patch_def [abs_def] split: option.splits if_splits)
  next
    case edition
    moreover have "keyed k_id (movie_edition_kinds d)" and "kd \<le> max_serial"
      using ready edition(7) by (auto simp: patch_ready_def serial_ok_def)
    ultimately show ?thesis
      using i by (auto simp: eval kind_id_count_def select_stmt_def update_edition_kind_def
          modify_stmt_def count_where_key)
  qed
qed

lemma patch_cards_outcome:
  assumes "patch_ready d i cur" and "list_all (card_patch_ok d i) ps"
  shows "\<exists>n'. outcome (check (patch_cards (reliable P) i cur ps) w k) (in_tx s lvl t0 n d q) =
    outcome (k ()) (in_tx s lvl t0 n' (fold (apply_card_patch i) ps d) q)"
  using assms
proof (induction ps arbitrary: d n)
  case Nil
  then show ?case by (auto simp: wp_rules)
next
  case (Cons p ps)
  then have p: "card_patch_ok d i p" and ps: "list_all (card_patch_ok d i) ps" by simp_all
  obtain n1 where n1: "outcome (check (patch_card (reliable P) i cur p) w (\<lambda>_. check (patch_cards (reliable P) i cur ps) w k))
      (in_tx s lvl t0 n d q) = outcome (check (patch_cards (reliable P) i cur ps) w k) (in_tx s lvl t0 n1 (apply_card_patch i p d) q)"
    using patch_card_outcome [OF Cons.prems(1) p] by blast
  have "patch_ready (apply_card_patch i p d) i cur"
    using Cons.prems(1) p by (intro patch_ready_apply) (simp_all add: card_patch_ok_def)
  then have "\<exists>n'. outcome (check (patch_cards (reliable P) i cur ps) w k) (in_tx s lvl t0 n1 (apply_card_patch i p d) q) =
      outcome (k ()) (in_tx s lvl t0 n' (fold (apply_card_patch i) ps (apply_card_patch i p d)) q)"
    using ps by (intro Cons.IH) simp_all
  with n1 show ?case by (simp add: check_assoc)
qed

lemma card_view_details:
  assumes "good d q" and "c \<in> set (catalog_cards d)"
  shows "cd_Movie (ca_Details (card_view d c)) \<noteq> None \<longleftrightarrow> c_id c \<in> mv_card_id ` set (catalog_movies d)"
    and "cd_MovieEdition (ca_Details (card_view d c)) \<noteq> None \<longleftrightarrow> c_id c \<in> e_card_id ` set (catalog_movie_editions d)"
proof -
  have m: "movie_of d i = None \<longleftrightarrow> i \<notin> mv_card_id ` set (catalog_movies d)" for i
    by (auto simp: movie_of_def find_None_iff)
  have e: "edition_of d i = None \<longleftrightarrow> i \<notin> e_card_id ` set (catalog_movie_editions d)" for i
    by (auto simp: edition_of_def find_None_iff)
  have "one_detail d (c_id c)" using assms by (simp add: good_def details_ok_def)
  then show "cd_Movie (ca_Details (card_view d c)) \<noteq> None \<longleftrightarrow> c_id c \<in> mv_card_id ` set (catalog_movies d)"
    and "cd_MovieEdition (ca_Details (card_view d c)) \<noteq> None \<longleftrightarrow> c_id c \<in> e_card_id ` set (catalog_movie_editions d)"
    using m [of "c_id c"] e [of "c_id c"]
    by (simp_all add: card_view_def card_of_join_def join_row_def one_detail_def)
qed

lemma card_view_ready:
  assumes "good d q" and "i \<le> max_serial" and "c \<in> set (catalog_cards d)" and "c_id c = i"
  shows "patch_ready d i (card_view d c)"
  using assms card_view_details [OF assms(1,3)]
  by (auto simp: patch_ready_def good_def schema_ok_def catalog_ok_def serial_ok_def)

lemma fold_patch_keys:
  "c_id ` set (catalog_cards (fold (apply_card_patch i) ps d)) = c_id ` set (catalog_cards d)"
  "keyed c_id (catalog_cards (fold (apply_card_patch i) ps d)) = keyed c_id (catalog_cards d)"
  "keyed mv_card_id (catalog_movies (fold (apply_card_patch i) ps d)) = keyed mv_card_id (catalog_movies d)"
  "keyed e_card_id (catalog_movie_editions (fold (apply_card_patch i) ps d)) = keyed e_card_id (catalog_movie_editions d)"
proof -
  have "keyed mv_card_id (catalog_movies (apply_card_patch i p d)) = keyed mv_card_id (catalog_movies d)"
    "keyed e_card_id (catalog_movie_editions (apply_card_patch i p d)) = keyed e_card_id (catalog_movie_editions d)" for p d
    by (simp_all add: apply_card_patch_def split: option.splits)
  then show "c_id ` set (catalog_cards (fold (apply_card_patch i) ps d)) = c_id ` set (catalog_cards d)"
    "keyed c_id (catalog_cards (fold (apply_card_patch i) ps d)) = keyed c_id (catalog_cards d)"
    "keyed mv_card_id (catalog_movies (fold (apply_card_patch i) ps d)) = keyed mv_card_id (catalog_movies d)"
    "keyed e_card_id (catalog_movie_editions (fold (apply_card_patch i) ps d)) = keyed e_card_id (catalog_movie_editions d)"
    by (induction ps arbitrary: d) simp_all
qed

lemma PatchCard_applies:
  assumes "good (committed s) q0" and "i \<noteq> 0" and "i \<le> max_serial"
    and "i \<in> c_id ` set (catalog_cards (committed s))"
    and ok: "list_all (card_patch_ok (committed s) i) ps"
    and d': "d' = fold (apply_card_patch i) ps (committed s)"
  shows "\<exists>c'\<in>set (catalog_cards d'). c_id c' = i \<and>
    outcome (PatchCard (reliable P) i (Some ps)) s = (Ok (card_view d' c'), d', seqs_of s)"
proof -
  have schema: "schema_ok (committed s) q0" using assms(1) by (simp add: good_def)
  obtain c where c: "c \<in> set (catalog_cards (committed s))" "c_id c = i" using assms(4) by blast
  then obtain r where r: "\<And>now q'. select_card i now (committed s) q' = (Inr (committed s, [r]), q')"
      "card_of_join r = card_view (committed s) c"
    using select_card_view [OF schema assms(3)] by blast
  obtain c' where c': "c' \<in> set (catalog_cards d')" "c_id c' = i"
    using assms(4) fold_patch_keys(1) [of i ps "committed s"] unfolding d' by (metis imageE)
  then obtain r' where r': "\<And>now q'. select_card i now d' q' = (Inr (d', [r']), q')"
      "card_of_join r' = card_view d' c'"
    using select_card_keyed [of d' i c'] schema assms(3) unfolding d'
    by (auto simp: fold_patch_keys schema_ok_def catalog_ok_def serial_ok_def)
  have ready: "patch_ready (committed s) i (card_view (committed s) c)"
    using assms(1,3) c by (rule card_view_ready)
  let ?rest = "\<lambda>_. bind (getCard (reliable P) Tx i) (\<lambda>card. bind (Commit (reliable P)) (\<lambda>_. ret card))"
  let ?loop = "bind (patch_cards (reliable P) i (card_view (committed s) c) ps) ?rest"
  have patch: "outcome (PatchCard (reliable P) i (Some ps)) s =
      outcome ?loop (in_tx s None (clock_at P (calls s)) (Suc (Suc (calls s))) (committed s) (seqs_of s))"
    using assms(2) r by (simp add: PatchCard_def getCard_def wp_rules)
  obtain n' where "outcome ?loop (in_tx s None (clock_at P (calls s)) (Suc (Suc (calls s))) (committed s) (seqs_of s)) =
      outcome (?rest ()) (in_tx s None (clock_at P (calls s)) n' d' (seqs_of s))"
    using patch_cards_outcome [OF ready ok] unfolding d' by blast
  moreover have "outcome (?rest ()) (in_tx s None (clock_at P (calls s)) n' d' (seqs_of s)) =
      (Ok (card_view d' c'), d', seqs_of s)"
    using r' by (simp add: getCard_def wp_rules)
  ultimately show ?thesis using patch c' by metis
qed

text \<open>The release year can be patched, but no handler reads it back.\<close>

lemma release_year_unseen:
  assumes "cp_Movie p = Some \<lparr>mp_TmdbId = None, mp_FanartId = None, mp_ReleaseYear = Some y\<rparr>"
    and "cp_Name p = None" and "cp_Note p = None" and "cp_MovieEdition p = None"
  shows "card_view (apply_card_patch i p d) c = card_view d c"
proof -
  have "(case find (\<lambda>m. mv_card_id m = j) (update_where R (mv_release_year_update g) ms) of
        None \<Rightarrow> None | Some m \<Rightarrow> Some (mv_tmdb_id m, mv_fanart_id m)) =
      (case find (\<lambda>m. mv_card_id m = j) ms of None \<Rightarrow> None | Some m \<Rightarrow> Some (mv_tmdb_id m, mv_fanart_id m))"
    for j R g and ms :: "movie_row list"
    by (induction ms) (auto simp: update_where_def)
  from this [of "c_id c" "\<lambda>m. mv_card_id m = i" "\<lambda>_. Some y" "catalog_movies d"] show ?thesis
    using assms
    by (auto simp: card_view_def movie_of_def edition_of_def apply_card_patch_def apply_movie_patch_def [abs_def]
        card_of_join_def join_row_def split: option.splits)
qed

end
