(* ===== verification/VM_Config.thy ===== *)
theory VM_Config
  imports VM_Err VM_Json
begin

text \<open>
  Configuration (src/internal/lib/config/config.go): the environment, the URL of the database and
  the paths of the video directories, with the parts of strconv, net/url and path/filepath they use.
  The environment is an argument, a map from names to values.
\<close>

section \<open>fmt and strconv\<close>

text \<open>The verb \<^verbatim>\<open>%q\<close>. Bytes above 127 are taken to be printable text.\<close>

definition quote_byte :: "char \<Rightarrow> string" where
  "quote_byte c =
     (let n = of_char c :: nat in
      if c = CHR 0x22 \<or> c = CHR 0x5C then [CHR 0x5C, c]
      else if n = 7 then [CHR 0x5C, CHR ''a''] else if n = 8 then [CHR 0x5C, CHR ''b'']
      else if n = 9 then [CHR 0x5C, CHR ''t''] else if n = 10 then [CHR 0x5C, CHR ''n'']
      else if n = 11 then [CHR 0x5C, CHR ''v''] else if n = 12 then [CHR 0x5C, CHR ''f'']
      else if n = 13 then [CHR 0x5C, CHR ''r'']
      else if n < 32 \<or> n = 127 then [CHR 0x5C, CHR ''x'', hex_digit (n div 16), hex_digit (n mod 16)]
      else [c])"

definition go_quote :: "string \<Rightarrow> string" where
  "go_quote s = CHR 0x22 # concat (map quote_byte s) @ [CHR 0x22]"

definition max_int :: int where
  "max_int = 2 ^ 63 - 1"

definition min_int :: int where
  "min_int = - (2 ^ 63)"

definition Atoi :: "string \<Rightarrow> int option" where
  "Atoi s =
     (let (neg, ds) =
        (case s of
           [] \<Rightarrow> (False, [])
         | c # r \<Rightarrow> if c = CHR ''-'' then (True, r) else if c = CHR ''+'' then (False, r) else (False, s)) in
      if ds = [] \<or> \<not> list_all is_digit ds then None
      else
        (let v = (if neg then - int (digits_value ds) else int (digits_value ds)) in
         if min_int \<le> v \<and> v \<le> max_int then Some v else None))"

section \<open>Environment variables\<close>

type_synonym env = "string \<Rightarrow> string option"

definition EnvPostgresHost :: string where "EnvPostgresHost = ''VIDEO_MANAGER_POSTGRES_HOST''"
definition EnvPostgresPort :: string where "EnvPostgresPort = ''VIDEO_MANAGER_POSTGRES_PORT''"
definition EnvPostgresDBName :: string where "EnvPostgresDBName = ''VIDEO_MANAGER_POSTGRES_DBNAME''"
definition EnvPostgresUser :: string where "EnvPostgresUser = ''VIDEO_MANAGER_POSTGRES_USER''"
definition EnvPostgresPassword :: string where "EnvPostgresPassword = ''VIDEO_MANAGER_POSTGRES_PASSWORD''"
definition EnvRootDir :: string where "EnvRootDir = ''VIDEO_MANAGER_ROOT_DIR''"
definition EnvWorkerGoroutines :: string where "EnvWorkerGoroutines = ''VIDEO_MANAGER_WORKER_GOROUTINES''"

lemmas env_names = EnvPostgresHost_def EnvPostgresPort_def EnvPostgresDBName_def EnvPostgresUser_def
  EnvPostgresPassword_def EnvRootDir_def EnvWorkerGoroutines_def

record Paths =
  RootDir :: string

record Postgres =
  pg_Host :: string
  pg_Port :: int
  pg_User :: string
  pg_Password :: string
  pg_DBName :: string

record Config =
  cfg_Paths :: Paths
  HttpPort :: int
  cfg_Postgres :: Postgres
  WorkerGoroutines :: int

definition getRequiredVar :: "env \<Rightarrow> string \<Rightarrow> string result" where
  "getRequiredVar e key =
     (case e key of
        None \<Rightarrow> Panic (Errorf (Wrapped (Sentinel ErrMissingRequiredEnvVar) (Text '': '' (Text key End))))
      | Some val \<Rightarrow> Ok val)"

definition getVarWithDefault :: "env \<Rightarrow> string \<Rightarrow> string \<Rightarrow> string" where
  "getVarWithDefault e key defaultVal = (case e key of None \<Rightarrow> defaultVal | Some val \<Rightarrow> val)"

definition parseInt :: "string \<Rightarrow> int result" where
  "parseInt s =
     (case Atoi s of
        None \<Rightarrow> Panic (Errorf (Wrapped (Sentinel ErrMalformedEnvVar)
                  (Text '': could not parse '' (Text (go_quote s) (Text '' as int'' End)))))
      | Some i \<Rightarrow> Ok i)"

text \<open>A call in an expression: a panic ends the evaluation.\<close>

definition call :: "'a result \<Rightarrow> ('a \<Rightarrow> 'b result) \<Rightarrow> 'b result" where
  "call r k = (case r of Ok a \<Rightarrow> k a | Err e \<Rightarrow> Err e | Panic p \<Rightarrow> Panic p)"

lemma call_simps [simp]: "call (Ok a) k = k a" "call (Err e) k = Err e" "call (Panic p) k = Panic p"
  by (simp_all add: call_def)

text \<open>\<^verbatim>\<open>New\<close>: the calls of the composite literal in their order.\<close>

definition Config_New :: "env \<Rightarrow> Config result" where
  "Config_New e =
     call (getRequiredVar e EnvRootDir) (\<lambda>root.
     call (parseInt (getVarWithDefault e EnvWorkerGoroutines ''1'')) (\<lambda>workers.
     call (getRequiredVar e EnvPostgresHost) (\<lambda>host.
     call (parseInt (getVarWithDefault e EnvPostgresPort ''5432'')) (\<lambda>port.
     call (getRequiredVar e EnvPostgresUser) (\<lambda>user.
     call (getRequiredVar e EnvPostgresPassword) (\<lambda>password.
     call (getRequiredVar e EnvPostgresDBName) (\<lambda>dbname.
     Ok \<lparr>cfg_Paths = \<lparr>RootDir = root\<rparr>, HttpPort = 25009,
         cfg_Postgres = \<lparr>pg_Host = host, pg_Port = port, pg_User = user, pg_Password = password, pg_DBName = dbname\<rparr>,
         WorkerGoroutines = workers\<rparr>)))))))"

section \<open>The URL of the database\<close>

definition upper_hex :: "nat \<Rightarrow> char" where
  "upper_hex n = (if n < 10 then char_of (48 + n) else char_of (55 + n))"

definition unreserved :: "char \<Rightarrow> bool" where
  "unreserved c =
     (between 97 122 c \<or> between 65 90 c \<or> between 48 57 c \<or> c \<in> {CHR ''-'', CHR ''_'', CHR ''.'', CHR ''~''})"

definition escape_query_byte :: "char \<Rightarrow> string" where
  "escape_query_byte c =
     (if unreserved c then [c]
      else if c = CHR '' '' then [CHR ''+'']
      else [CHR ''%'', upper_hex (of_char c div 16), upper_hex (of_char c mod 16)])"

definition QueryEscape :: "string \<Rightarrow> string" where
  "QueryEscape s = concat (map escape_query_byte s)"

definition go_int :: "int \<Rightarrow> string" where
  "go_int i = (if i < 0 then CHR ''-'' # decimal (nat (- i)) else decimal (nat i))"

definition URL :: "Postgres \<Rightarrow> string" where
  "URL p =
     ''postgres://'' @ QueryEscape (pg_User p) @ '':'' @ QueryEscape (pg_Password p) @ ''@'' @
     QueryEscape (pg_Host p) @ '':'' @ go_int (pg_Port p) @ ''/'' @ QueryEscape (pg_DBName p) @ ''?sslmode=disable''"

section \<open>Paths\<close>

fun strings_Join :: "string list \<Rightarrow> string \<Rightarrow> string" where
  "strings_Join [] sep = []"
| "strings_Join [x] sep = x"
| "strings_Join (x # y # xs) sep = x @ sep @ strings_Join (y # xs) sep"

fun split_slash :: "string \<Rightarrow> string list" where
  "split_slash [] = [[]]"
| "split_slash (c # s) =
     (if c = CHR ''/'' then [] # split_slash s
      else (case split_slash s of [] \<Rightarrow> [[c]] | p # ps \<Rightarrow> (c # p) # ps))"

text \<open>
  \<^verbatim>\<open>filepath.Clean\<close> on Unix: the elements of the path are pushed on a stack; a dot element is dropped and
  a dot-dot element removes the one before it, or stays when there is none and the path is relative.
\<close>

definition clean_step :: "bool \<Rightarrow> string \<Rightarrow> string list \<Rightarrow> string list" where
  "clean_step rooted c stack =
     (if c = [] \<or> c = ''.'' then stack
      else if c = ''..'' then
        (case stack of
           [] \<Rightarrow> if rooted then [] else [''..'']
         | prev # rest \<Rightarrow> if prev = ''..'' then ''..'' # stack else rest)
      else c # stack)"

definition is_rooted :: "string \<Rightarrow> bool" where
  "is_rooted path = (take 1 path = ''/'')"

definition clean_comps :: "string \<Rightarrow> string list" where
  "clean_comps path = rev (fold (clean_step (is_rooted path)) (split_slash path) [])"

definition Clean :: "string \<Rightarrow> string" where
  "Clean path =
     (if path = [] then ''.''
      else if is_rooted path then CHR ''/'' # strings_Join (clean_comps path) ''/''
      else if clean_comps path = [] then ''.''
      else strings_Join (clean_comps path) ''/'')"

definition filepath_Join :: "string list \<Rightarrow> string" where
  "filepath_Join elem =
     (case dropWhile (\<lambda>e. e = []) elem of [] \<Rightarrow> [] | es \<Rightarrow> Clean (strings_Join es ''/''))"

datatype PathKind = PathKindAbsolute | PathKindRelative

definition makePath :: "Paths \<Rightarrow> PathKind \<Rightarrow> string list \<Rightarrow> string" where
  "makePath p pk parts =
     filepath_Join (if pk = PathKindAbsolute then RootDir p # parts else parts)"

definition Absolute :: "Paths \<Rightarrow> string \<Rightarrow> string" where
  "Absolute p relPath = makePath p PathKindAbsolute [relPath]"

definition InboxDvd :: "Paths \<Rightarrow> PathKind \<Rightarrow> string" where
  "InboxDvd p pk = makePath p pk [''inbox'', ''dvd'']"

definition InboxDvdName :: "Paths \<Rightarrow> PathKind \<Rightarrow> string \<Rightarrow> string" where
  "InboxDvdName p pk name = makePath p pk [''inbox'', ''dvd'', name]"

definition MediaDvd :: "Paths \<Rightarrow> PathKind \<Rightarrow> string" where
  "MediaDvd p pk = makePath p pk [''media'', ''dvd'']"

definition MediaDvdId :: "Paths \<Rightarrow> PathKind \<Rightarrow> uint32 \<Rightarrow> string" where
  "MediaDvdId p pk mediaId = makePath p pk [''media'', ''dvd'', decimal (unat mediaId)]"

text \<open>\<^verbatim>\<open>Bootstrap\<close>, with \<^verbatim>\<open>os.MkdirAll\<close> as a parameter: the directories it asks for, in order, up to the first error.\<close>

fun mkdir_all :: "(string \<Rightarrow> goerr option) \<Rightarrow> string list \<Rightarrow> string list \<times> goerr option" where
  "mkdir_all os_MkdirAll [] = ([], None)"
| "mkdir_all os_MkdirAll (dir # dirs) =
     (case os_MkdirAll dir of
        Some err \<Rightarrow> ([dir], Some (Errorf (Text ''failed to create directory '' (Text dir (Text '': '' (Wrapped err End))))))
      | None \<Rightarrow> (case mkdir_all os_MkdirAll dirs of (made, r) \<Rightarrow> (dir # made, r)))"

definition Bootstrap :: "(string \<Rightarrow> goerr option) \<Rightarrow> Paths \<Rightarrow> string list \<times> goerr option" where
  "Bootstrap os_MkdirAll p = mkdir_all os_MkdirAll [InboxDvd p PathKindAbsolute, MediaDvd p PathKindAbsolute]"

section \<open>Facts on paths\<close>

definition plain :: "string \<Rightarrow> bool" where
  "plain c = (c \<noteq> [] \<and> c \<noteq> ''.'' \<and> c \<noteq> ''..'' \<and> CHR ''/'' \<notin> set c)"

lemma split_slash_not_Nil [simp]: "split_slash s \<noteq> []"
  by (induction s) (auto split: list.splits)

lemma split_slash_append: "split_slash (a @ ''/'' @ b) = split_slash a @ split_slash b"
  by (induction a) (auto split: list.splits)

lemma split_slash_plain: "CHR ''/'' \<notin> set c \<Longrightarrow> split_slash c = [c]"
  by (induction c) auto

lemma split_join:
  assumes "cs \<noteq> []" and "\<And>c. c \<in> set cs \<Longrightarrow> CHR ''/'' \<notin> set c"
  shows "split_slash (strings_Join cs ''/'') = cs"
  using assms
proof (induction cs "''/''" rule: strings_Join.induct)
  case (3 x y xs)
  then have "split_slash (strings_Join (y # xs) ''/'') = y # xs" by simp
  moreover have "split_slash x = [x]" using "3.prems" by (intro split_slash_plain) simp
  ultimately show ?case by (simp add: split_slash_append [simplified])
qed (simp_all add: split_slash_plain)

lemma fold_clean_plain:
  "\<forall>c\<in>set cs. c \<noteq> ''..'' \<Longrightarrow> fold (clean_step rooted) cs st = rev (filter (\<lambda>c. c \<noteq> [] \<and> c \<noteq> ''.'') cs) @ st"
  by (induction cs arbitrary: st) (auto simp: clean_step_def)

lemma is_rooted_join: "is_rooted (strings_Join (c # cs) ''/'') = (if c = [] then cs \<noteq> [] else is_rooted c)"
  by (cases cs; cases c) (simp_all add: is_rooted_def)

lemma Clean_plain:
  assumes "cs \<noteq> []" and "list_all plain cs"
  shows "Clean (strings_Join cs ''/'') = strings_Join cs ''/''"
proof -
  obtain c cs' where cs: "cs = c # cs'" using assms(1) by (cases cs) simp_all
  then have c: "c \<noteq> []" "CHR ''/'' \<notin> set c" using assms(2) by (simp_all add: plain_def)
  then have "\<not> is_rooted (strings_Join cs ''/'')"
    unfolding cs is_rooted_join by (cases c) (auto simp: is_rooted_def)
  moreover have "strings_Join cs ''/'' \<noteq> []" using c(1) by (cases cs') (simp_all add: cs)
  moreover have "split_slash (strings_Join cs ''/'') = cs"
    using assms by (intro split_join) (auto simp: list_all_iff plain_def)
  moreover have "fold (clean_step False) cs [] = rev cs"
    using assms(2) by (subst fold_clean_plain) (auto simp: list_all_iff plain_def filter_id_conv)
  ultimately show ?thesis using assms(1) by (simp add: Clean_def clean_comps_def)
qed

lemma decimal_plain: "plain (decimal n)"
proof -
  have "list_all is_digit (decimal n)" by (rule decimal_digits)
  moreover have "decimal n \<noteq> []" by (subst decimal.simps) simp
  ultimately show ?thesis
    by (auto simp: plain_def list_all_iff is_digit_def between_def)
qed

lemma filepath_Join_Cons: "x \<noteq> [] \<Longrightarrow> filepath_Join (x # xs) = Clean (strings_Join (x # xs) ''/'')"
  by (simp add: filepath_Join_def)

lemma Join_relative:
  assumes "cs \<noteq> []" and "list_all plain cs"
  shows "filepath_Join cs = strings_Join cs ''/''"
proof -
  obtain c cs' where cs: "cs = c # cs'" using assms(1) by (cases cs) simp_all
  with assms show ?thesis by (simp add: filepath_Join_Cons Clean_plain plain_def)
qed

text \<open>Joining the root with a relative path of the program is joining it with the parts of that path.\<close>

lemma Absolute_relative:
  assumes "cs \<noteq> []" and "list_all plain cs"
  shows "Absolute p (makePath p PathKindRelative cs) = makePath p PathKindAbsolute cs"
proof -
  let ?rel = "strings_Join cs ''/''"
  obtain c cs' where cs: "cs = c # cs'" using assms(1) by (cases cs) simp_all
  then have ne: "?rel \<noteq> []" "c \<noteq> []" using assms(2) by (cases cs'; simp add: plain_def)+
  show ?thesis
  proof (cases "RootDir p = []")
    case True
    have "filepath_Join (RootDir p # xs) = filepath_Join xs" for xs
      using True by (simp add: filepath_Join_def)
    moreover have "filepath_Join [?rel] = Clean ?rel" using ne(1) by (simp add: filepath_Join_Cons)
    ultimately show ?thesis
      using assms by (simp add: Absolute_def makePath_def Join_relative Clean_plain)
  next
    case False
    then show ?thesis using assms cs by (simp add: Absolute_def makePath_def Join_relative filepath_Join_Cons)
  qed
qed

lemma MediaDvdId_Absolute: "Absolute p (MediaDvdId p PathKindRelative i) = MediaDvdId p PathKindAbsolute i"
  unfolding MediaDvdId_def
proof (rule Absolute_relative)
  show "list_all plain [''media'', ''dvd'', decimal (unat i)]" using decimal_plain by (simp add: plain_def)
qed simp

text \<open>A relative path without dot-dot elements stays below a rooted root directory.\<close>

lemma Absolute_below:
  assumes "is_rooted (RootDir p)" and "''..'' \<notin> set (split_slash rel)"
  shows "Absolute p rel = CHR ''/'' # strings_Join (clean_comps (RootDir p) @
    filter (\<lambda>c. c \<noteq> [] \<and> c \<noteq> ''.'') (split_slash rel)) ''/''"
proof -
  let ?path = "RootDir p @ ''/'' @ rel"
  have root: "RootDir p \<noteq> []" using assms(1) by (auto simp: is_rooted_def)
  then have rooted: "is_rooted ?path" using assms(1) by (cases "RootDir p") (simp_all add: is_rooted_def)
  have "clean_comps ?path = clean_comps (RootDir p) @ filter (\<lambda>c. c \<noteq> [] \<and> c \<noteq> ''.'') (split_slash rel)"
  proof -
    have "\<forall>c\<in>set (split_slash rel). c \<noteq> ''..''" using assms(2) by auto
    from fold_clean_plain [OF this] rooted assms(1) show ?thesis
      by (simp add: clean_comps_def split_slash_append [simplified])
  qed
  moreover have "Absolute p rel = Clean ?path" using root by (simp add: Absolute_def makePath_def filepath_Join_Cons)
  ultimately show ?thesis using rooted root by (simp add: Clean_def)
qed

section \<open>Facts on the URL\<close>

text \<open>
  How net/url reads the user information of a URL back: percent escapes are decoded, a plus sign is
  itself.
\<close>

definition unhex :: "char \<Rightarrow> nat" where
  "unhex c = (if between 48 57 c then of_char c - 48 else of_char c - 55)"

fun userinfo_unescape :: "string \<Rightarrow> string" where
  "userinfo_unescape (CHR ''%'' # a # b # s) = char_of (16 * unhex a + unhex b) # userinfo_unescape s"
| "userinfo_unescape (c # s) = c # userinfo_unescape s"
| "userinfo_unescape [] = []"

lemma of_char_high: "of_char c div 16 < (16 :: nat)"
proof -
  have "of_char c < (16 * 16 :: nat)" using nat_of_char_less_256 [of c] by simp
  then show ?thesis by (rule less_mult_imp_div_less)
qed

lemma upper_hex_code: "n < 16 \<Longrightarrow> of_char (upper_hex n) = (if n < 10 then 48 + n else 55 + n)"
  by (simp add: upper_hex_def)

lemma unhex_upper_hex: "n < 16 \<Longrightarrow> unhex (upper_hex n) = n"
  by (simp add: unhex_def between_def upper_hex_code)

lemma unescape_plain: "c \<noteq> CHR ''%'' \<Longrightarrow> userinfo_unescape (c # s) = c # userinfo_unescape s"
  by (cases "(c # s)" rule: userinfo_unescape.cases) auto

lemma userinfo_QueryEscape:
  "userinfo_unescape (QueryEscape s) = map (\<lambda>c. if c = CHR '' '' then CHR ''+'' else c) s"
proof (induction s)
  case (Cons c s)
  have "char_of (16 * (of_char c div 16) + of_char c mod 16 :: nat) = c" by simp
  moreover have "\<not> unreserved (CHR '' '')" and "unreserved c \<Longrightarrow> c \<noteq> CHR ''%''"
    by (auto simp: unreserved_def between_def)
  ultimately show ?case
    using Cons by (auto simp: QueryEscape_def escape_query_byte_def unescape_plain unhex_upper_hex of_char_high)
qed (simp add: QueryEscape_def)

lemma QueryEscape_chars:
  "c \<in> set (QueryEscape s) \<Longrightarrow> unreserved c \<or> c = CHR ''+'' \<or> c = CHR ''%''"
proof -
  have hex: "unreserved (upper_hex n)" if "n < 16" for n
    using that by (auto simp: unreserved_def between_def upper_hex_code)
  show "c \<in> set (QueryEscape s) \<Longrightarrow> unreserved c \<or> c = CHR ''+'' \<or> c = CHR ''%''"
    by (auto simp: QueryEscape_def escape_query_byte_def hex of_char_high split: if_splits)
qed

section \<open>Facts on the environment\<close>

lemma Config_New_Ok:
  "Config_New e = Ok c \<longleftrightarrow>
     (\<exists>host user password dbname port workers.
        e EnvRootDir = Some (RootDir (cfg_Paths c)) \<and> e EnvPostgresHost = Some host \<and>
        e EnvPostgresUser = Some user \<and> e EnvPostgresPassword = Some password \<and> e EnvPostgresDBName = Some dbname \<and>
        Atoi (getVarWithDefault e EnvPostgresPort ''5432'') = Some port \<and>
        Atoi (getVarWithDefault e EnvWorkerGoroutines ''1'') = Some workers \<and>
        c = \<lparr>cfg_Paths = cfg_Paths c, HttpPort = 25009,
          cfg_Postgres = \<lparr>pg_Host = host, pg_Port = port, pg_User = user, pg_Password = password, pg_DBName = dbname\<rparr>,
          WorkerGoroutines = workers\<rparr>)"
proof -
  have paths: "\<lparr>RootDir = RootDir p\<rparr> = p" for p :: Paths by simp
  show ?thesis
    unfolding Config_New_def getRequiredVar_def parseInt_def
    by (auto simp: call_def paths split: option.splits)
qed

end
