(* ===== verification/VM_Tasks.thy ===== *)
theory VM_Tasks
  imports VM_Page VM_Config
begin

text \<open>
  Background tasks (src/internal/lib/vmtask: types.go, registry.go, api.go): the table of tasks,
  the registry of handlers and the operations a service calls.

  Time is counted in microseconds, the resolution of the server. A task's state is a JSONB value;
  the parsing and printing of such values belongs to the server and is a parameter
  (\<^verbatim>\<open>jsonb_in\<close>, \<^verbatim>\<open>jsonb_out\<close>); where the code scans a task into its struct, the model keeps the row
  with the JSONB value, and prints it where the code hands the bytes on. The trigger of the table stamps every updated row.
\<close>

section \<open>types.go\<close>

record Result =
  NewState :: "string option"
  NewStatus :: Status
  ResultError :: string

definition Pending :: "string option \<Rightarrow> Result" where
  "Pending newState = \<lparr>NewState = newState, NewStatus = StatusPending, ResultError = []\<rparr>"

definition Waiting :: "string option \<Rightarrow> Result" where
  "Waiting newState = \<lparr>NewState = newState, NewStatus = StatusWaiting, ResultError = []\<rparr>"

definition Completed :: Result where
  "Completed = \<lparr>NewState = None, NewStatus = StatusCompleted, ResultError = []\<rparr>"

definition CompletedWithState :: "string option \<Rightarrow> Result" where
  "CompletedWithState newState = \<lparr>NewState = newState, NewStatus = StatusCompleted, ResultError = []\<rparr>"

definition Failed :: "string \<Rightarrow> Result" where
  "Failed err = \<lparr>NewState = None, NewStatus = StatusFailed, ResultError = err\<rparr>"

section \<open>registry.go\<close>

text \<open>
  A registry is nil, or holds a map from task types to handlers that is created on first use.
  The order in which \<^verbatim>\<open>Types\<close> lists the map is not specified by the language; the model lists it
  in the order of registration.
\<close>

type_synonym 'h registry = "(string \<times> 'h) list option"

definition nil_registry :: goerr where
  "nil_registry = New ''vmtask: Registry is nil''"

definition Register :: "'h registry option \<Rightarrow> string \<Rightarrow> 'h \<Rightarrow> 'h registry result" where
  "Register r taskType handler =
     (case r of
        None \<Rightarrow> Panic nil_registry
      | Some handlers \<Rightarrow>
          (let m = (case handlers of None \<Rightarrow> [] | Some m \<Rightarrow> m) in
           case map_of m taskType of
             Some _ \<Rightarrow> Err (errorf (''vmtask: handler already registered for task type '' @ go_quote taskType))
           | None \<Rightarrow> Ok (Some (m @ [(taskType, handler)]))))"

definition MustRegister :: "'h registry option \<Rightarrow> string \<Rightarrow> 'h \<Rightarrow> 'h registry result" where
  "MustRegister r taskType handler =
     (case Register r taskType handler of Err e \<Rightarrow> Panic e | x \<Rightarrow> x)"

definition registry_Get :: "'h registry option \<Rightarrow> string \<Rightarrow> 'h option result" where
  "registry_Get r taskType =
     (case r of
        None \<Rightarrow> Panic nil_registry
      | Some None \<Rightarrow> Ok None
      | Some (Some m) \<Rightarrow> Ok (map_of m taskType))"

definition Types :: "'h registry option \<Rightarrow> string list result" where
  "Types r =
     (case r of
        None \<Rightarrow> Panic nil_registry
      | Some None \<Rightarrow> Ok []
      | Some (Some m) \<Rightarrow> Ok (map fst m))"

section \<open>Statements on the table of tasks\<close>

definition max_task_id :: int where
  "max_task_id = 2147483647"

definition task_arg :: "int list \<Rightarrow> 'r stmt \<Rightarrow> 'r stmt" where
  "task_arg xs st now d q =
     (if list_all (\<lambda>i. - 2147483648 \<le> i \<and> i \<le> max_task_id) xs then st now d q else (Inl int4_range, q))"

definition not_null_violation :: goerr where
  "not_null_violation = PgError ''23502'' ''null value violates not-null constraint''"

text \<open>
  \<^verbatim>\<open>UPDATE tasks SET .. WHERE ..\<close>: the trigger stamps the row, the CHECK constraints look at it.
\<close>

definition stamp :: "int \<Rightarrow> Task \<Rightarrow> Task" where
  "stamp now t = t\<lparr>t_UpdatedAt := now\<rparr>"

definition update_tasks :: "(Task \<Rightarrow> bool) \<Rightarrow> (Task \<Rightarrow> Task) \<Rightarrow> nat stmt" where
  "update_tasks R g now d q =
     (if list_all (\<lambda>t. R t \<longrightarrow> task_row_ok (g t)) (tasks d)
      then (Inr (d\<lparr>tasks := update_where R (\<lambda>t. stamp now (g t)) (tasks d)\<rparr>, count_where R (tasks d)), q)
      else (Inl check_violation, q))"

definition insert_task :: "pg \<Rightarrow> string \<Rightarrow> string \<Rightarrow> int option \<Rightarrow> int list stmt" where
  "insert_task P taskType state parent =
     task_arg (case parent of None \<Rightarrow> [] | Some p \<Rightarrow> [p]) (\<lambda>now d q.
       case jsonb_in P state of
         None \<Rightarrow> (Inl invalid_json, q)
       | Some v \<Rightarrow>
           if task_seq q < max_task_id then
             (let i = task_seq q + 1; q' = q\<lparr>task_seq := i\<rparr>;
                  t = \<lparr>t_Id = i, t_TaskType = taskType, t_State = v, t_Status = StatusPending,
                       t_WorkerId = None, t_LeaseExpiresAt = None, t_Error = None, t_ParentId = parent,
                       t_CreatedAt = now, t_UpdatedAt = now\<rparr> in
              if taskType = [] then (Inl check_violation, q')
              else if (case parent of None \<Rightarrow> True | Some p \<Rightarrow> p \<in> t_Id ` set (tasks d))
              then (Inr (d\<lparr>tasks := tasks d @ [t]\<rparr>, [i]), q')
              else (Inl foreign_key_violation, q'))
           else (Inl sequence_exhausted, q))"

definition notify_stmt :: "nat stmt" where
  "notify_stmt = modify_stmt (\<lambda>d. Inr (d\<lparr>notified := Suc (notified d)\<rparr>, 0))"

definition resume_stmt :: "int \<Rightarrow> nat stmt" where
  "resume_stmt i = task_arg [i] (update_tasks (\<lambda>t. t_Id t = i \<and> t_Status t = StatusWaiting)
     (\<lambda>t. t\<lparr>t_Status := StatusPending\<rparr>))"

text \<open>A nil slice is sent as NULL, which the column refuses when a row is updated.\<close>

definition resume_state_stmt :: "pg \<Rightarrow> int \<Rightarrow> string option \<Rightarrow> nat stmt" where
  "resume_state_stmt P i newState = task_arg [i] (\<lambda>now d q.
     let R = (\<lambda>t. t_Id t = i \<and> t_Status t = StatusWaiting) in
     case newState of
       None \<Rightarrow> if 0 < count_where R (tasks d) then (Inl not_null_violation, q) else (Inr (d, 0), q)
     | Some bytes \<Rightarrow>
         (case jsonb_in P bytes of
            None \<Rightarrow> (Inl invalid_json, q)
          | Some v \<Rightarrow> update_tasks R (\<lambda>t. t\<lparr>t_Status := StatusPending, t_State := v\<rparr>) now d q))"

definition select_task :: "int \<Rightarrow> Task list stmt" where
  "select_task i = task_arg [i] (select_stmt (\<lambda>d. filter (\<lambda>t. t_Id t = i) (tasks d)))"

definition select_children :: "int \<Rightarrow> Task list stmt" where
  "select_children i = task_arg [i] (select_stmt (\<lambda>d.
     sort_key t_CreatedAt (filter (\<lambda>t. t_ParentId t = Some i) (tasks d))))"

definition select_child_ids :: "int \<Rightarrow> int list stmt" where
  "select_child_ids i = task_arg [i] (select_stmt (\<lambda>d.
     map t_Id (filter (\<lambda>t. t_ParentId t = Some i) (tasks d))))"

definition live :: "Task \<Rightarrow> bool" where
  "live t = (t_Status t \<noteq> StatusCompleted \<and> t_Status t \<noteq> StatusFailed)"

definition cancelled_row :: "Task \<Rightarrow> Task" where
  "cancelled_row t = t\<lparr>t_Status := StatusFailed, t_Error := Some ''cancelled'', t_WorkerId := None,
     t_LeaseExpiresAt := None\<rparr>"

definition cancel_stmt :: "int \<Rightarrow> nat stmt" where
  "cancel_stmt i = task_arg [i] (update_tasks (\<lambda>t. t_Id t = i \<and> live t) cancelled_row)"

section \<open>api.go\<close>

definition notify :: "pg \<Rightarrow> runner \<Rightarrow> unit prog" where
  "notify P r = check (Exec P r notify_stmt) (wrapf ''failed to notify channel tasks: '') (\<lambda>_. ret ())"

definition no_notify :: "goerr \<Rightarrow> goerr" where
  "no_notify = wrapf ''failed to notify task channel: ''"

definition Create :: "pg \<Rightarrow> runner \<Rightarrow> string \<Rightarrow> string option \<Rightarrow> int prog" where
  "Create P r taskType state =
     (let bytes = (case state of None \<Rightarrow> ''{}'' | Some b \<Rightarrow> b) in
      check (QueryOne P r (insert_task P taskType bytes None)) (wrapf ''failed to create task: '') (\<lambda>i.
      check (notify P r) no_notify (\<lambda>_. ret i)))"

definition Resume :: "pg \<Rightarrow> runner \<Rightarrow> int \<Rightarrow> bool prog" where
  "Resume P r taskId =
     check (Exec P r (resume_stmt taskId)) (wrapf ''failed to resume task: '') (\<lambda>n.
     check (if 0 < n then notify P r else ret ()) no_notify (\<lambda>_. ret (0 < n)))"

definition ResumeWithState :: "pg \<Rightarrow> runner \<Rightarrow> int \<Rightarrow> string option \<Rightarrow> bool prog" where
  "ResumeWithState P r taskId newState =
     check (Exec P r (resume_state_stmt P taskId newState)) (wrapf ''failed to resume task with state: '') (\<lambda>n.
     check (if 0 < n then notify P r else ret ()) no_notify (\<lambda>_. ret (0 < n)))"

definition Get :: "pg \<Rightarrow> runner \<Rightarrow> int \<Rightarrow> Task prog" where
  "Get P r taskId = QueryOne P r (select_task taskId)"

definition CreateChild :: "pg \<Rightarrow> runner \<Rightarrow> int \<Rightarrow> string \<Rightarrow> string option \<Rightarrow> int prog" where
  "CreateChild P r parentId taskType state =
     (let bytes = (case state of None \<Rightarrow> ''{}'' | Some b \<Rightarrow> b) in
      check (QueryOne P r (insert_task P taskType bytes (Some parentId))) (wrapf ''failed to create child task: '') (\<lambda>i.
      check (notify P r) no_notify (\<lambda>_. ret i)))"

definition collect :: "'r \<Rightarrow> 'r list \<Rightarrow> bool \<times> 'r list" where
  "collect x xs = (True, xs @ [x])"

definition GetChildTasks :: "pg \<Rightarrow> runner \<Rightarrow> int \<Rightarrow> Task list prog" where
  "GetChildTasks P r parentId =
     check (Query P r (select_children parentId) collect []) (wrapf ''failed to get child tasks: '') ret"

primrec for_each :: "('a \<Rightarrow> unit prog) \<Rightarrow> 'a list \<Rightarrow> unit prog" where
  "for_each f [] = ret ()"
| "for_each f (x # xs) = bind (f x) (\<lambda>_. for_each f xs)"

text \<open>
  The recursion over the children is as deep as the tree of tasks; the first argument bounds the
  depth, and running out of it is a stack overflow.
\<close>

definition stack_overflow :: goerr where
  "stack_overflow = New ''stack overflow''"

primrec cancelRecursive :: "nat \<Rightarrow> pg \<Rightarrow> runner \<Rightarrow> int \<Rightarrow> unit prog" where
  "cancelRecursive 0 P r taskId = panic stack_overflow"
| "cancelRecursive (Suc depth) P r taskId =
     check (Query P r (select_child_ids taskId) collect []) (wrapf ''failed to get child tasks: '') (\<lambda>childIds.
     bind (for_each (cancelRecursive depth P r) childIds) (\<lambda>_.
     check (Exec P r (cancel_stmt taskId)) (wrapf ''failed to cancel task: '') (\<lambda>_. ret ())))"

definition Cancel :: "nat \<Rightarrow> pg \<Rightarrow> runner \<Rightarrow> int \<Rightarrow> unit prog" where
  "Cancel depth P r taskId = cancelRecursive depth P r taskId"

end
