(* ===== verification/VM_Worker.thy ===== *)
theory VM_Worker
  imports VM_Tasks
begin

text \<open>
  Claiming and processing tasks (src/internal/lib/vmtask: worker.go, notify.go): a scanner claims a
  task for a worker under a lease; the worker runs the handler and applies its result in one
  transaction, while a heartbeat renews the lease.

  A handler is a parameter: a program on the worker's transaction that gives a \<^verbatim>\<open>Result\<close>. The
  process clock is an argument \<^verbatim>\<open>now\<close>; \<^verbatim>\<open>locked\<close> says which rows other transactions hold a lock
  on, for SKIP LOCKED. An error that the code only logs is the \<^verbatim>\<open>Err\<close> of the model's program.
\<close>

section \<open>worker.go\<close>

definition LeaseDuration :: int where
  "LeaseDuration = 5 * 60 * 1000000"

definition HeartbeatInterval :: int where
  "HeartbeatInterval = 60 * 1000000"

type_synonym handler = "pg \<Rightarrow> int \<Rightarrow> string \<Rightarrow> string \<Rightarrow> Result prog"

record taskAssignment =
  a_taskId :: int
  a_taskType :: string
  a_state :: string
  a_handler :: handler

definition throw :: "goerr \<Rightarrow> 'a prog" where
  "throw e s = (Err e, s)"

definition release :: "Task \<Rightarrow> Task" where
  "release t = t\<lparr>t_WorkerId := None, t_LeaseExpiresAt := None\<rparr>"

text \<open>\<^verbatim>\<open>SET state = $2, ..\<close> with the new state, or the statement without it when there is none.\<close>

definition with_state :: "pg \<Rightarrow> string option \<Rightarrow> (json option \<Rightarrow> nat stmt) \<Rightarrow> nat stmt" where
  "with_state P newState st =
     (case newState of
        None \<Rightarrow> st None
      | Some bytes \<Rightarrow>
          (case jsonb_in P bytes of
             None \<Rightarrow> (\<lambda>now d q. (Inl invalid_json, q))
           | Some v \<Rightarrow> st (Some v)))"

definition set_state :: "json option \<Rightarrow> Task \<Rightarrow> Task" where
  "set_state v t = (case v of None \<Rightarrow> t | Some j \<Rightarrow> t\<lparr>t_State := j\<rparr>)"

definition update_state_stmt :: "pg \<Rightarrow> int \<Rightarrow> string option \<Rightarrow> Status \<Rightarrow> nat stmt" where
  "update_state_stmt P i newState status = task_arg [i] (with_state P newState (\<lambda>v.
     update_tasks (\<lambda>t. t_Id t = i) (\<lambda>t. release ((set_state v t)\<lparr>t_Status := status\<rparr>))))"

definition complete_stmt :: "pg \<Rightarrow> int \<Rightarrow> string option \<Rightarrow> nat stmt" where
  "complete_stmt P i newState = task_arg [i] (with_state P newState (\<lambda>v.
     update_tasks (\<lambda>t. t_Id t = i) (\<lambda>t. release ((set_state v t)\<lparr>t_Status := StatusCompleted\<rparr>))))"

definition fail_stmt :: "int \<Rightarrow> string \<Rightarrow> nat stmt" where
  "fail_stmt i msg = task_arg [i] (update_tasks (\<lambda>t. t_Id t = i)
     (\<lambda>t. release (t\<lparr>t_Status := StatusFailed, t_Error := Some msg\<rparr>)))"

definition renew_stmt :: "int \<Rightarrow> string \<Rightarrow> int \<Rightarrow> nat stmt" where
  "renew_stmt i workerId leaseExpires = task_arg [i] (update_tasks
     (\<lambda>t. t_Id t = i \<and> t_WorkerId t = Some workerId \<and> t_Status t = StatusRunning)
     (\<lambda>t. t\<lparr>t_LeaseExpiresAt := Some leaseExpires\<rparr>))"

definition select_parent :: "int \<Rightarrow> int option list stmt" where
  "select_parent i = task_arg [i] (select_stmt (\<lambda>d. map t_ParentId (filter (\<lambda>t. t_Id t = i) (tasks d))))"

definition renewLease :: "pg \<Rightarrow> string \<Rightarrow> int \<Rightarrow> int \<Rightarrow> unit prog" where
  "renewLease P workerId now taskId =
     bind (Exec P Pool (renew_stmt taskId workerId (now + LeaseDuration))) (\<lambda>n.
     if n = 0 then throw (errorf (''task '' @ go_int taskId @ '' no longer owned by this worker''))
     else ret ())"

definition updateTaskState :: "pg \<Rightarrow> runner \<Rightarrow> int \<Rightarrow> string option \<Rightarrow> Status \<Rightarrow> unit prog" where
  "updateTaskState P tx taskId newState status =
     check (Exec P tx (update_state_stmt P taskId newState status))
       (wrapf ''failed to update task state: '') (\<lambda>_. ret ())"

definition completeTask :: "pg \<Rightarrow> runner \<Rightarrow> int \<Rightarrow> string option \<Rightarrow> unit prog" where
  "completeTask P tx taskId newState =
     check (Exec P tx (complete_stmt P taskId newState)) (wrapf ''failed to complete task: '') (\<lambda>_. ret ())"

definition failTask :: "pg \<Rightarrow> runner \<Rightarrow> int \<Rightarrow> string \<Rightarrow> unit prog" where
  "failTask P tx taskId errMsg =
     check (Exec P tx (fail_stmt taskId errMsg)) (wrapf ''failed to fail task: '') (\<lambda>_. ret ())"

definition maybeResumeParent :: "pg \<Rightarrow> runner \<Rightarrow> int \<Rightarrow> unit prog" where
  "maybeResumeParent P tx childId =
     check (QueryOne P tx (select_parent childId)) (wrapf ''failed to get parent_id: '') (\<lambda>parentId.
     case parentId of
       None \<Rightarrow> ret ()
     | Some p \<Rightarrow>
         check (Exec P tx (resume_stmt p)) (wrapf ''failed to resume parent task: '') (\<lambda>n.
         if 0 < n then check (notify P tx) no_notify ret else ret ()))"

definition applyResult :: "pg \<Rightarrow> runner \<Rightarrow> int \<Rightarrow> Result \<Rightarrow> unit prog" where
  "applyResult P tx taskId r =
     (case NewStatus r of
        StatusPending \<Rightarrow> updateTaskState P tx taskId (NewState r) StatusPending
      | StatusWaiting \<Rightarrow> updateTaskState P tx taskId (NewState r) StatusWaiting
      | StatusCompleted \<Rightarrow>
          bind (completeTask P tx taskId (NewState r)) (\<lambda>_. maybeResumeParent P tx taskId)
      | StatusFailed \<Rightarrow>
          bind (failTask P tx taskId (ResultError r)) (\<lambda>_. maybeResumeParent P tx taskId)
      | StatusRunning \<Rightarrow> throw (errorf (''handler returned invalid status '' @ CHR 0x27 # ''running'' @ [CHR 0x27]))
      | StatusOther s \<Rightarrow> throw (errorf (''handler returned unknown status '' @ go_quote s)))"

definition task_log :: "string \<Rightarrow> int \<Rightarrow> goerr \<Rightarrow> goerr" where
  "task_log msg taskId = wrapf (''vmtask: '' @ msg @ '' task '' @ go_int taskId @ '': '')"

definition processTask :: "pg \<Rightarrow> taskAssignment \<Rightarrow> unit prog" where
  "processTask P a =
     with_tx P [ReadCommitted] (task_log ''failed to begin transaction for'' (a_taskId a))
       (bind (a_handler a P (a_taskId a) (a_taskType a) (a_state a)) (\<lambda>r.
        check (applyResult P Tx (a_taskId a) r) (task_log ''failed to apply result for'' (a_taskId a)) (\<lambda>_.
        check (Commit P) (task_log ''failed to commit transaction for'' (a_taskId a)) (\<lambda>_. ret ()))))"

section \<open>notify.go: the scanner\<close>

definition claimable :: "int \<Rightarrow> Task \<Rightarrow> bool" where
  "claimable now t =
     (t_Status t = StatusPending \<or>
      t_Status t = StatusRunning \<and> (case t_LeaseExpiresAt t of None \<Rightarrow> False | Some e \<Rightarrow> e < now))"

text \<open>
  The subquery: the oldest task that can be claimed, is of a handled type and is not locked.
  Tasks created at the same instant are taken in table order.
\<close>

definition next_task :: "(int \<Rightarrow> bool) \<Rightarrow> string list \<Rightarrow> int \<Rightarrow> db \<Rightarrow> Task option" where
  "next_task locked taskTypes now d =
     (case sort_key t_CreatedAt
             (filter (\<lambda>t. claimable now t \<and> t_TaskType t \<in> set taskTypes \<and> \<not> locked (t_Id t)) (tasks d)) of
        [] \<Rightarrow> None
      | t # _ \<Rightarrow> Some t)"

definition claim_row :: "string \<Rightarrow> int \<Rightarrow> Task \<Rightarrow> Task" where
  "claim_row workerId leaseExpires t =
     t\<lparr>t_Status := StatusRunning, t_WorkerId := Some workerId, t_LeaseExpiresAt := Some leaseExpires\<rparr>"

definition claim_stmt ::
  "(int \<Rightarrow> bool) \<Rightarrow> string list \<Rightarrow> string \<Rightarrow> int \<Rightarrow> (int \<times> string \<times> json) list stmt" where
  "claim_stmt locked taskTypes workerId leaseExpires now d q =
     (case next_task locked taskTypes now d of
        None \<Rightarrow> (Inr (d, []), q)
      | Some t \<Rightarrow>
          (case update_tasks (\<lambda>u. t_Id u = t_Id t) (claim_row workerId leaseExpires) now d q of
             (Inl e, q') \<Rightarrow> (Inl e, q')
           | (Inr (d', n), q') \<Rightarrow> (Inr (d', [(t_Id t, t_TaskType t, t_State t)]), q')))"

text \<open>What one scan did: nothing was claimable, the worker got a task, or the task had no handler.\<close>

datatype scan = NoTask | Assigned taskAssignment | Unhandled int

definition assigned :: "scan \<Rightarrow> bool" where
  "assigned sc = (case sc of NoTask \<Rightarrow> False | _ \<Rightarrow> True)"

definition failTaskDirect :: "pg \<Rightarrow> int \<Rightarrow> string \<Rightarrow> unit prog" where
  "failTaskDirect P taskId errMsg =
     check (Exec P Pool (fail_stmt taskId errMsg)) (wrapf ''failed to fail task: '') (\<lambda>_. ret ())"

text \<open>
  \<^verbatim>\<open>x, err := m\<close> with an error branch that may succeed, and a call whose error is only logged.
\<close>

definition on_error :: "'a prog \<Rightarrow> (goerr \<Rightarrow> 'b prog) \<Rightarrow> ('a \<Rightarrow> 'b prog) \<Rightarrow> 'b prog" where
  "on_error m h k s =
     (case m s of (Ok a, s1) \<Rightarrow> k a s1 | (Err e, s1) \<Rightarrow> h e s1 | (Panic p, s1) \<Rightarrow> (Panic p, s1))"

definition context_canceled :: goerr where
  "context_canceled = New ''context canceled''"

definition dispatch ::
  "pg \<Rightarrow> handler registry option \<Rightarrow> bool \<Rightarrow> int \<times> string \<times> json \<Rightarrow> scan prog" where
  "dispatch P reg ctx_done row =
     (case row of (taskId, taskType, state) \<Rightarrow>
      bind (\<lambda>s. (registry_Get reg taskType, s)) (\<lambda>handler.
      case handler of
        None \<Rightarrow>
          on_error (failTaskDirect P taskId (''no handler registered for task type '' @ go_quote taskType))
            (\<lambda>e. ret (Unhandled taskId)) (\<lambda>_. ret (Unhandled taskId))
      | Some h \<Rightarrow>
          if ctx_done then throw context_canceled
          else ret (Assigned \<lparr>a_taskId = taskId, a_taskType = taskType, a_state = jsonb_out P state, a_handler = h\<rparr>)))"

definition scanAndAssign ::
  "pg \<Rightarrow> handler registry option \<Rightarrow> string list \<Rightarrow> (int \<Rightarrow> bool) \<Rightarrow> bool \<Rightarrow> int \<Rightarrow> string \<Rightarrow> scan prog" where
  "scanAndAssign P reg taskTypes locked ctx_done now workerId =
     with_tx P [ReadCommitted] (wrapf ''failed to begin transaction: '')
       (on_error (QueryOne P Tx (claim_stmt locked taskTypes workerId (now + LeaseDuration)))
          (\<lambda>e. if errors_Is e ErrNotFound then ret NoTask else throw (wrapf ''failed to claim task: '' e))
          (\<lambda>row.
           check (Commit P) (wrapf ''failed to commit claim: '') (\<lambda>_.
           dispatch P reg ctx_done row)))"

text \<open>The back-off of the scanner after an error, in microseconds.\<close>

definition initialBackoff :: int where
  "initialBackoff = 100 * 1000"

definition maxBackoff :: int where
  "maxBackoff = 30 * 1000000"

definition next_backoff :: "int \<Rightarrow> int" where
  "next_backoff backoff = min (backoff * 2) maxBackoff"

end
