(* ===== verification/VM_TaskInv.thy ===== *)
theory VM_TaskInv
  imports VM_Worker
begin

text \<open>
  Invariants of the table of tasks, whatever the driver does and in whatever order the operations
  of services, scanner, workers and heartbeats come: the constraints of the schema hold, parents
  precede their children, and a failed task stays failed.

  The invariant \<^verbatim>\<open>task_inv X\<close> says both for the tasks \<open>X\<close>; the locale \<^verbatim>\<open>db_invariant\<close> is interpreted
  for it.
\<close>

definition failed_in :: "db \<Rightarrow> int \<Rightarrow> bool" where
  "failed_in d i = (\<exists>t\<in>set (tasks d). t_Id t = i \<and> t_Status t = StatusFailed)"

definition task_inv :: "int set \<Rightarrow> db \<Rightarrow> seqs \<Rightarrow> bool" where
  "task_inv X d q = (good d q \<and> (\<forall>i\<in>X. failed_in d i))"

lemma task_inv_empty [simp]: "task_inv {} = good"
  by (intro ext) (simp add: task_inv_def)

interpretation tinv: db_invariant "task_inv X" for X
  by unfold_locales (auto simp: task_inv_def intro: good.seq_mono)

text \<open>A statement that leaves the tasks alone keeps the tasks' part of the invariant.\<close>

lemma task_inv_frame:
  assumes "stmt_keeps good st"
    and "\<And>now d q d' x q'. st now d q = (Inr (d', x), q') \<Longrightarrow> tasks d' = tasks d"
  shows "stmt_keeps (task_inv X) st"
  unfolding stmt_keeps_def
proof (intro allI impI)
  fix now d q assume inv: "task_inv X d q"
  obtain r q' where r: "st now d q = (r, q')" by fastforce
  have "good d q" using inv by (simp add: task_inv_def)
  from good.stmt_keepsD [OF assms(1) this r] have "seq_le q q'" "\<And>d' x. r = Inr (d', x) \<Longrightarrow> good d' q'" by auto
  moreover have "tasks d' = tasks d" if "r = Inr (d', x)" for d' x using assms(2) r that by blast
  ultimately show "case st now d q of (r, q') \<Rightarrow> seq_le q q' \<and> (case r of Inl e \<Rightarrow> True | Inr (d', x) \<Rightarrow> task_inv X d' q')"
    using inv by (auto simp: r task_inv_def failed_in_def split: sum.splits)
qed

section \<open>Statements\<close>

lemma stmt_keeps_task_arg: "stmt_keeps I st \<Longrightarrow> stmt_keeps I (task_arg xs st)"
  by (auto simp: stmt_keeps_def task_arg_def)

lemma good_tasks:
  assumes "good d q" and "tasks_ok (d\<lparr>tasks := ts\<rparr>) (q\<lparr>task_seq := v\<rparr>)"
  shows "good (d\<lparr>tasks := ts\<rparr>) (q\<lparr>task_seq := v\<rparr>)"
  using assms
  by (simp add: good_def schema_ok_def catalog_ok_def media_ok_def links_ok_def details_ok_def one_detail_def)

lemma good_tasks_ok: "good d q \<Longrightarrow> tasks_ok d q"
  by (simp add: good_def schema_ok_def)

lemma stamp_simps [simp]:
  "t_Id (stamp now t) = t_Id t" "t_ParentId (stamp now t) = t_ParentId t"
  "t_Status (stamp now t) = t_Status t" "t_Error (stamp now t) = t_Error t"
  "t_State (stamp now t) = t_State t" "t_WorkerId (stamp now t) = t_WorkerId t"
  "t_LeaseExpiresAt (stamp now t) = t_LeaseExpiresAt t" "t_TaskType (stamp now t) = t_TaskType t"
  "t_CreatedAt (stamp now t) = t_CreatedAt t"
  "task_row_ok (stamp now t) = task_row_ok t"
  by (simp_all add: stamp_def task_row_ok_def task_lease_check_def task_error_check_def)

lemma update_tasks_ok:
  assumes ids: "\<And>t. t_Id (g t) = t_Id t" "\<And>t. t_ParentId (g t) = t_ParentId t"
    and "tasks_ok d q" and "list_all (\<lambda>t. R t \<longrightarrow> task_row_ok (g t)) (tasks d)"
  shows "tasks_ok (d\<lparr>tasks := update_where R (\<lambda>t. stamp now (g t)) (tasks d)\<rparr>) q"
proof -
  let ?ts = "update_where R (\<lambda>t. stamp now (g t)) (tasks d)"
  have same: "t_Id ` set ?ts = t_Id ` set (tasks d)" "keyed t_Id ?ts = keyed t_Id (tasks d)"
    using ids(1) by simp_all
  have "\<forall>t\<in>set ?ts. task_row_ok t"
    using assms(3,4) by (auto simp: tasks_ok_def set_update_where list_all_iff)
  moreover have "\<exists>u\<in>set (tasks d). t_Id u = t_Id t \<and> t_ParentId u = t_ParentId t" if "t \<in> set ?ts" for t
    using that ids by (auto simp: set_update_where)
  ultimately show ?thesis
    using assms(3) unfolding tasks_ok_def
    by (simp add: same) metis
qed

lemma failed_update:
  assumes "\<And>t. t_Id (g t) = t_Id t" and "\<And>t. t_Error (g t) = t_Error t \<or> t_Status (g t) = StatusFailed"
    and "tasks_ok d q" and "list_all (\<lambda>t. R t \<longrightarrow> task_row_ok (g t)) (tasks d)" and "failed_in d i"
  shows "failed_in (d\<lparr>tasks := update_where R (\<lambda>t. stamp now (g t)) (tasks d)\<rparr>) i"
proof -
  obtain t where t: "t \<in> set (tasks d)" "t_Id t = i" "t_Status t = StatusFailed"
    using assms(5) by (auto simp: failed_in_def)
  let ?t = "if R t then stamp now (g t) else t"
  have "t_Error t \<noteq> None"
    using t assms(3) by (auto simp: tasks_ok_def task_row_ok_def task_error_check_def)
  then have "t_Status ?t = StatusFailed"
    using t assms(2) [of t] assms(4)
    by (auto simp: list_all_iff task_row_ok_def task_error_check_def)
  moreover have "?t \<in> set (update_where R (\<lambda>t. stamp now (g t)) (tasks d))" "t_Id ?t = i"
    using t assms(1) by (auto simp: set_update_where)
  ultimately show ?thesis by (auto simp: failed_in_def)
qed

lemma update_tasks_keeps:
  assumes "\<And>t. t_Id (g t) = t_Id t" and "\<And>t. t_ParentId (g t) = t_ParentId t"
    and "\<And>t. t_Error (g t) = t_Error t \<or> t_Status (g t) = StatusFailed"
  shows "stmt_keeps (task_inv X) (update_tasks R g)"
proof -
  have "task_inv X (d\<lparr>tasks := update_where R (\<lambda>t. stamp now (g t)) (tasks d)\<rparr>) q"
    if inv: "task_inv X d q" and rows: "list_all (\<lambda>t. R t \<longrightarrow> task_row_ok (g t)) (tasks d)" for d q now
  proof -
    have ok: "tasks_ok d q" using inv by (simp add: task_inv_def good_tasks_ok)
    have "good (d\<lparr>tasks := update_where R (\<lambda>t. stamp now (g t)) (tasks d)\<rparr>) (q\<lparr>task_seq := task_seq q\<rparr>)"
      using inv update_tasks_ok [OF assms(1,2) ok rows] by (intro good_tasks) (simp_all add: task_inv_def)
    with inv failed_update [OF assms(1,3) ok rows] show ?thesis by (simp add: task_inv_def)
  qed
  then show ?thesis by (auto simp: stmt_keeps_def update_tasks_def)
qed

lemma tasks_ok_add:
  assumes "tasks_ok d q" and "t_Id t = task_seq q + 1" and "task_row_ok t"
    and "\<And>p. t_ParentId t = Some p \<Longrightarrow> p \<in> t_Id ` set (tasks d)"
  shows "tasks_ok (d\<lparr>tasks := tasks d @ [t]\<rparr>) (q\<lparr>task_seq := task_seq q + 1\<rparr>)"
proof -
  have old: "0 < t_Id u \<and> t_Id u \<le> task_seq q" if "u \<in> set (tasks d)" for u
    using that assms(1) by (auto simp: tasks_ok_def)
  have "task_seq q + 1 \<notin> t_Id ` set (tasks d)" using old by force
  moreover have "p < t_Id t" if "t_ParentId t = Some p" for p
    using assms(4) [OF that] old assms(2) by force
  ultimately show ?thesis
    using assms old by (auto simp: tasks_ok_def) (smt (verit) image_iff)+
qed

lemma task_inv_add:
  assumes "task_inv X d q" and "t_Id t = task_seq q + 1" and "task_row_ok t"
    and "\<And>p. t_ParentId t = Some p \<Longrightarrow> p \<in> t_Id ` set (tasks d)"
  shows "task_inv X (d\<lparr>tasks := tasks d @ [t]\<rparr>) (q\<lparr>task_seq := task_seq q + 1\<rparr>)"
proof -
  have "tasks_ok d q" using assms(1) by (simp add: task_inv_def good_tasks_ok)
  with assms have "tasks_ok (d\<lparr>tasks := tasks d @ [t]\<rparr>) (q\<lparr>task_seq := task_seq q + 1\<rparr>)"
    by (intro tasks_ok_add)
  with assms(1) show ?thesis by (auto simp: task_inv_def failed_in_def intro: good_tasks)
qed

lemma insert_task_keeps [stmt_ok]: "stmt_keeps (task_inv X) (insert_task P ty st parent)"
  unfolding insert_task_def
proof (rule stmt_keeps_task_arg)
  show "stmt_keeps (task_inv X) (\<lambda>now d q.
       case jsonb_in P st of
         None \<Rightarrow> (Inl invalid_json, q)
       | Some v \<Rightarrow>
           if task_seq q < max_task_id then
             (let i = task_seq q + 1; q' = q\<lparr>task_seq := i\<rparr>;
                  t = \<lparr>t_Id = i, t_TaskType = ty, t_State = v, t_Status = StatusPending,
                       t_WorkerId = None, t_LeaseExpiresAt = None, t_Error = None, t_ParentId = parent,
                       t_CreatedAt = now, t_UpdatedAt = now\<rparr> in
              if ty = [] then (Inl check_violation, q')
              else if (case parent of None \<Rightarrow> True | Some p \<Rightarrow> p \<in> t_Id ` set (tasks d))
              then (Inr (d\<lparr>tasks := tasks d @ [t]\<rparr>, [i]), q')
              else (Inl foreign_key_violation, q'))
           else (Inl sequence_exhausted, q))"
    by (auto simp: stmt_keeps_def Let_def seq_le_def split: option.splits
        intro!: task_inv_add simp: task_row_ok_def task_lease_check_def task_error_check_def)
qed

lemma good_notified [simp]: "good (d\<lparr>notified := n\<rparr>) q = good d q"
  by (simp add: good_def schema_defs details_ok_def one_detail_def)

lemma notify_keeps [stmt_ok]: "stmt_keeps (task_inv X) notify_stmt"
  unfolding notify_stmt_def by (rule tinv.stmt_keeps_modify) (auto simp: task_inv_def failed_in_def)

lemma task_select_keeps [stmt_ok]:
  "stmt_keeps (task_inv X) (select_task i)" "stmt_keeps (task_inv X) (select_children i)"
  "stmt_keeps (task_inv X) (select_child_ids i)" "stmt_keeps (task_inv X) (select_parent i)"
  by (simp_all add: select_task_def select_children_def select_child_ids_def select_parent_def
      tinv.stmt_keeps_select stmt_keeps_task_arg)

lemma stmt_keeps_with_state:
  assumes "\<And>v. stmt_keeps I (st v)"
  shows "stmt_keeps I (with_state P newState st)"
proof -
  have "stmt_keeps I (\<lambda>now d q. (Inl invalid_json, q))" by (simp add: stmt_keeps_def)
  with assms show ?thesis
    unfolding with_state_def by (cases newState; cases "jsonb_in P (the newState)") auto
qed

lemma release_simps [simp]:
  "t_Id (release t) = t_Id t" "t_ParentId (release t) = t_ParentId t" "t_Error (release t) = t_Error t"
  "t_Status (release t) = t_Status t" "t_State (release t) = t_State t" "t_TaskType (release t) = t_TaskType t"
  "t_WorkerId (release t) = None" "t_LeaseExpiresAt (release t) = None" "t_CreatedAt (release t) = t_CreatedAt t"
  by (simp_all add: release_def)

lemma set_state_simps [simp]:
  "t_Id (set_state v t) = t_Id t" "t_ParentId (set_state v t) = t_ParentId t" "t_Error (set_state v t) = t_Error t"
  "t_TaskType (set_state v t) = t_TaskType t"
  by (simp_all add: set_state_def split: option.splits)

lemma task_update_keeps [stmt_ok]:
  "stmt_keeps (task_inv X) (resume_stmt i)" "stmt_keeps (task_inv X) (cancel_stmt i)"
  "stmt_keeps (task_inv X) (update_state_stmt P i ns st)" "stmt_keeps (task_inv X) (complete_stmt P i ns)"
  "stmt_keeps (task_inv X) (fail_stmt i msg)" "stmt_keeps (task_inv X) (renew_stmt i w e)"
  unfolding resume_stmt_def cancel_stmt_def update_state_stmt_def complete_stmt_def fail_stmt_def
    renew_stmt_def
  by (intro stmt_keeps_task_arg stmt_keeps_with_state update_tasks_keeps; simp add: cancelled_row_def)+

lemma resume_state_keeps [stmt_ok]: "stmt_keeps (task_inv X) (resume_state_stmt P i ns)"
proof -
  have up: "stmt_keeps (task_inv X) (update_tasks (\<lambda>t. t_Id t = i \<and> t_Status t = StatusWaiting)
      (\<lambda>t. t\<lparr>t_Status := StatusPending, t_State := v\<rparr>))" for v
    by (rule update_tasks_keeps) simp_all
  have "stmt_keeps (task_inv X) (\<lambda>now d q.
     let R = (\<lambda>t. t_Id t = i \<and> t_Status t = StatusWaiting) in
     case ns of
       None \<Rightarrow> if 0 < count_where R (tasks d) then (Inl not_null_violation, q) else (Inr (d, 0), q)
     | Some bytes \<Rightarrow>
         (case jsonb_in P bytes of
            None \<Rightarrow> (Inl invalid_json, q)
          | Some v \<Rightarrow> update_tasks R (\<lambda>t. t\<lparr>t_Status := StatusPending, t_State := v\<rparr>) now d q))"
    using up unfolding stmt_keeps_def Let_def by (simp split: option.splits)
  then show ?thesis unfolding resume_state_stmt_def by (rule stmt_keeps_task_arg)
qed

lemma claim_keeps [stmt_ok]: "stmt_keeps (task_inv X) (claim_stmt locked tys w e)"
proof -
  have up: "stmt_keeps (task_inv X) (update_tasks R (claim_row w e))" for R
    by (rule update_tasks_keeps) (simp_all add: claim_row_def)
  have "seq_le q q'' \<and> task_inv X d' q''"
    if "task_inv X d q" "update_tasks R (claim_row w e) now d q = (Inr (d', n), q'')" for R now d q d' n q''
    using tinv.stmt_keepsD [OF up that] by blast
  moreover have "seq_le q q''"
    if "task_inv X d q" "update_tasks R (claim_row w e) now d q = (Inl er, q'')" for R now d q er q''
    using tinv.stmt_keepsD(1) [OF up that] .
  ultimately show ?thesis
    by (auto simp: stmt_keeps_def claim_stmt_def split: option.splits prod.splits sum.splits)
qed

section \<open>Operations\<close>

lemma keeps_throw: "keeps J (throw e)"
  by (simp add: keeps_def throw_def)

lemma keeps_lift: "keeps J (\<lambda>s. (r, s))"
  by (simp add: keeps_def)

lemma keeps_on_error:
  assumes "keeps J m" and "\<And>e. keeps J (h e)" and "\<And>a. keeps J (k a)"
  shows "keeps J (on_error m h k)"
  unfolding keeps_def
proof (intro allI impI)
  fix s assume "J s"
  then have "J (snd (m s))" using assms(1) by (rule keepsD [rotated])
  then show "J (snd (on_error m h k s))"
    using assms(2,3) by (cases "m s"; cases "fst (m s)") (auto simp: on_error_def keeps_def)
qed

lemma keeps_for_each: "(\<And>x. keeps J (f x)) \<Longrightarrow> keeps J (for_each f xs)"
  by (induction xs) (simp_all add: keeps_ret keeps_check)

lemmas task_keeps = tinv.keeps_intros keeps_throw keeps_on_error keeps_for_each stmt_ok

lemma keeps_notify: "keeps (sess_inv (task_inv X)) (notify P r)"
  unfolding notify_def by (intro task_keeps)

lemma keeps_api:
  "keeps (sess_inv (task_inv X)) (Create P r ty st)" "keeps (sess_inv (task_inv X)) (Resume P r i)"
  "keeps (sess_inv (task_inv X)) (ResumeWithState P r i ns)" "keeps (sess_inv (task_inv X)) (Get P r i)"
  "keeps (sess_inv (task_inv X)) (CreateChild P r i ty st)" "keeps (sess_inv (task_inv X)) (GetChildTasks P r i)"
  unfolding Create_def Resume_def ResumeWithState_def Get_def CreateChild_def GetChildTasks_def Let_def
  by (intro task_keeps keeps_notify)+

lemma keeps_Cancel: "keeps (sess_inv (task_inv X)) (Cancel depth P r i)"
proof -
  have "keeps (sess_inv (task_inv X)) (cancelRecursive depth P r i)" for i
  proof (induction depth arbitrary: i)
    case 0
    show ?case unfolding cancelRecursive.simps by (rule keeps_panic)
  next
    case (Suc depth)
    then show ?case unfolding cancelRecursive.simps by (intro task_keeps)
  qed
  then show ?thesis by (simp add: Cancel_def)
qed

lemma keeps_renewLease: "keeps (sess_inv (task_inv X)) (renewLease P w now i)"
  unfolding renewLease_def by (intro task_keeps)

lemma keeps_applyResult: "keeps (sess_inv (task_inv X)) (applyResult P r i res)"
proof -
  have "keeps (sess_inv (task_inv X)) (updateTaskState P r i ns st)" "keeps (sess_inv (task_inv X)) (completeTask P r i ns)"
    "keeps (sess_inv (task_inv X)) (failTask P r i m)" "keeps (sess_inv (task_inv X)) (maybeResumeParent P r i)" for ns st m
    unfolding updateTaskState_def completeTask_def failTask_def maybeResumeParent_def
    by (intro task_keeps keeps_notify)+
  then show ?thesis
    unfolding applyResult_def by (cases "NewStatus res") (auto intro!: task_keeps)
qed

text \<open>A handler is trusted with the tables it works on, and with nothing else.\<close>

lemma keeps_processTask:
  assumes "keeps (sess_inv (task_inv X)) (a_handler a P (a_taskId a) (a_taskType a) (a_state a))"
  shows "keeps (sess_inv (task_inv X)) (processTask P a)"
  unfolding processTask_def using assms by (intro task_keeps keeps_applyResult)

lemma keeps_scanAndAssign: "keeps (sess_inv (task_inv X)) (scanAndAssign P reg tys locked ctx_done now w)"
proof -
  have "keeps (sess_inv (task_inv X)) (dispatch P reg ctx_done row)" for row
    unfolding dispatch_def failTaskDirect_def
    by (cases row) (simp only: prod.case, intro task_keeps keeps_lift)
  then show ?thesis unfolding scanAndAssign_def by (intro task_keeps)
qed

end
