(* ===== verification/VM_TaskOps.thy ===== *)
theory VM_TaskOps
  imports VM_TaskInv
begin

text \<open>
  What the operations on tasks do when the driver does not fail: creating, resuming and cancelling,
  claiming by the scanner, and applying the result of a handler.
\<close>

section \<open>Evaluation\<close>

lemma outcome_throw [wp_rules]: "outcome (throw e) s = (Err e, committed s, seqs_of s)"
  by (simp add: outcome_def throw_def)

lemma outcome_check_throw [wp_rules]:
  "outcome (check (throw e) w k) s = (Err (w e), committed s, seqs_of s)"
  by (simp add: outcome_def check_def throw_def)

lemma outcome_Commit_then [wp_rules]:
  "outcome (check (Commit (reliable P)) w k) (in_tx s lvl t0 n d q) =
     outcome (k ()) \<lparr>committed = d, seqs_of = q, txn = None, calls = Suc n, renames = renames s\<rparr>"
  by (simp add: outcome_def check_def Commit_def in_tx_def Let_def)

lemma outcome_on_error_QueryOne:
  assumes "st t0 d q = (Inr (d', rows), q')"
  shows "outcome (on_error (QueryOne (reliable P) Tx st) h k) (in_tx s lvl t0 n d q) =
    (case rows of
       [x] \<Rightarrow> outcome (k x) (in_tx s lvl t0 (Suc n) d' q')
     | [] \<Rightarrow> outcome (h (HttpError ProblemNotFound 404 (Sentinel ErrNotFound))) (in_tx s lvl t0 (Suc n) d' q')
     | _ \<Rightarrow> outcome (h (HttpError ProblemInternalError 500 (Sentinel ErrMultipleRecords)))
             (in_tx s lvl t0 (Suc n) d' q'))"
  using assms
  by (auto simp: outcome_def on_error_def QueryOne_reply reply_def pg_run_in_tx rows_result_def
      one_row_def split: list.splits)

definition task_id_ok :: "int \<Rightarrow> bool" where
  "task_id_ok i = (- 2147483648 \<le> i \<and> i \<le> max_task_id)"

lemma task_arg_fits [simp]: "list_all task_id_ok xs \<Longrightarrow> task_arg xs st now d q = st now d q"
  by (simp add: task_arg_def task_id_ok_def [abs_def])

lemma query_collect [simp]: "query_loop collect rows xs = xs @ rows"
  by (induction rows arbitrary: xs) (simp_all add: collect_def)

section \<open>Claiming\<close>

lemma next_task_least:
  assumes "next_task locked tys now d = Some t"
  shows "t \<in> set (tasks d)" and "claimable now t" and "t_TaskType t \<in> set tys" and "\<not> locked (t_Id t)"
    and "u \<in> set (tasks d) \<Longrightarrow> claimable now u \<Longrightarrow> t_TaskType u \<in> set tys \<Longrightarrow> \<not> locked (t_Id u) \<Longrightarrow>
      t_CreatedAt t \<le> t_CreatedAt u"
proof -
  let ?ts = "filter (\<lambda>t. claimable now t \<and> t_TaskType t \<in> set tys \<and> \<not> locked (t_Id t)) (tasks d)"
  obtain ts where ts: "sort_key t_CreatedAt ?ts = t # ts"
    using assms by (auto simp: next_task_def split: list.splits)
  then have set: "set (t # ts) = set ?ts" by (metis set_sort)
  then have "t \<in> set ?ts" by auto
  then show "t \<in> set (tasks d)" "claimable now t" "t_TaskType t \<in> set tys" "\<not> locked (t_Id t)" by simp_all
  have "sorted (map t_CreatedAt (t # ts))" using ts by (metis sorted_sort_key)
  moreover assume "u \<in> set (tasks d)" "claimable now u" "t_TaskType u \<in> set tys" "\<not> locked (t_Id u)"
  then have "u \<in> set (t # ts)" unfolding set by simp
  ultimately show "t_CreatedAt t \<le> t_CreatedAt u" by auto
qed

lemma sort_key_Nil_iff: "sort_key f xs = [] \<longleftrightarrow> xs = []"
  by (metis length_0_conv length_sort)

lemma next_task_none:
  "next_task locked tys now d = None \<longleftrightarrow>
     (\<forall>t\<in>set (tasks d). claimable now t \<longrightarrow> t_TaskType t \<in> set tys \<longrightarrow> locked (t_Id t))"
proof -
  have "next_task locked tys now d = None \<longleftrightarrow>
      sort_key t_CreatedAt (filter (\<lambda>t. claimable now t \<and> t_TaskType t \<in> set tys \<and> \<not> locked (t_Id t)) (tasks d)) = []"
    by (simp add: next_task_def split: list.splits)
  then show ?thesis by (auto simp: sort_key_Nil_iff filter_empty_conv)
qed

definition claim_in :: "db \<Rightarrow> int \<Rightarrow> int \<Rightarrow> string \<Rightarrow> int \<Rightarrow> db" where
  "claim_in d i now w leaseExpires =
     d\<lparr>tasks := update_where (\<lambda>u. t_Id u = i) (\<lambda>u. stamp now (claim_row w leaseExpires u)) (tasks d)\<rparr>"

lemma claimable_no_error:
  assumes "tasks_ok d q" and "t \<in> set (tasks d)" and "claimable now t"
  shows "task_row_ok (claim_row w e t)"
  using assms
  by (auto simp: tasks_ok_def claimable_def claim_row_def task_row_ok_def task_lease_check_def task_error_check_def)

lemma claim_stmt_some:
  assumes ok: "tasks_ok d q" and "next_task locked tys now d = Some t"
  shows "claim_stmt locked tys w e now d q' = (Inr (claim_in d (t_Id t) now w e, [(t_Id t, t_TaskType t, t_State t)]), q')"
proof -
  note t = next_task_least(1,2) [OF assms(2)]
  have keyed: "keyed t_Id (tasks d)" using ok by (simp add: tasks_ok_def)
  have "task_row_ok (claim_row w e u)" if "u \<in> set (tasks d)" "t_Id u = t_Id t" for u
    using keyed_inj [OF keyed that(1) t(1) that(2)] claimable_no_error [OF ok t] by simp
  then show ?thesis
    by (auto simp: claim_stmt_def assms(2) update_tasks_def list_all_iff claim_in_def)
qed

lemma claim_stmt_none:
  "next_task locked tys now d = None \<Longrightarrow> claim_stmt locked tys w e now d q' = (Inr (d, []), q')"
  by (simp add: claim_stmt_def)

lemma scanAndAssign_claims:
  assumes "good (committed s) q0" and "next_task locked tys (clock_at P (calls s)) (committed s) = Some t"
    and "registry_Get reg (t_TaskType t) = Ok (Some h)"
  shows "outcome (scanAndAssign (reliable P) reg tys locked False now w) s =
    (Ok (Assigned \<lparr>a_taskId = t_Id t, a_taskType = t_TaskType t, a_state = jsonb_out P (t_State t), a_handler = h\<rparr>),
     claim_in (committed s) (t_Id t) (clock_at P (calls s)) w (now + LeaseDuration), seqs_of s)"
  using assms(3)
  by (simp add: scanAndAssign_def wp_rules dispatch_def
      outcome_on_error_QueryOne claim_stmt_some [OF good_tasks_ok [OF assms(1)] assms(2)])

lemma scanAndAssign_idle:
  assumes "next_task locked tys (clock_at P (calls s)) (committed s) = None"
  shows "outcome (scanAndAssign (reliable P) reg tys locked ctx_done now w) s = (Ok NoTask, committed s, seqs_of s)"
  by (simp add: scanAndAssign_def wp_rules outcome_on_error_QueryOne claim_stmt_none [OF assms])

section \<open>Creating and resuming\<close>

definition new_task :: "int \<Rightarrow> string \<Rightarrow> json \<Rightarrow> int option \<Rightarrow> int \<Rightarrow> Task" where
  "new_task i ty v parent now =
     \<lparr>t_Id = i, t_TaskType = ty, t_State = v, t_Status = StatusPending, t_WorkerId = None,
      t_LeaseExpiresAt = None, t_Error = None, t_ParentId = parent, t_CreatedAt = now, t_UpdatedAt = now\<rparr>"

lemma Create_tx:
  assumes "ty \<noteq> []" and "jsonb_in P (case st of None \<Rightarrow> ''{}'' | Some b \<Rightarrow> b) = Some v" and "task_seq q < max_task_id"
  shows "outcome (check (Create (reliable P) Tx ty st) w k) (in_tx s lvl t0 n d q) =
    outcome (k (task_seq q + 1)) (in_tx s lvl t0 (Suc (Suc n))
      (d\<lparr>tasks := tasks d @ [new_task (task_seq q + 1) ty v None t0], notified := Suc (notified d)\<rparr>)
      (q\<lparr>task_seq := task_seq q + 1\<rparr>))"
  using assms
  by (simp add: Create_def notify_def wp_rules insert_task_def notify_stmt_def modify_stmt_def
      new_task_def Let_def)

lemma update_tasks_key:
  assumes "tasks_ok d q0" and "t \<in> set (tasks d)" and "R t \<Longrightarrow> task_row_ok (g t)" and "\<And>u. R u \<Longrightarrow> t_Id u = t_Id t"
  shows "update_tasks R g now d q =
    (Inr (d\<lparr>tasks := update_where R (\<lambda>t. stamp now (g t)) (tasks d)\<rparr>, if R t then 1 else 0), q)"
proof -
  have keyed: "keyed t_Id (tasks d)" using assms(1) by (simp add: tasks_ok_def)
  have only: "u = t" if "u \<in> set (tasks d)" "R u" for u
    using keyed_inj [OF keyed that(1) assms(2)] assms(4) [OF that(2)] .
  then have "list_all (\<lambda>t. R t \<longrightarrow> task_row_ok (g t)) (tasks d)"
    using assms(3) by (auto simp: list_all_iff)
  moreover have "count_where R (tasks d) = (if R t then 1 else 0)"
  proof (cases "R t")
    case True
    then have "R u \<longleftrightarrow> t_Id u = t_Id t" if "u \<in> set (tasks d)" for u
      using assms(4) keyed_inj [OF keyed that assms(2)] by blast
    then have "filter R (tasks d) = filter (\<lambda>u. t_Id u = t_Id t) (tasks d)"
      by (intro filter_cong) simp_all
    then show ?thesis using True keyed_filter_eq [OF keyed assms(2)] by (simp add: count_where_def)
  next
    case False
    then show ?thesis using only by auto
  qed
  ultimately show ?thesis by (simp add: update_tasks_def)
qed

definition resumed :: "db \<Rightarrow> int \<Rightarrow> int \<Rightarrow> db" where
  "resumed d i now = d\<lparr>tasks := update_where (\<lambda>t. t_Id t = i \<and> t_Status t = StatusWaiting)
     (\<lambda>t. stamp now (t\<lparr>t_Status := StatusPending\<rparr>)) (tasks d)\<rparr>"

lemma resume_stmt_eval:
  assumes "tasks_ok d q0" and "t \<in> set (tasks d)" and "t_Id t = i" and "task_id_ok i"
  shows "resume_stmt i now d q = (Inr (resumed d i now, if t_Status t = StatusWaiting then 1 else 0), q)"
proof -
  have "task_row_ok t" using assms(1,2) by (simp add: tasks_ok_def)
  then have "t_Status t = StatusWaiting \<Longrightarrow> task_row_ok (t\<lparr>t_Status := StatusPending\<rparr>)"
    by (simp add: task_row_ok_def task_lease_check_def task_error_check_def)
  then have "update_tasks (\<lambda>t. t_Id t = i \<and> t_Status t = StatusWaiting) (\<lambda>t. t\<lparr>t_Status := StatusPending\<rparr>) now d q =
      (Inr (resumed d i now, if t_Id t = i \<and> t_Status t = StatusWaiting then 1 else 0), q)"
    unfolding resumed_def using assms(3) by (intro update_tasks_key [OF assms(1,2)]) auto
  then show ?thesis using assms(3,4) by (simp add: resume_stmt_def)
qed

section \<open>Applying a result\<close>

definition finished :: "db \<Rightarrow> int \<Rightarrow> int \<Rightarrow> (Task \<Rightarrow> Task) \<Rightarrow> db" where
  "finished d i now g = d\<lparr>tasks := update_where (\<lambda>t. t_Id t = i) (\<lambda>t. stamp now (g t)) (tasks d)\<rparr>"

lemma finish_eval:
  assumes "tasks_ok d q0" and "t \<in> set (tasks d)" and "t_Id t = i" and "task_row_ok (g t)"
  shows "update_tasks (\<lambda>t. t_Id t = i) g now d q = (Inr (finished d i now g, 1), q)"
  using update_tasks_key [OF assms(1,2), of "\<lambda>t. t_Id t = i" g now q] assms(3,4)
  by (simp add: finished_def)

lemma release_row_ok:
  assumes "task_row_ok t" and "t_Status t \<noteq> StatusFailed" and "st \<noteq> StatusRunning" and "st \<noteq> StatusFailed"
  shows "task_row_ok (release ((set_state v t)\<lparr>t_Status := st\<rparr>))"
  using assms
  by (auto simp: task_row_ok_def task_lease_check_def task_error_check_def release_def set_state_def split: option.splits)

lemma fail_row_ok: "task_row_ok t \<Longrightarrow> task_row_ok (release (t\<lparr>t_Status := StatusFailed, t_Error := Some m\<rparr>))"
  by (simp add: task_row_ok_def task_lease_check_def task_error_check_def release_def)

text \<open>
  The new state is the one the handler gave, if it gave one; it has to be JSON.
\<close>

definition state_of :: "pg \<Rightarrow> string option \<Rightarrow> json option \<Rightarrow> bool" where
  "state_of P newState v =
     (case newState of None \<Rightarrow> v = None | Some b \<Rightarrow> v \<noteq> None \<and> jsonb_in P b = v)"

lemma with_state_eval: "state_of P newState v \<Longrightarrow> with_state P newState st = st v"
  by (auto simp: state_of_def with_state_def split: option.splits)

lemma with_state_reliable [simp]: "with_state (reliable P) ns st = with_state P ns st"
  by (simp add: with_state_def split: option.splits)

lemma requeue_eval:
  assumes "tasks_ok d q0" and t: "t \<in> set (tasks d)" "t_Id t = i" and "t_Status t \<noteq> StatusFailed"
    and "task_id_ok i" and st: "st = StatusPending \<or> st = StatusWaiting" and "state_of P ns v"
  shows "outcome (check (applyResult (reliable P) Tx i \<lparr>NewState = ns, NewStatus = st, ResultError = e\<rparr>) w k)
      (in_tx s lvl t0 n d q) =
    outcome (k ()) (in_tx s lvl t0 (Suc n) (finished d i t0 (\<lambda>t. release ((set_state v t)\<lparr>t_Status := st\<rparr>))) q)"
proof -
  have "task_row_ok t" using assms(1) t(1) by (simp add: tasks_ok_def)
  then have "task_row_ok (release ((set_state v t)\<lparr>t_Status := st\<rparr>))"
    using assms(4) st by (intro release_row_ok) auto
  note fin = finish_eval [where g = "\<lambda>t. release ((set_state v t)\<lparr>t_Status := st\<rparr>)", OF assms(1) t this]
  have "applyResult (reliable P) Tx i \<lparr>NewState = ns, NewStatus = st, ResultError = e\<rparr> =
      updateTaskState (reliable P) Tx i ns st"
    using st by (auto simp: applyResult_def)
  then show ?thesis
    using assms(5,7) by (simp add: updateTaskState_def wp_rules update_state_stmt_def with_state_eval fin)
qed

lemma finished_ok:
  assumes "tasks_ok d q0" and "\<And>t. t_Id (g t) = t_Id t" and "\<And>t. t_ParentId (g t) = t_ParentId t"
    and "t \<in> set (tasks d)" and "t_Id t = i" and "task_row_ok (g t)"
  shows "tasks_ok (finished d i now g) q0"
proof -
  have "keyed t_Id (tasks d)" using assms(1) by (simp add: tasks_ok_def)
  then have "list_all (\<lambda>t. t_Id t = i \<longrightarrow> task_row_ok (g t)) (tasks d)"
    using assms(4-6) by (auto simp: list_all_iff dest: keyed_inj)
  then show ?thesis unfolding finished_def using assms(1-3) by (intro update_tasks_ok)
qed

text \<open>
  After a child is done, its parent is resumed if it waits, and the scanners are told.
\<close>

definition resume_parent :: "db \<Rightarrow> int option \<Rightarrow> int \<Rightarrow> db" where
  "resume_parent d parent now =
     (case parent of
        None \<Rightarrow> d
      | Some p \<Rightarrow>
          if \<exists>t\<in>set (tasks d). t_Id t = p \<and> t_Status t = StatusWaiting
          then (resumed d p now)\<lparr>notified := Suc (notified d)\<rparr> else d)"

lemma resumed_same:
  assumes "\<forall>t\<in>set (tasks d). t_Id t = i \<longrightarrow> t_Status t \<noteq> StatusWaiting"
  shows "resumed d i now = d"
proof -
  have "update_where (\<lambda>t. t_Id t = i \<and> t_Status t = StatusWaiting) g (tasks d) = tasks d" for g
    using assms by (intro update_where_none) auto
  then show ?thesis by (simp add: resumed_def)
qed

lemma maybeResumeParent_tx:
  assumes ok: "tasks_ok d q0" and t: "t \<in> set (tasks d)" "t_Id t = i" and "task_id_ok i"
    and "\<forall>u\<in>set (tasks d). task_id_ok (t_Id u)"
  shows "\<exists>n'. outcome (check (maybeResumeParent (reliable P) Tx i) w k) (in_tx s lvl t0 n d q) =
    outcome (k ()) (in_tx s lvl t0 n' (resume_parent d (t_ParentId t) t0) q)"
proof -
  have keyed: "keyed t_Id (tasks d)" using ok by (simp add: tasks_ok_def)
  have sel: "select_parent i t0 d q = (Inr (d, [t_ParentId t]), q)"
    using keyed_filter_eq [OF keyed t(1)] t(2) assms(4) by (simp add: select_parent_def select_stmt_def)
  show ?thesis
  proof (cases "t_ParentId t")
    case None
    with sel show ?thesis by (auto simp: maybeResumeParent_def wp_rules resume_parent_def)
  next
    case (Some p)
    then have "p \<in> t_Id ` set (tasks d)" using ok t(1) by (simp add: tasks_ok_def)
    then obtain u where u: "u \<in> set (tasks d)" "t_Id u = p" by blast
    then have p: "task_id_ok p" using assms(5) by auto
    note res = resume_stmt_eval [OF ok u p]
    show ?thesis
    proof (cases "t_Status u = StatusWaiting")
      case True
      then have "\<exists>t\<in>set (tasks d). t_Id t = p \<and> t_Status t = StatusWaiting" using u by auto
      then have rp: "resume_parent d (t_ParentId t) t0 = (resumed d p t0)\<lparr>notified := Suc (notified d)\<rparr>"
        by (simp add: Some resume_parent_def)
      have "notified (resumed d p t0) = notified d" by (simp add: resumed_def)
      then show ?thesis
        unfolding rp using True Some sel
        by (simp add: maybeResumeParent_def wp_rules res notify_def notify_stmt_def modify_stmt_def) blast
    next
      case False
      have "v = u" if "v \<in> set (tasks d)" "t_Id v = p" for v
        using keyed_inj [OF keyed that(1) u(1)] that(2) u(2) by simp
      with False have none: "\<forall>t\<in>set (tasks d). t_Id t = p \<longrightarrow> t_Status t \<noteq> StatusWaiting" by auto
      then have rp: "resume_parent d (t_ParentId t) t0 = d" by (auto simp: Some resume_parent_def)
      show ?thesis
        unfolding rp using False Some sel
        by (simp add: maybeResumeParent_def wp_rules res resumed_same [OF none]) blast
    qed
  qed
qed

text \<open>
  A completed or failed task, and its parent resumed. \<^verbatim>\<open>done_row\<close> is the row the result gives.
\<close>

definition done_row :: "Result \<Rightarrow> json option \<Rightarrow> Task \<Rightarrow> Task" where
  "done_row r v t =
     (if NewStatus r = StatusCompleted then release ((set_state v t)\<lparr>t_Status := StatusCompleted\<rparr>)
      else release (t\<lparr>t_Status := StatusFailed, t_Error := Some (ResultError r)\<rparr>))"

lemma done_row_simps [simp]:
  "t_Id (done_row r v t) = t_Id t" "t_ParentId (done_row r v t) = t_ParentId t"
  by (simp_all add: done_row_def)

lemma done_row_ok:
  assumes "task_row_ok t" and "NewStatus r = StatusFailed \<or> NewStatus r = StatusCompleted \<and> t_Status t \<noteq> StatusFailed"
  shows "task_row_ok (done_row r v t)"
  using assms by (auto simp: done_row_def release_row_ok fail_row_ok)

lemma set_finished: "t \<in> set (tasks d) \<Longrightarrow> t_Id t = i \<Longrightarrow> stamp now (g t) \<in> set (tasks (finished d i now g))"
  by (force simp: finished_def set_update_where)

lemma finish_step:
  assumes "tasks_ok d q0" and t: "t \<in> set (tasks d)" "t_Id t = i" and "task_id_ok i"
    and r: "NewStatus r = StatusFailed \<or> NewStatus r = StatusCompleted \<and> t_Status t \<noteq> StatusFailed"
    and "NewStatus r = StatusCompleted \<Longrightarrow> state_of P (NewState r) v"
  shows "outcome (check (applyResult (reliable P) Tx i r) w k) (in_tx s lvl t0 n d q) =
    outcome (check (maybeResumeParent (reliable P) Tx i) w k) (in_tx s lvl t0 (Suc n) (finished d i t0 (done_row r v)) q)"
proof -
  have "task_row_ok (done_row r v t)"
    using assms(1) t(1) r by (intro done_row_ok) (simp_all add: tasks_ok_def)
  note fin = finish_eval [where g = "done_row r v", OF assms(1) t this]
  show ?thesis
  proof (cases "NewStatus r = StatusCompleted")
    case True
    then have "done_row r v = (\<lambda>t. release ((set_state v t)\<lparr>t_Status := StatusCompleted\<rparr>))"
      by (intro ext) (simp add: done_row_def)
    with True fin assms(4,6) show ?thesis
      by (simp add: applyResult_def completeTask_def wp_rules complete_stmt_def with_state_eval)
  next
    case False
    then have "done_row r v = (\<lambda>t. release (t\<lparr>t_Status := StatusFailed, t_Error := Some (ResultError r)\<rparr>))"
      by (intro ext) (simp add: done_row_def)
    with False r fin assms(4) show ?thesis
      by (auto simp: applyResult_def failTask_def wp_rules fail_stmt_def)
  qed
qed

lemma finish_eval_parent:
  assumes ok: "tasks_ok d q0" and t: "t \<in> set (tasks d)" "t_Id t = i"
    and ids: "\<forall>u\<in>set (tasks d). task_id_ok (t_Id u)"
    and r: "NewStatus r = StatusFailed \<or> NewStatus r = StatusCompleted \<and> t_Status t \<noteq> StatusFailed"
    and v: "NewStatus r = StatusCompleted \<Longrightarrow> state_of P (NewState r) v"
  shows "\<exists>n'. outcome (check (applyResult (reliable P) Tx i r) w k) (in_tx s lvl t0 n d q) =
    outcome (k ()) (in_tx s lvl t0 n' (resume_parent (finished d i t0 (done_row r v)) (t_ParentId t) t0) q)"
proof -
  let ?d = "finished d i t0 (done_row r v)" and ?t = "stamp t0 (done_row r v t)"
  have i: "task_id_ok i" using ids t by auto
  have row: "task_row_ok (done_row r v t)"
    using ok t(1) r by (intro done_row_ok) (simp_all add: tasks_ok_def)
  have ok': "tasks_ok ?d q0" using ok t row by (intro finished_ok) simp_all
  have t': "?t \<in> set (tasks ?d)" "t_Id ?t = i" using t by (simp_all add: set_finished)
  have "t_Id ` set (tasks ?d) = t_Id ` set (tasks d)" by (simp add: finished_def)
  then have ids': "\<forall>u\<in>set (tasks ?d). task_id_ok (t_Id u)"
    using ids by (metis (no_types, lifting) image_iff)
  have step: "outcome (check (applyResult (reliable P) Tx i r) w k) (in_tx s lvl t0 n d q) =
      outcome (check (maybeResumeParent (reliable P) Tx i) w k) (in_tx s lvl t0 (Suc n) ?d q)"
    using ok t i r v by (rule finish_step)
  show ?thesis
    unfolding step using maybeResumeParent_tx [OF ok' t' i ids'] by simp
qed

section \<open>Cancelling\<close>

definition child_rel :: "db \<Rightarrow> (int \<times> int) set" where
  "child_rel d = {(p, c). \<exists>t\<in>set (tasks d). t_Id t = c \<and> t_ParentId t = Some p}"

definition descendants :: "db \<Rightarrow> int \<Rightarrow> int set" where
  "descendants d i = {j. (i, j) \<in> (child_rel d)\<^sup>*}"

definition mark_cancelled :: "int \<Rightarrow> int set \<Rightarrow> db \<Rightarrow> db" where
  "mark_cancelled now S d =
     d\<lparr>tasks := update_where (\<lambda>t. t_Id t \<in> S \<and> live t) (\<lambda>t. stamp now (cancelled_row t)) (tasks d)\<rparr>"

lemma cancelled_row_simps [simp]:
  "t_Id (cancelled_row t) = t_Id t" "t_ParentId (cancelled_row t) = t_ParentId t"
  "\<not> live (stamp now (cancelled_row t))"
  by (simp_all add: cancelled_row_def live_def)

lemma mark_compose: "mark_cancelled now S (mark_cancelled now T d) = mark_cancelled now (T \<union> S) d"
proof -
  have "update_where (\<lambda>t. t_Id t \<in> S \<and> live t) g (update_where (\<lambda>t. t_Id t \<in> T \<and> live t) g ts) =
      update_where (\<lambda>t. t_Id t \<in> T \<union> S \<and> live t) g ts" if "g = (\<lambda>t. stamp now (cancelled_row t))" for g ts
    using that by (induction ts) (auto simp: update_where_def)
  then show ?thesis by (simp add: mark_cancelled_def)
qed

lemma mark_children [simp]:
  "map t_Id (filter (\<lambda>t. t_ParentId t = Some i) (tasks (mark_cancelled now S d))) =
     map t_Id (filter (\<lambda>t. t_ParentId t = Some i) (tasks d))"
  "child_rel (mark_cancelled now S d) = child_rel d"
  "t_Id ` set (tasks (mark_cancelled now S d)) = t_Id ` set (tasks d)"
proof -
  have "map t_Id (filter (\<lambda>t. t_ParentId t = Some i) (update_where R (\<lambda>t. stamp now (cancelled_row t)) ts)) =
      map t_Id (filter (\<lambda>t. t_ParentId t = Some i) ts)" for R i ts
    by (induction ts) (auto simp: update_where_def)
  then show 1: "map t_Id (filter (\<lambda>t. t_ParentId t = Some i) (tasks (mark_cancelled now S d))) =
     map t_Id (filter (\<lambda>t. t_ParentId t = Some i) (tasks d))" for i
    by (simp add: mark_cancelled_def)
  have "child_rel e = {(p, c). c \<in> set (map t_Id (filter (\<lambda>t. t_ParentId t = Some p) (tasks e)))}" for e
    by (auto simp: child_rel_def)
  then show "child_rel (mark_cancelled now S d) = child_rel d" by (simp only: 1)
  show "t_Id ` set (tasks (mark_cancelled now S d)) = t_Id ` set (tasks d)"
    by (simp add: mark_cancelled_def)
qed

lemma descendants_unfold:
  "descendants d i = insert i (\<Union>c\<in>set (map t_Id (filter (\<lambda>t. t_ParentId t = Some i) (tasks d))). descendants d c)"
proof -
  have "(i, c) \<in> child_rel d \<longleftrightarrow> c \<in> set (map t_Id (filter (\<lambda>t. t_ParentId t = Some i) (tasks d)))" for c
    by (auto simp: child_rel_def)
  then show ?thesis
    by (auto simp: descendants_def elim: converse_rtranclE intro: converse_rtrancl_into_rtrancl simp del: set_map)
qed

lemma cancel_stmt_eval:
  assumes "tasks_ok d q0" and "task_id_ok i"
  shows "cancel_stmt i t0 d q = (Inr (mark_cancelled t0 {i} d, count_where (\<lambda>t. t_Id t = i \<and> live t) (tasks d)), q)"
proof -
  have "task_row_ok (cancelled_row t)" if "t \<in> set (tasks d)" for t
    using that assms(1)
    by (auto simp: tasks_ok_def cancelled_row_def task_row_ok_def task_lease_check_def task_error_check_def)
  then show ?thesis
    using assms(2) by (simp add: cancel_stmt_def update_tasks_def list_all_iff mark_cancelled_def)
qed

lemma mark_tasks_ok: "tasks_ok d q0 \<Longrightarrow> tasks_ok (mark_cancelled now S d) q0"
  unfolding mark_cancelled_def
  by (rule update_tasks_ok)
    (auto simp: list_all_iff tasks_ok_def cancelled_row_def task_row_ok_def task_lease_check_def task_error_check_def)

text \<open>
  The recursion needs a depth above the number of tasks younger than the task: children have
  larger ids than their parents.
\<close>

definition younger :: "db \<Rightarrow> int \<Rightarrow> nat" where
  "younger d i = card {j \<in> t_Id ` set (tasks d). i < j}"

lemma younger_child:
  assumes "tasks_ok d q0" and "t \<in> set (tasks d)" and "t_ParentId t = Some i"
  shows "younger d (t_Id t) < younger d i"
proof -
  have "i < t_Id t" using assms by (simp add: tasks_ok_def)
  then have "{j \<in> t_Id ` set (tasks d). t_Id t < j} \<subset> {j \<in> t_Id ` set (tasks d). i < j}"
    using assms(2) by auto
  then show ?thesis unfolding younger_def by (intro psubset_card_mono) simp_all
qed

lemma younger_le: "younger d i \<le> length (tasks d)"
proof -
  have "younger d i \<le> card (t_Id ` set (tasks d))"
    unfolding younger_def by (intro card_mono) auto
  also have "\<dots> \<le> card (set (tasks d))" by (rule card_image_le) simp
  also have "\<dots> \<le> length (tasks d)" by (rule card_length)
  finally show ?thesis .
qed

definition cancels :: "nat \<Rightarrow> pg \<Rightarrow> db \<Rightarrow> int \<Rightarrow> bool" where
  "cancels depth P d i =
     (\<forall>s lvl t0 n q (w :: goerr \<Rightarrow> goerr) (k :: unit \<Rightarrow> unit prog) S.
        \<exists>n'. outcome (check (cancelRecursive depth (reliable P) Tx i) w k) (in_tx s lvl t0 n (mark_cancelled t0 S d) q) =
          outcome (k ()) (in_tx s lvl t0 n' (mark_cancelled t0 (S \<union> descendants d i) d) q))"

lemma cancelsD:
  fixes k :: "unit \<Rightarrow> unit prog"
  assumes "cancels depth P d i"
  shows "\<exists>n'. outcome (check (cancelRecursive depth (reliable P) Tx i) w k) (in_tx s lvl t0 n (mark_cancelled t0 S d) q) =
    outcome (k ()) (in_tx s lvl t0 n' (mark_cancelled t0 (S \<union> descendants d i) d) q)"
  using assms unfolding cancels_def by blast

lemma cancel_children:
  fixes k :: "unit \<Rightarrow> unit prog"
  assumes "\<And>c. c \<in> set cs \<Longrightarrow> cancels depth P d c"
  shows "\<exists>n'. outcome (check (for_each (cancelRecursive depth (reliable P) Tx) cs) w k)
      (in_tx s lvl t0 n (mark_cancelled t0 S d) q) =
    outcome (k ()) (in_tx s lvl t0 n' (mark_cancelled t0 (S \<union> (\<Union>c\<in>set cs. descendants d c)) d) q)"
  using assms
proof (induction cs arbitrary: S n)
  case Nil
  show ?case by (auto simp: wp_rules)
next
  case (Cons c cs)
  let ?f = "cancelRecursive depth (reliable P) Tx"
  let ?S = "S \<union> descendants d c"
  obtain n1 where n1: "outcome (check (?f c) w (\<lambda>_. check (for_each ?f cs) w k)) (in_tx s lvl t0 n (mark_cancelled t0 S d) q) =
      outcome (check (for_each ?f cs) w k) (in_tx s lvl t0 n1 (mark_cancelled t0 ?S d) q)"
    using cancelsD Cons.prems [of c] by (metis list.set_intros(1))
  obtain n2 where "outcome (check (for_each ?f cs) w k) (in_tx s lvl t0 n1 (mark_cancelled t0 ?S d) q) =
      outcome (k ()) (in_tx s lvl t0 n2 (mark_cancelled t0 (?S \<union> (\<Union>c\<in>set cs. descendants d c)) d) q)"
    using Cons.IH [of n1 ?S] Cons.prems by auto
  with n1 show ?case by (auto simp: check_assoc Un_assoc)
qed

lemma mark_empty [simp]: "mark_cancelled now {} d = d"
  by (simp add: mark_cancelled_def update_where_def)

lemma cancelRecursive_cancels:
  assumes ok: "tasks_ok d q0" and ids: "\<forall>u\<in>set (tasks d). task_id_ok (t_Id u)"
  shows "task_id_ok i \<Longrightarrow> younger d i < depth \<Longrightarrow> cancels depth P d i"
proof (induction depth arbitrary: i)
  case (Suc depth)
  let ?cs = "map t_Id (filter (\<lambda>t. t_ParentId t = Some i) (tasks d))"
  have children: "cancels depth P d c" if c: "c \<in> set ?cs" for c
  proof -
    obtain t where t: "t \<in> set (tasks d)" "t_ParentId t = Some i" "c = t_Id t"
      using c unfolding set_map set_filter by blast
    with younger_child [OF ok t(1,2)] Suc.prems(2) ids show ?thesis by (intro Suc.IH) auto
  qed
  show ?case
    unfolding cancels_def
  proof (intro allI)
    fix s lvl t0 n q S and w :: "goerr \<Rightarrow> goerr" and k :: "unit \<Rightarrow> unit prog"
    let ?D = "\<lambda>S. mark_cancelled t0 S d"
    let ?last = "\<lambda>_. check (Exec (reliable P) Tx (cancel_stmt i)) (\<lambda>e. w (wrapf ''failed to cancel task: '' e)) (\<lambda>_. k ())"
    define U where "U = S \<union> (\<Union>c\<in>set ?cs. descendants d c)"
    have query: "select_child_ids i t0 (?D S) q = (Inr (?D S, ?cs), q)"
      using Suc.prems(1) by (simp add: select_child_ids_def select_stmt_def)
    have exec: "cancel_stmt i t0 (?D U) q =
        (Inr (?D (U \<union> {i}), count_where (\<lambda>t. t_Id t = i \<and> live t) (tasks (?D U))), q)"
      using cancel_stmt_eval [OF mark_tasks_ok [OF ok] Suc.prems(1)] by (simp add: mark_compose)
    have "outcome (check (cancelRecursive (Suc depth) (reliable P) Tx i) w k) (in_tx s lvl t0 n (?D S) q) =
        outcome (check (for_each (cancelRecursive depth (reliable P) Tx) ?cs) w ?last) (in_tx s lvl t0 (Suc n) (?D S) q)"
      by (simp add: wp_rules query)
    moreover obtain n1 where "outcome (check (for_each (cancelRecursive depth (reliable P) Tx) ?cs) w ?last)
        (in_tx s lvl t0 (Suc n) (?D S) q) = outcome (?last ()) (in_tx s lvl t0 n1 (?D U) q)"
      using cancel_children [of ?cs depth P d w ?last s lvl t0 "Suc n" S q] children unfolding U_def by auto
    moreover have "outcome (?last ()) (in_tx s lvl t0 n1 (?D U) q) = outcome (k ()) (in_tx s lvl t0 (Suc n1) (?D (U \<union> {i})) q)"
      by (simp add: wp_rules exec)
    moreover have "U \<union> {i} = S \<union> descendants d i" unfolding U_def by (subst descendants_unfold [of d i]) auto
    ultimately show "\<exists>n'. outcome (check (cancelRecursive (Suc depth) (reliable P) Tx i) w k) (in_tx s lvl t0 n (?D S) q) =
        outcome (k ()) (in_tx s lvl t0 n' (?D (S \<union> descendants d i)) q)" by metis
  qed
qed simp

text \<open>The transaction around a call of \<^verbatim>\<open>Cancel\<close>, as a caller opens it.\<close>

definition cancel_in_tx :: "nat \<Rightarrow> pg \<Rightarrow> int \<Rightarrow> unit prog" where
  "cancel_in_tx depth P i = with_tx P [] (\<lambda>e. e) (bind (Cancel depth P Tx i) (\<lambda>_. bind (Commit P) (\<lambda>_. ret ())))"

lemma Cancel_outcome:
  assumes "good (committed s) q0" and "\<forall>u\<in>set (tasks (committed s)). task_id_ok (t_Id u)" and "task_id_ok i"
    and "younger (committed s) i < depth"
  shows "outcome (cancel_in_tx depth (reliable P) i) s =
    (Ok (), mark_cancelled (clock_at P (calls s)) (descendants (committed s) i) (committed s), seqs_of s)"
proof -
  have "cancels depth P (committed s) i"
    using cancelRecursive_cancels [OF good_tasks_ok [OF assms(1)] assms(2-4)] .
  from cancelsD [OF this, where S = "{}" and w = "\<lambda>e. e" and k = "\<lambda>_. bind (Commit (reliable P)) (\<lambda>_. ret ())"
      and s = s and lvl = None and ?t0.0 = "clock_at P (calls s)" and n = "Suc (calls s)" and q = "seqs_of s"]
  show ?thesis
    by (auto simp: cancel_in_tx_def Cancel_def outcome_with_tx outcome_Commit_then outcome_ret)
qed

end
