(* ===== verification/VM_Process.thy ===== *)
theory VM_Process
  imports VM_TaskOps
begin

text \<open>
  A task from its claim to its result (src/internal/lib/vmtask: notify.go, worker.go): what a scan
  can assign, and \<^verbatim>\<open>processTask\<close> around a handler.
\<close>

section \<open>Scans\<close>

definition eligible :: "(int \<Rightarrow> bool) \<Rightarrow> string list \<Rightarrow> int \<Rightarrow> Task \<Rightarrow> bool" where
  "eligible locked tys now t = (claimable now t \<and> t_TaskType t \<in> set tys \<and> \<not> locked (t_Id t))"

lemma next_task_cases:
  obtains (none) "next_task locked tys now d = None" "\<forall>u\<in>set (tasks d). \<not> eligible locked tys now u"
  | (some) t where "next_task locked tys now d = Some t" "t \<in> set (tasks d)" "eligible locked tys now t"
      "\<forall>u\<in>set (tasks d). eligible locked tys now u \<longrightarrow> t_CreatedAt t \<le> t_CreatedAt u"
proof (cases "next_task locked tys now d")
  case None
  then have "\<forall>u\<in>set (tasks d). \<not> eligible locked tys now u"
    using next_task_none [of locked tys now d] by (auto simp: eligible_def)
  with None none show thesis by blast
next
  case (Some t)
  have "\<forall>u\<in>set (tasks d). eligible locked tys now u \<longrightarrow> t_CreatedAt t \<le> t_CreatedAt u"
    using next_task_least(5) [OF Some] by (auto simp: eligible_def)
  moreover have "t \<in> set (tasks d)" "eligible locked tys now t"
    using next_task_least(1-4) [OF Some] by (simp_all add: eligible_def)
  ultimately show thesis using Some some by blast
qed

section \<open>A handler's result\<close>

text \<open>
  What is known of a handler: on the transaction of the worker it gives the result \<open>r\<close> and leaves the
  tables \<open>d\<close> and the sequences \<open>q\<close>. It may have moved directories.
\<close>

definition handles ::
  "pg \<Rightarrow> taskAssignment \<Rightarrow> sess \<Rightarrow> Result \<Rightarrow> nat \<Rightarrow> db \<Rightarrow> seqs \<Rightarrow> bool" where
  "handles P a s r n d q =
     (let t0 = clock_at P (calls s) in
      \<exists>moved. a_handler a (reliable P) (a_taskId a) (a_taskType a) (a_state a)
        (in_tx s (Some ReadCommitted) t0 (Suc (calls s)) (committed s) (seqs_of s)) =
      (Ok r, in_tx (s\<lparr>renames := moved\<rparr>) (Some ReadCommitted) t0 n d q))"

abbreviation finish_task :: "pg \<Rightarrow> taskAssignment \<Rightarrow> Result \<Rightarrow> unit prog" where
  "finish_task P a r \<equiv>
     check (applyResult (reliable P) Tx (a_taskId a) r) (task_log ''failed to apply result for'' (a_taskId a)) (\<lambda>_.
     check (Commit (reliable P)) (task_log ''failed to commit transaction for'' (a_taskId a)) (\<lambda>_. ret ()))"

lemma processTask_handled:
  assumes "handles P a s r n d q"
  obtains moved where "outcome (processTask (reliable P) a) s =
    outcome (finish_task P a r) (in_tx (s\<lparr>renames := moved\<rparr>) (Some ReadCommitted) (clock_at P (calls s)) n d q)"
proof -
  obtain moved where "a_handler a (reliable P) (a_taskId a) (a_taskType a) (a_state a)
      (in_tx s (Some ReadCommitted) (clock_at P (calls s)) (Suc (calls s)) (committed s) (seqs_of s)) =
      (Ok r, in_tx (s\<lparr>renames := moved\<rparr>) (Some ReadCommitted) (clock_at P (calls s)) n d q)"
    using assms by (auto simp: handles_def Let_def)
  then show thesis
    by (intro that) (simp add: processTask_def outcome_with_tx
        outcome_check_Ok [where m = "a_handler a (reliable P) (a_taskId a) (a_taskType a) (a_state a)"])
qed

lemma processTask_finishes:
  assumes "handles P a s r n d q" and "tasks_ok d q0" and "t \<in> set (tasks d)" and "t_Id t = a_taskId a"
    and "\<forall>u\<in>set (tasks d). task_id_ok (t_Id u)"
    and "NewStatus r = StatusFailed \<or>
      NewStatus r = StatusCompleted \<and> t_Status t \<noteq> StatusFailed \<and> state_of P (NewState r) v"
  shows "outcome (processTask (reliable P) a) s =
    (Ok (), resume_parent (finished d (a_taskId a) (clock_at P (calls s)) (done_row r v)) (t_ParentId t) (clock_at P (calls s)), q)"
proof -
  have done1: "NewStatus r = StatusFailed \<or> NewStatus r = StatusCompleted \<and> t_Status t \<noteq> StatusFailed"
    and done2: "NewStatus r = StatusCompleted \<Longrightarrow> state_of P (NewState r) v" using assms(6) by auto
  obtain moved where run: "outcome (processTask (reliable P) a) s =
    outcome (finish_task P a r) (in_tx (s\<lparr>renames := moved\<rparr>) (Some ReadCommitted) (clock_at P (calls s)) n d q)"
    using assms(1) by (rule processTask_handled)
  from finish_eval_parent [OF assms(2-5) done1 done2, where w = "task_log ''failed to apply result for'' (a_taskId a)"
      and k = "\<lambda>_. check (Commit (reliable P)) (task_log ''failed to commit transaction for'' (a_taskId a)) (\<lambda>_. ret ())"
      and s = "s\<lparr>renames := moved\<rparr>" and lvl = "Some ReadCommitted" and ?t0.0 = "clock_at P (calls s)" and n = n and q = q]
  show ?thesis
    by (auto simp: run outcome_Commit_then outcome_ret)
qed

lemma processTask_requeues:
  assumes "handles P a s r n d q" and "tasks_ok d q0" and "t \<in> set (tasks d)" and "t_Id t = a_taskId a"
    and "task_id_ok (a_taskId a)" and "t_Status t \<noteq> StatusFailed"
    and "NewStatus r = StatusPending \<or> NewStatus r = StatusWaiting" and "state_of P (NewState r) v"
  shows "outcome (processTask (reliable P) a) s =
    (Ok (), finished d (a_taskId a) (clock_at P (calls s)) (\<lambda>t. release ((set_state v t)\<lparr>t_Status := NewStatus r\<rparr>)), q)"
proof -
  have r: "r = \<lparr>NewState = NewState r, NewStatus = NewStatus r, ResultError = ResultError r\<rparr>" by simp
  show ?thesis
    by (rule processTask_handled [OF assms(1)], erule ssubst, subst r, subst requeue_eval [OF assms(2-4,6,5,7,8)]) (simp add: outcome_Commit_then outcome_ret)
qed

text \<open>
  The result of a handler whose task was cancelled meanwhile breaks the CHECK constraint on the
  error column, unless it is a failure too: the transaction is rolled back.
\<close>

lemma revive_refused:
  assumes "tasks_ok d q0" and "t \<in> set (tasks d)" and "t_Id t = i" and "t_Status t = StatusFailed"
    and "st \<noteq> StatusFailed"
  shows "update_tasks (\<lambda>t. t_Id t = i) (\<lambda>t. release ((set_state v t)\<lparr>t_Status := st\<rparr>)) now d q = (Inl check_violation, q)"
proof -
  have "t_Error t \<noteq> None"
    using assms(1,2,4) by (auto simp: tasks_ok_def task_row_ok_def task_error_check_def)
  then have "\<not> task_row_ok (release ((set_state v t)\<lparr>t_Status := st\<rparr>))"
    using assms(5) by (simp add: task_row_ok_def task_error_check_def release_def set_state_def split: option.splits)
  then show ?thesis using assms(2,3) by (auto simp: update_tasks_def list_all_iff)
qed

lemma processTask_refused:
  assumes "handles P a s r n d q" and "tasks_ok d q0" and "t \<in> set (tasks d)" and "t_Id t = a_taskId a"
    and "task_id_ok (a_taskId a)" and "t_Status t = StatusFailed" and "NewStatus r \<noteq> StatusFailed"
  shows "\<exists>e. outcome (processTask (reliable P) a) s = (Err e, committed s, q)"
proof -
  have bad: "with_state P (NewState r) (\<lambda>v. update_tasks (\<lambda>t. t_Id t = a_taskId a)
      (\<lambda>t. release ((set_state v t)\<lparr>t_Status := st\<rparr>))) now d q \<in> {(Inl check_violation, q), (Inl invalid_json, q)}"
    if "st \<noteq> StatusFailed" for st now
    using revive_refused [OF assms(2,3,4,6) that] by (auto simp: with_state_def split: option.splits)
  obtain moved where run: "outcome (processTask (reliable P) a) s =
    outcome (finish_task P a r) (in_tx (s\<lparr>renames := moved\<rparr>) (Some ReadCommitted) (clock_at P (calls s)) n d q)"
    using assms(1) by (rule processTask_handled)
  show ?thesis
    using assms(5,7) bad [of StatusPending "clock_at P (calls s)"] bad [of StatusWaiting "clock_at P (calls s)"]
      bad [of StatusCompleted "clock_at P (calls s)"]
    by (cases "NewStatus r")
      (auto simp: run applyResult_def updateTaskState_def completeTask_def wp_rules
        update_state_stmt_def complete_stmt_def)
qed

end
