(* ===== verification/VM_Demo.thy ===== *)
theory VM_Demo
  imports VM_CardOps VM_Process
begin

text \<open>
  A concrete driver and a concrete database on which the properties of the development are
  instantiated: a movie with one edition, a kind of edition, and a family of tasks.
\<close>

definition ascii_lower :: "string \<Rightarrow> string" where
  "ascii_lower s = map (\<lambda>c. if between 65 90 c then char_of (of_char c + 32 :: nat) else c) s"

definition demo_pg :: pg where
  "demo_pg = \<lparr>fault_at = (\<lambda>_. NoFault), late_at = (\<lambda>_. False), clock_at = (\<lambda>n. 1000), sql_lower = ascii_lower,
     jsonb_in = parse_json, jsonb_out = (\<lambda>_. ''{}''), state_media_id = (\<lambda>_. None)\<rparr>"

definition demo_task :: "int \<Rightarrow> Status \<Rightarrow> string option \<Rightarrow> int option \<Rightarrow> int option \<Rightarrow> int \<Rightarrow> Task" where
  "demo_task i st w l p c =
     \<lparr>t_Id = i, t_TaskType = ''ingest'', t_State = JObj [], t_Status = st, t_WorkerId = w, t_LeaseExpiresAt = l,
      t_Error = None, t_ParentId = p, t_CreatedAt = c, t_UpdatedAt = c\<rparr>"

definition demo_db :: db where
  "demo_db = empty_db\<lparr>
     catalog_cards := [\<lparr>c_id = 1, c_name = ''Alien'', c_note = None\<rparr>,
                       \<lparr>c_id = 2, c_name = ''Alien (DVD)'', c_note = None\<rparr>],
     catalog_movies := [\<lparr>mv_card_id = 1, mv_release_year = None, mv_tmdb_id = Some 348, mv_fanart_id = None\<rparr>],
     movie_edition_kinds := [\<lparr>k_id = 1, k_name = ''Theatrical'', k_is_default = True\<rparr>,
                             \<lparr>k_id = 2, k_name = ''Extended'', k_is_default = False\<rparr>],
     catalog_movie_editions := [\<lparr>e_card_id = 2, e_kind_id = 1, e_movie_card_id = 1\<rparr>],
     tasks := [demo_task 1 StatusWaiting None None None 10,
               demo_task 2 StatusRunning (Some ''w1'') (Some 500) (Some 1) 20,
               demo_task 3 StatusPending None None (Some 1) 30,
               demo_task 4 StatusCompleted None None None 40]\<rparr>"

definition demo_seqs :: seqs where
  "demo_seqs = \<lparr>card_seq = 2, kind_seq = 2, media_set_seq = 0, media_seq = 0, task_seq = 4\<rparr>"

definition demo_sess :: sess where
  "demo_sess = \<lparr>committed = demo_db, seqs_of = demo_seqs, txn = None, calls = 0, renames = []\<rparr>"

lemma demo_sess_simps [simp]:
  "committed demo_sess = demo_db" "seqs_of demo_sess = demo_seqs" "txn demo_sess = None" "calls demo_sess = 0"
  by (simp_all add: demo_sess_def)

lemma demo_pg_simps [simp]:
  "fault_at demo_pg n = NoFault" "clock_at demo_pg n = 1000" "late_at demo_pg n = False"
  "sql_lower demo_pg = ascii_lower" "jsonb_out demo_pg v = ''{}''" "jsonb_in demo_pg = parse_json" "reliable demo_pg = demo_pg"
  by (simp_all add: demo_pg_def reliable_def)

lemma demo_good: "good demo_db demo_seqs"
  by (auto simp: good_def schema_defs demo_db_def demo_seqs_def empty_db_def demo_task_def max_serial_def
      keyed_def count_where_def task_row_ok_def task_lease_check_def task_error_check_def
      details_ok_def one_detail_def)

definition demo_post :: PostCardBody where
  "demo_post = \<lparr>pc_Name = ''Aliens'', pc_Note = None,
     pc_Details = \<lparr>cd_Movie = Some \<lparr>mo_TmdbId = Some 679, mo_FanartId = None\<rparr>, cd_MovieEdition = None\<rparr>\<rparr>"

lemma demo_post_ok:
  "pc_Name demo_post \<noteq> []" "\<not> card_name_taken demo_pg demo_db (pc_Name demo_post)"
  "valid_details demo_db (pc_Details demo_post)" "card_seq demo_seqs < max_serial" "card_seq demo_seqs + 1 = 3"
  by code_simp+

definition demo_rename :: CardPatch where
  "demo_rename = \<lparr>cp_Name = Some ''Alien (1979)'', cp_Note = None, cp_Movie = None, cp_MovieEdition = None\<rparr>"

text \<open>A handler that leaves the tables alone and gives a fixed result, and a registry with it.\<close>

definition demo_handler :: "Result \<Rightarrow> handler" where
  "demo_handler r P i ty st = ret r"

definition demo_registry :: "handler registry option" where
  "demo_registry = Some (Some [(''ingest'', demo_handler Completed)])"

definition demo_assignment :: "int \<Rightarrow> Result \<Rightarrow> taskAssignment" where
  "demo_assignment i r = \<lparr>a_taskId = i, a_taskType = ''ingest'', a_state = ''{}'', a_handler = demo_handler r\<rparr>"

lemma demo_handles: "handles demo_pg (demo_assignment i r) s r (Suc (calls s)) (committed s) (seqs_of s)"
  by (auto simp: handles_def demo_assignment_def demo_handler_def ret_def Let_def in_tx_def
      intro!: exI [where x = "renames s"])

lemma demo_assignment_id [simp]: "a_taskId (demo_assignment i r) = i"
  by (simp add: demo_assignment_def)

lemma demo_tasks_ok: "tasks_ok demo_db demo_seqs"
  using demo_good by (rule good_tasks_ok)

text \<open>The session after a first claim, and after task 3 was cancelled.\<close>

definition demo_claimed :: sess where
  "demo_claimed = demo_sess\<lparr>committed := claim_in demo_db 2 1000 ''w2'' (1000 + LeaseDuration), calls := 3\<rparr>"

definition demo_cancelled :: sess where
  "demo_cancelled = demo_sess\<lparr>committed := mark_cancelled 900 {3} demo_db\<rparr>"

lemma demo_ids: "\<forall>u\<in>set (tasks demo_db). task_id_ok (t_Id u)"
  by code_simp

lemma demo_first_scan:
  "\<exists>a. outcome (scanAndAssign (reliable demo_pg) demo_registry [''ingest''] (\<lambda>_. False) False 1000 ''w2'') demo_sess =
     (Ok (Assigned a), committed demo_claimed, seqs_of demo_claimed)"
proof -
  have "next_task (\<lambda>_. False) [''ingest''] 1000 demo_db = Some (demo_task 2 StatusRunning (Some ''w1'') (Some 500) (Some 1) 20)"
    by code_simp
  then show ?thesis
    using scanAndAssign_claims [of demo_sess demo_seqs "\<lambda>_. False" "[''ingest'']" demo_pg _ demo_registry] demo_good
    by (simp add: demo_task_def demo_registry_def registry_Get_def demo_claimed_def)
qed

end
