(* ===== verification/VM_Links.thy ===== *)
theory VM_Links
  imports VM_Cards VM_TaskOps
begin

text \<open>
  What media and media sets share (src/internal/services/media): both are linked to cards through a
  table of pairs, with the same statements and checks. The locale \<^verbatim>\<open>link_table\<close> is the contract of such
  a table; in it are proved once the loop that links the cards of a new row, and the patches that add
  and remove a link.
\<close>

section \<open>Shared steps of the handlers\<close>

definition card_id_count :: "uint32 \<Rightarrow> nat list stmt" where
  "card_id_count i = int4 [i] (select_stmt (\<lambda>d. [count_where (\<lambda>c. c_id c = i) (catalog_cards d)]))"

definition opt_arg :: "uint32 option \<Rightarrow> uint32 list" where
  "opt_arg x = (case x of None \<Rightarrow> [] | Some v \<Rightarrow> [v])"

definition no_commit :: "goerr \<Rightarrow> goerr" where
  "no_commit = wrapf ''could not commit transaction: ''"

text \<open>An update that has to find its row.\<close>

definition exec_found :: "pg \<Rightarrow> nat stmt \<Rightarrow> string \<Rightarrow> string \<Rightarrow> unit prog" where
  "exec_found P st msg missing =
     check (Exec P Tx st) (wrapf msg) (\<lambda>rowsAffected.
     if rowsAffected = 0 then fail NotFound (errorf missing) else ret ())"

text \<open>The check that a card exists, before it is linked.\<close>

definition card_exists :: "pg \<Rightarrow> uint32 \<Rightarrow> unit prog" where
  "card_exists P cardId =
     check (QueryOne P Tx (card_id_count cardId)) (wrapf ''could not verify card existence: '') (\<lambda>n.
     if n = 0 then fail BadRequest (errorf (card_not_found cardId)) else ret ())"

definition when_set :: "'a option \<Rightarrow> ('a \<Rightarrow> unit prog) \<Rightarrow> unit prog" where
  "when_set x f = (case x of None \<Rightarrow> ret () | Some v \<Rightarrow> f v)"

text \<open>The two steps for a card in the loop of a post, for a link table with the given insert.\<close>

definition link_card :: "(uint32 \<Rightarrow> uint32 \<Rightarrow> nat stmt) \<Rightarrow> string \<Rightarrow> pg \<Rightarrow> uint32 \<Rightarrow> uint32 \<Rightarrow> unit prog" where
  "link_card insert_link msg P i cardId =
     bind (card_exists P cardId) (\<lambda>_.
     check (Exec P Tx (insert_link i cardId)) (wrapf msg) (\<lambda>_. ret ()))"

text \<open>The patches that add and remove a link; \<^verbatim>\<open>what\<close> is the noun of their messages.\<close>

definition add_link ::
  "(uint32 \<Rightarrow> uint32 \<Rightarrow> nat list stmt) \<Rightarrow> (uint32 \<Rightarrow> uint32 \<Rightarrow> nat stmt) \<Rightarrow> string \<Rightarrow> pg \<Rightarrow> uint32 \<Rightarrow> uint32 \<Rightarrow> unit prog" where
  "add_link link_count insert_link what P i cardId =
     bind (card_exists P cardId) (\<lambda>_.
     check (QueryOne P Tx (link_count i cardId)) (wrapf ''could not check for existing link: '') (\<lambda>linkCount.
     if 0 < linkCount
     then fail AlreadyExists (errorf (''card with id '' @ decimal (unat cardId) @ '' is already linked to this '' @ what))
     else check (Exec P Tx (insert_link i cardId)) (wrapf ''could not add card link: '') (\<lambda>_. ret ())))"

definition remove_link :: "(uint32 \<Rightarrow> uint32 \<Rightarrow> nat stmt) \<Rightarrow> string \<Rightarrow> pg \<Rightarrow> uint32 \<Rightarrow> uint32 \<Rightarrow> unit prog" where
  "remove_link delete_link what P i cardId =
     check (Exec P Tx (delete_link i cardId)) (wrapf ''could not remove card link: '') (\<lambda>rowsAffected.
     if rowsAffected = 0
     then fail BadRequest (errorf (''card with id '' @ decimal (unat cardId) @ '' is not linked to this '' @ what))
     else ret ())"

section \<open>The contract of a link table\<close>

lemma count_pair:
  assumes "distinct ls"
  shows "count_where (\<lambda>l. l = x) ls = (if x \<in> set ls then 1 else 0)"
  using keyed_def [of "\<lambda>x. x" ls] assms count_where_key [of "\<lambda>x. x" ls x] by simp

locale link_table =
  fixes links :: "db \<Rightarrow> (uint32 \<times> uint32) list"
    and put_links :: "(uint32 \<times> uint32) list \<Rightarrow> db \<Rightarrow> db"
    and owner :: "db \<Rightarrow> uint32 \<Rightarrow> bool"
    and insert_link delete_link :: "uint32 \<Rightarrow> uint32 \<Rightarrow> nat stmt"
    and link_count :: "uint32 \<Rightarrow> uint32 \<Rightarrow> nat list stmt"
    and card_ids :: "uint32 \<Rightarrow> uint32 list stmt"
  assumes put_frame: "links (put_links ls d) = ls" "catalog_cards (put_links ls d) = catalog_cards d"
      "owner (put_links ls d) = owner d" "put_links ls (put_links ls' d) = put_links ls d" "put_links (links d) d = d"
    and insert_eval: "insert_link i c = int4 [i, c] (modify_stmt (\<lambda>d.
       if (i, c) \<in> set (links d) then Inl unique_violation
       else if \<not> owner d i \<or> c \<notin> c_id ` set (catalog_cards d) then Inl foreign_key_violation
       else Inr (put_links (links d @ [(i, c)]) d, 1)))"
    and delete_eval: "delete_link i c = int4 [i, c] (modify_stmt (\<lambda>d.
       Inr (put_links (filter (\<lambda>l. l \<noteq> (i, c)) (links d)) d, count_where (\<lambda>l. l = (i, c)) (links d))))"
    and count_eval: "link_count i c = int4 [i, c] (select_stmt (\<lambda>d. [count_where (\<lambda>l. l = (i, c)) (links d)]))"
    and ids_eval: "card_ids i = int4 [i] (select_stmt (\<lambda>d. sort (map snd (filter (\<lambda>l. fst l = i) (links d)))))"
begin

lemma card_exists_tx:
  assumes "serial_ok c_id v (catalog_cards d)"
  shows "outcome (check (card_exists (reliable P) c) w k) (in_tx s lvl t0 n d q) =
    (if c \<in> c_id ` set (catalog_cards d) then outcome (k ()) (in_tx s lvl t0 (Suc n) d q)
     else if c \<le> max_serial then (Err (w (HttpError ProblemBadRequest 400 (errorf (card_not_found c)))), committed s, q)
     else (err_outcome (\<lambda>e. w (wrapf ''could not verify card existence: '' e)) (late_at P n) int4_range, committed s, q))"
proof -
  have ser: "keyed c_id (catalog_cards d)" "c \<in> c_id ` set (catalog_cards d) \<Longrightarrow> c \<le> max_serial"
    using assms by (auto simp: serial_ok_def)
  then show ?thesis
    by (auto simp: card_exists_def wp_rules card_id_count_def int4_def select_stmt_def count_where_key [OF ser(1)])
qed

lemma card_le: "serial_ok c_id v (catalog_cards d) \<Longrightarrow> c \<in> c_id ` set (catalog_cards d) \<Longrightarrow> c \<le> max_serial"
  by (auto simp: serial_ok_def)

lemma link_card_tx:
  assumes "serial_ok c_id v (catalog_cards d)" and "i \<le> max_serial" and "owner d i"
    and "c \<in> c_id ` set (catalog_cards d)" and "(i, c) \<notin> set (links d)"
  shows "outcome (check (link_card insert_link msg (reliable P) i c) w k) (in_tx s lvl t0 n d q) =
    outcome (k ()) (in_tx s lvl t0 (Suc (Suc n)) (put_links (links d @ [(i, c)]) d) q)"
  using assms card_le [OF assms(1,4)]
  by (simp add: link_card_def check_assoc card_exists_tx wp_rules insert_eval modify_stmt_def)

lemma link_card_fails:
  assumes "serial_ok c_id v (catalog_cards d)"
    and "c \<notin> c_id ` set (catalog_cards d) \<or> (i, c) \<in> set (links d)"
  shows "\<exists>e. outcome (check (link_card insert_link msg (reliable P) i c) w k) (in_tx s lvl t0 n d q) =
    (Err e, committed s, q)"
  using assms
  by (auto simp: link_card_def check_assoc card_exists_tx wp_rules insert_eval modify_stmt_def int4_def)

definition linkable :: "db \<Rightarrow> uint32 \<Rightarrow> uint32 list \<Rightarrow> bool" where
  "linkable d i cs =
     (distinct cs \<and> set cs \<subseteq> c_id ` set (catalog_cards d) \<and> (\<forall>c\<in>set cs. (i, c) \<notin> set (links d)))"

lemma link_loop:
  assumes "serial_ok c_id v (catalog_cards d)" and "i \<le> max_serial" and "owner d i" and "linkable d i cs"
  shows "\<exists>n'. outcome (check (for_each (link_card insert_link msg (reliable P) i) cs) w k) (in_tx s lvl t0 n d q) =
    outcome (k ()) (in_tx s lvl t0 n' (put_links (links d @ map (Pair i) cs) d) q)"
  using assms
proof (induction cs arbitrary: d n)
  case Nil
  then show ?case by (auto simp: wp_rules put_frame)
next
  case (Cons c cs)
  let ?d = "put_links (links d @ [(i, c)]) d"
  have "linkable ?d i cs" using Cons.prems(4) by (auto simp: linkable_def put_frame)
  from Cons.IH [of ?d "Suc (Suc n)"] this Cons.prems(1-3)
  have "\<exists>n'. outcome (check (for_each (link_card insert_link msg (reliable P) i) cs) w k) (in_tx s lvl t0 (Suc (Suc n)) ?d q) =
      outcome (k ()) (in_tx s lvl t0 n' (put_links (links d @ map (Pair i) (c # cs)) d) q)"
    by (simp add: put_frame)
  moreover have "c \<in> c_id ` set (catalog_cards d)" "(i, c) \<notin> set (links d)"
    using Cons.prems(4) by (auto simp: linkable_def)
  note step = link_card_tx [OF Cons.prems(1-3) this]
  ultimately show ?case by (simp add: check_assoc step)
qed

lemma link_loop_fails:
  assumes "serial_ok c_id v (catalog_cards d)" and "i \<le> max_serial" and "owner d i" and "\<not> linkable d i cs"
  shows "\<exists>e. outcome (check (for_each (link_card insert_link msg (reliable P) i) cs) w k) (in_tx s lvl t0 n d q) =
    (Err e, committed s, q)"
  using assms
proof (induction cs arbitrary: d n)
  case (Cons c cs)
  let ?d = "put_links (links d @ [(i, c)]) d"
  show ?case
  proof (cases "c \<in> c_id ` set (catalog_cards d) \<and> (i, c) \<notin> set (links d)")
    case True
    with Cons.prems(4) have "\<not> linkable ?d i cs" by (auto simp: linkable_def put_frame)
    note step = link_card_tx [OF Cons.prems(1-3) conjunct1 [OF True] conjunct2 [OF True]]
    from Cons.IH [of ?d "Suc (Suc n)"] \<open>\<not> linkable ?d i cs\<close> Cons.prems(1-3) show ?thesis
      by (simp add: check_assoc put_frame step)
  next
    case False
    then show ?thesis
      using link_card_fails [OF Cons.prems(1)] by (simp add: check_assoc)
  qed
qed (simp add: linkable_def)

lemma add_link_tx:
  assumes "serial_ok c_id v (catalog_cards d)" and "i \<le> max_serial" and "owner d i"
    and "c \<in> c_id ` set (catalog_cards d)" and "(i, c) \<notin> set (links d)"
  shows "outcome (check (add_link link_count insert_link what (reliable P) i c) w k) (in_tx s lvl t0 n d q) =
    outcome (k ()) (in_tx s lvl t0 (Suc (Suc (Suc n))) (put_links (links d @ [(i, c)]) d) q)"
proof -
  have "count_where (\<lambda>l. l = (i, c)) (links d) = 0" using assms(5) by (auto simp: count_where_def filter_empty_conv)
  note count = this
  show ?thesis
    using assms card_le [OF assms(1,4)]
    by (simp add: add_link_def check_assoc card_exists_tx wp_rules insert_eval count_eval modify_stmt_def select_stmt_def
        count del: count_where_pos)
qed

lemma add_link_twice:
  assumes "serial_ok c_id v (catalog_cards d)" and "i \<le> max_serial"
    and "c \<in> c_id ` set (catalog_cards d)" and "(i, c) \<in> set (links d)"
  shows "outcome (check (add_link link_count insert_link what (reliable P) i c) w k) (in_tx s lvl t0 n d q) =
    (Err (w (HttpError ProblemAlreadyExists 409
       (errorf (''card with id '' @ decimal (unat c) @ '' is already linked to this '' @ what)))), committed s, q)"
proof -
  have "filter (\<lambda>l. l = (i, c)) (links d) \<noteq> []" using assms(4) by (auto simp: filter_empty_conv)
  then have "0 < count_where (\<lambda>l. l = (i, c)) (links d)" by (simp add: count_where_def)
  then show ?thesis
    using assms card_le [OF assms(1,3)]
    by (simp add: add_link_def check_assoc card_exists_tx wp_rules count_eval select_stmt_def)
qed

lemma remove_link_tx:
  assumes "i \<le> max_serial" and "c \<le> max_serial" and "(i, c) \<in> set (links d)"
  shows "outcome (check (remove_link delete_link what (reliable P) i c) w k) (in_tx s lvl t0 n d q) =
    outcome (k ()) (in_tx s lvl t0 (Suc n) (put_links (filter (\<lambda>l. l \<noteq> (i, c)) (links d)) d) q)"
proof -
  have "filter (\<lambda>l. l = (i, c)) (links d) \<noteq> []" using assms(3) by (auto simp: filter_empty_conv)
  then show ?thesis
    using assms(1,2) by (simp add: remove_link_def wp_rules delete_eval modify_stmt_def count_where_def)
qed

lemma card_ids_tx:
  assumes "i \<le> max_serial"
  shows "outcome (check (Query (reliable P) Tx (card_ids i) collect []) w k) (in_tx s lvl t0 n d q) =
    outcome (k (sort (map snd (filter (\<lambda>l. fst l = i) (links d))))) (in_tx s lvl t0 (Suc n) d q)"
  using assms by (simp add: wp_rules ids_eval select_stmt_def)

end

text \<open>Shared facts for the invariants.\<close>

lemma good_media:
  assumes "good d q" and "media_ok (d\<lparr>media_sets := ss, media_tbl := ms, media_dvds := vs\<rparr>) (q\<lparr>media_set_seq := u, media_seq := v\<rparr>)"
    and "links_ok (d\<lparr>media_sets := ss, media_tbl := ms, media_dvds := vs\<rparr>)"
  shows "good (d\<lparr>media_sets := ss, media_tbl := ms, media_dvds := vs\<rparr>) (q\<lparr>media_set_seq := u, media_seq := v\<rparr>)"
  using assms
  by (simp add: good_def schema_ok_def catalog_ok_def tasks_ok_def details_ok_def one_detail_def)

lemma good_links:
  assumes "good d q" and "links_ok (d\<lparr>media_x_cards := xs, media_sets_x_cards := ys\<rparr>)"
  shows "good (d\<lparr>media_x_cards := xs, media_sets_x_cards := ys\<rparr>) q"
  using assms
  by (simp add: good_def schema_ok_def catalog_ok_def media_ok_def tasks_ok_def details_ok_def one_detail_def)

lemma goodM:
  assumes "good d q"
  shows "media_ok d q" and "links_ok d"
  using assms by (simp_all add: good_def schema_ok_def)

lemma linksD:
  assumes "links_ok d"
  shows "distinct (media_sets_x_cards d)" "l \<in> set (media_sets_x_cards d) \<Longrightarrow> fst l \<in> ms_id ` set (media_sets d)"
    "l \<in> set (media_sets_x_cards d) \<Longrightarrow> snd l \<in> c_id ` set (catalog_cards d)"
    "distinct (media_x_cards d)" "k \<in> set (media_x_cards d) \<Longrightarrow> fst k \<in> m_id ` set (media_tbl d)"
    "k \<in> set (media_x_cards d) \<Longrightarrow> snd k \<in> c_id ` set (catalog_cards d)"
  using assms by (auto simp: links_ok_def)

lemma good_set_links:
  assumes "good d q" and "distinct ys" and "\<And>l. l \<in> set ys \<Longrightarrow> fst l \<in> ms_id ` set (media_sets d)"
    and "\<And>l. l \<in> set ys \<Longrightarrow> snd l \<in> c_id ` set (catalog_cards d)"
  shows "good (d\<lparr>media_sets_x_cards := ys\<rparr>) q"
  using good_links [where d = d and q = q and xs = "media_x_cards d" and ys = ys] assms goodM(2) [OF assms(1)]
  by (simp add: links_ok_def image_subset_iff)

lemma good_media_links:
  assumes "good d q" and "distinct xs" and "\<And>l. l \<in> set xs \<Longrightarrow> fst l \<in> m_id ` set (media_tbl d)"
    and "\<And>l. l \<in> set xs \<Longrightarrow> snd l \<in> c_id ` set (catalog_cards d)"
  shows "good (d\<lparr>media_x_cards := xs\<rparr>) q"
  using good_links [where d = d and q = q and xs = xs and ys = "media_sets_x_cards d"] assms goodM(2) [OF assms(1)]
  by (simp add: links_ok_def image_subset_iff)

lemma card_id_count_keeps [stmt_ok]: "stmt_keeps good (card_id_count i)"
  by (simp add: card_id_count_def good.stmt_keeps_select good.stmt_keeps_int4)

lemma good_cards: "good d q \<Longrightarrow> serial_ok c_id (card_seq q) (catalog_cards d)"
  by (simp add: good_def schema_ok_def catalog_ok_def)

text \<open>Quiet, atomic and invariant steps.\<close>

lemma quiet_for_each: "(\<And>x. quiet (f x)) \<Longrightarrow> quiet (for_each f xs)"
  by (induction xs) (simp_all add: quiet_intros)

lemma atomic_for_each: "(\<And>x. atomic P (\<lambda>P. f P x)) \<Longrightarrow> (\<And>P x. quiet (f P x)) \<Longrightarrow> atomic P (\<lambda>P. for_each (f P) xs)"
  by (induction xs) (simp_all add: atomic_intros)

lemmas link_step_defs = exec_found_def card_exists_def when_set_def link_card_def add_link_def remove_link_def

end
