(* ===== verification/VM_MediaSets.thy ===== *)
theory VM_MediaSets
  imports VM_Links
begin

text \<open>
  Media sets (src/internal/services/media/media\_set.go): named groups of media, linked to cards. List,
  create, delete, read and patch.
\<close>

section \<open>Requests and responses\<close>

record MediaSet =
  mset_Id :: uint32
  mset_Name :: string
  mset_Note :: "string option"
  mset_CardIds :: "uint32 list"

record PostMediaSetBody =
  ps_Name :: string
  ps_Note :: "string option"
  ps_CardIds :: "uint32 list"

record MediaSetPatch =
  sp_Name :: "string option"
  sp_Note :: "string option"
  sp_ClearNote :: "bool option"
  sp_AddCardId :: "uint32 option"
  sp_RemoveCardId :: "uint32 option"
  sp_AddMediaId :: "uint32 option"
  sp_RemoveMediaId :: "uint32 option"

section \<open>Statements\<close>

definition list_sets_sql :: string where
  "list_sets_sql = ''SELECT id, name, note FROM media_sets WHERE id > @lastSeenId ORDER BY id ASC LIMIT @limit;''"

definition list_sets_stmt :: "uint32 \<Rightarrow> uint32 \<Rightarrow> media_set_row list stmt" where
  "list_sets_stmt lastSeenId lim =
     int4 [lastSeenId] (select_stmt (\<lambda>d. take (unat lim) (rows_above ms_id lastSeenId (media_sets d))))"

definition insert_media_set :: "string \<Rightarrow> string option \<Rightarrow> uint32 list stmt" where
  "insert_media_set name note now d q =
     (if media_set_seq q < max_serial then
        (let i = media_set_seq q + 1; q' = q\<lparr>media_set_seq := i\<rparr> in
         if name = [] then (Inl check_violation, q')
         else (Inr (d\<lparr>media_sets := media_sets d @ [\<lparr>ms_id = i, ms_name = name, ms_note = note\<rparr>]\<rparr>, [i]), q'))
      else (Inl sequence_exhausted, q))"

definition insert_set_link :: "uint32 \<Rightarrow> uint32 \<Rightarrow> nat stmt" where
  "insert_set_link i cardId = int4 [i, cardId] (modify_stmt (\<lambda>d.
     if (i, cardId) \<in> set (media_sets_x_cards d) then Inl unique_violation
     else if i \<notin> ms_id ` set (media_sets d) \<or> cardId \<notin> c_id ` set (catalog_cards d) then Inl foreign_key_violation
     else Inr (d\<lparr>media_sets_x_cards := media_sets_x_cards d @ [(i, cardId)]\<rparr>, 1)))"

definition delete_media_set :: "uint32 \<Rightarrow> nat stmt" where
  "delete_media_set i = int4 [i] (modify_stmt (\<lambda>d.
     if i \<notin> ms_id ` set (media_sets d) then Inr (d, 0)
     else if \<exists>m\<in>set (media_tbl d). m_media_set_id m = Some i then Inl foreign_key_violation
     else Inr (remove_media_set i d, count_where (\<lambda>m. ms_id m = i) (media_sets d))))"

definition set_card_ids :: "uint32 \<Rightarrow> uint32 list stmt" where
  "set_card_ids i = int4 [i] (select_stmt (\<lambda>d. sort (map snd (filter (\<lambda>l. fst l = i) (media_sets_x_cards d)))))"

definition select_media_set :: "uint32 \<Rightarrow> media_set_row list stmt" where
  "select_media_set i = int4 [i] (select_stmt (\<lambda>d. filter (\<lambda>m. ms_id m = i) (media_sets d)))"

definition update_media_set :: "uint32 \<Rightarrow> (media_set_row \<Rightarrow> media_set_row) \<Rightarrow> nat stmt" where
  "update_media_set i g = int4 [i] (modify_stmt (\<lambda>d.
     let rows = update_where (\<lambda>m. ms_id m = i) g (media_sets d) in
     if \<exists>m\<in>set rows. ms_name m = [] \<and> ms_id m = i then Inl check_violation
     else Inr (d\<lparr>media_sets := rows\<rparr>, count_where (\<lambda>m. ms_id m = i) (media_sets d))))"

definition update_set_name :: "string \<Rightarrow> uint32 \<Rightarrow> nat stmt" where
  "update_set_name name i = update_media_set i (\<lambda>m. m\<lparr>ms_name := name\<rparr>)"

definition update_set_note :: "string \<Rightarrow> uint32 \<Rightarrow> nat stmt" where
  "update_set_note note i = update_media_set i (\<lambda>m. m\<lparr>ms_note := Some note\<rparr>)"

definition clear_set_note :: "uint32 \<Rightarrow> nat stmt" where
  "clear_set_note i = update_media_set i (\<lambda>m. m\<lparr>ms_note := None\<rparr>)"

definition set_link_count :: "uint32 \<Rightarrow> uint32 \<Rightarrow> nat list stmt" where
  "set_link_count i cardId = int4 [i, cardId] (select_stmt (\<lambda>d.
     [count_where (\<lambda>l. l = (i, cardId)) (media_sets_x_cards d)]))"

definition delete_set_link :: "uint32 \<Rightarrow> uint32 \<Rightarrow> nat stmt" where
  "delete_set_link i cardId = int4 [i, cardId] (modify_stmt (\<lambda>d.
     Inr (d\<lparr>media_sets_x_cards := filter (\<lambda>l. l \<noteq> (i, cardId)) (media_sets_x_cards d)\<rparr>,
          count_where (\<lambda>l. l = (i, cardId)) (media_sets_x_cards d))))"

definition media_id_count :: "uint32 \<Rightarrow> nat list stmt" where
  "media_id_count i = int4 [i] (select_stmt (\<lambda>d. [count_where (\<lambda>m. m_id m = i) (media_tbl d)]))"

definition update_media_set_id :: "uint32 option \<Rightarrow> uint32 \<Rightarrow> nat stmt" where
  "update_media_set_id setId i = int4 (opt_arg setId @ [i]) (modify_stmt (\<lambda>d.
     if i \<in> m_id ` set (media_tbl d) \<and> \<not> set (opt_arg setId) \<subseteq> ms_id ` set (media_sets d)
     then Inl foreign_key_violation
     else Inr (d\<lparr>media_tbl := update_where (\<lambda>m. m_id m = i) (\<lambda>m. m\<lparr>m_media_set_id := setId\<rparr>) (media_tbl d)\<rparr>,
               count_where (\<lambda>m. m_id m = i) (media_tbl d))))"

definition select_media_set_id :: "uint32 \<Rightarrow> uint32 option list stmt" where
  "select_media_set_id i = int4 [i] (select_stmt (\<lambda>d. map m_media_set_id (filter (\<lambda>m. m_id m = i) (media_tbl d))))"

section \<open>Handlers\<close>

definition set_not_found :: "uint32 \<Rightarrow> string" where
  "set_not_found i = ''media set with id '' @ decimal (unat i) @ '' not found''"

definition media_not_found :: "uint32 \<Rightarrow> string" where
  "media_not_found i = ''media with id '' @ decimal (unat i) @ '' not found''"

definition getMediaSetCardIds :: "pg \<Rightarrow> runner \<Rightarrow> uint32 \<Rightarrow> uint32 list prog" where
  "getMediaSetCardIds P r i =
     check (Query P r (set_card_ids i) collect []) (wrapf ''could not fetch card_ids for media set: '') ret"

definition set_of_row :: "media_set_row \<Rightarrow> MediaSet" where
  "set_of_row r = \<lparr>mset_Id = ms_id r, mset_Name = ms_name r, mset_Note = ms_note r, mset_CardIds = []\<rparr>"

definition getMediaSet :: "pg \<Rightarrow> uint32 \<Rightarrow> MediaSet prog" where
  "getMediaSet P i =
     check (QueryOne P Tx (select_media_set i)) (not_found_as (set_not_found i)) (\<lambda>r.
     bind (getMediaSetCardIds P Tx i) (\<lambda>cardIds.
     ret ((set_of_row r)\<lparr>mset_CardIds := cardIds\<rparr>)))"

definition list_sets_cb :: "media_set_row \<Rightarrow> MediaSet list \<Rightarrow> uint32 \<times> MediaSet list" where
  "list_sets_cb r entries = (ms_id r, entries @ [set_of_row r])"

fun fill_set_cards :: "pg \<Rightarrow> MediaSet list \<Rightarrow> MediaSet list prog" where
  "fill_set_cards P [] = ret []"
| "fill_set_cards P (e # es) =
     bind (getMediaSetCardIds P Tx (mset_Id e)) (\<lambda>cardIds.
     bind (fill_set_cards P es) (\<lambda>rest. ret (e\<lparr>mset_CardIds := cardIds\<rparr> # rest)))"

definition ListMediaSets ::
  "pg \<Rightarrow> uint32 option \<Rightarrow> string option \<Rightarrow> (MediaSet list \<times> string option) prog" where
  "ListMediaSets P pageSize pageToken =
     with_tx P [] no_begin
       (bind (ListPtr P Tx \<lparr>Sql = list_sets_sql, Want = pageSize, Default = 50, Max = 100,
                            PageToken = pageToken\<rparr> list_sets_stmt list_sets_cb [])
          (\<lambda>(nextPageToken, entries).
           bind (fill_set_cards P entries) (\<lambda>entries'. ret (entries', nextPageToken))))"

definition link_set_card :: "pg \<Rightarrow> uint32 \<Rightarrow> uint32 \<Rightarrow> unit prog" where
  "link_set_card = link_card insert_set_link ''failed to link card to media set: ''"

definition PostMediaSet :: "pg \<Rightarrow> PostMediaSetBody option \<Rightarrow> MediaSet prog" where
  "PostMediaSet P body =
     (case body of
        None \<Rightarrow> fail BadRequest (New ''request body is required'')
      | Some b \<Rightarrow>
          if ps_Name b = [] then fail BadRequest (New ''name is required and must be non-empty'')
          else
            with_tx P [] no_begin
              (check (QueryOne P Tx (insert_media_set (ps_Name b) (ps_Note b)))
                 (wrapf ''failed to insert new media set: '') (\<lambda>mediaSetId.
               bind (for_each (link_set_card P mediaSetId) (ps_CardIds b)) (\<lambda>_.
               bind (getMediaSet P mediaSetId) (\<lambda>mediaSet.
               check (Commit P) no_commit (\<lambda>_. ret mediaSet))))))"

definition DeleteMediaSet :: "pg \<Rightarrow> uint32 \<Rightarrow> unit prog" where
  "DeleteMediaSet P i =
     (if i = 0 then fail BadRequest (New ''non-zero id is required'')
      else
        check (Exec P Pool (delete_media_set i)) (wrapf ''could not delete media set: '') (\<lambda>rowsAffected.
        if rowsAffected = 0 then fail NotFound (errorf (set_not_found i)) else ret ()))"

definition GetMediaSet :: "pg \<Rightarrow> uint32 \<Rightarrow> MediaSet prog" where
  "GetMediaSet P i =
     (if i = 0 then fail BadRequest (New ''non-zero id is required'')
      else with_tx P [] no_begin (bind (getMediaSet P i) ret))"

section \<open>Patching a media set\<close>

text \<open>One definition per field of the patch, in the order of the code.\<close>

definition patch_set_name :: "pg \<Rightarrow> uint32 \<Rightarrow> string \<Rightarrow> unit prog" where
  "patch_set_name P i name =
     (if name = [] then fail BadRequest (New ''name cannot be empty'')
      else exec_found P (update_set_name name i) ''could not update name: '' (set_not_found i))"

definition patch_set_add_card :: "pg \<Rightarrow> uint32 \<Rightarrow> uint32 \<Rightarrow> unit prog" where
  "patch_set_add_card = add_link set_link_count insert_set_link ''media set''"

definition patch_set_remove_card :: "pg \<Rightarrow> uint32 \<Rightarrow> uint32 \<Rightarrow> unit prog" where
  "patch_set_remove_card = remove_link delete_set_link ''media set''"

definition patch_set_add_media :: "pg \<Rightarrow> uint32 \<Rightarrow> uint32 \<Rightarrow> unit prog" where
  "patch_set_add_media P i mediaId =
     check (QueryOne P Tx (media_id_count mediaId)) (wrapf ''could not verify media existence: '') (\<lambda>n.
     if n = 0 then fail BadRequest (errorf (media_not_found mediaId))
     else exec_found P (update_media_set_id (Some i) mediaId) ''could not add media to set: '' (media_not_found mediaId))"

text \<open>The error branch distinguishes a missing media row from other errors.\<close>

definition verify_media :: "uint32 \<Rightarrow> goerr \<Rightarrow> goerr" where
  "verify_media mediaId e =
     (if errors_Is e ErrNotFound then HttpError ProblemBadRequest 400 (errorf (media_not_found mediaId))
      else wrapf ''could not verify media: '' e)"

definition patch_set_remove_media :: "pg \<Rightarrow> uint32 \<Rightarrow> uint32 \<Rightarrow> unit prog" where
  "patch_set_remove_media P i mediaId =
     check (QueryOne P Tx (select_media_set_id mediaId)) (verify_media mediaId) (\<lambda>mediaSetId.
     if mediaSetId \<noteq> Some i
     then fail BadRequest (errorf (''media with id '' @ decimal (unat mediaId) @ '' is not in this media set''))
     else check (Exec P Tx (update_media_set_id None mediaId)) (wrapf ''could not remove media from set: '') (\<lambda>_. ret ()))"

definition patch_media_set :: "pg \<Rightarrow> uint32 \<Rightarrow> MediaSetPatch \<Rightarrow> unit prog" where
  "patch_media_set P i patch =
     bind (when_set (sp_Name patch) (patch_set_name P i)) (\<lambda>_.
     bind (when_set (sp_Note patch) (\<lambda>note. exec_found P (update_set_note note i) ''could not update note: '' (set_not_found i))) (\<lambda>_.
     bind (if sp_ClearNote patch = Some True
           then exec_found P (clear_set_note i) ''could not clear note: '' (set_not_found i) else ret ()) (\<lambda>_.
     bind (when_set (sp_AddCardId patch) (patch_set_add_card P i)) (\<lambda>_.
     bind (when_set (sp_RemoveCardId patch) (patch_set_remove_card P i)) (\<lambda>_.
     bind (when_set (sp_AddMediaId patch) (patch_set_add_media P i)) (\<lambda>_.
     bind (when_set (sp_RemoveMediaId patch) (patch_set_remove_media P i)) (\<lambda>_.
     let fieldsSet = set_count (sp_Name patch) + set_count (sp_Note patch) +
           (if sp_ClearNote patch = Some True then 1 else 0) + set_count (sp_AddCardId patch) +
           set_count (sp_RemoveCardId patch) + set_count (sp_AddMediaId patch) + set_count (sp_RemoveMediaId patch) in
     if fieldsSet = 0 then fail BadRequest (New ''no valid fields to patch'')
     else if 1 < fieldsSet then fail BadRequest (New ''exactly one field must be set per patch'')
     else ret ())))))))"

definition PatchMediaSet :: "pg \<Rightarrow> uint32 \<Rightarrow> MediaSetPatch list option \<Rightarrow> MediaSet prog" where
  "PatchMediaSet P i body =
     (if i = 0 then fail BadRequest (New ''non-zero id is required'')
      else
        with_tx P [] no_begin
          (case body of
             None \<Rightarrow> fail BadRequest (New ''no patches provided'')
           | Some patches \<Rightarrow>
               bind (getMediaSet P i) (\<lambda>_.
               bind (for_each (patch_media_set P i) patches) (\<lambda>_.
               bind (getMediaSet P i) (\<lambda>mediaSet.
               bind (Commit P) (\<lambda>_. ret mediaSet))))))"

section \<open>Statements keep the invariant\<close>

lemma set_select_keeps [stmt_ok]:
  "stmt_keeps good (list_sets_stmt v lim)" "stmt_keeps good (set_card_ids i)" "stmt_keeps good (select_media_set i)"
  "stmt_keeps good (set_link_count i c)" "stmt_keeps good (media_id_count i)" "stmt_keeps good (select_media_set_id i)"
  by (simp_all add: list_sets_stmt_def set_card_ids_def select_media_set_def
      set_link_count_def media_id_count_def select_media_set_id_def good.stmt_keeps_select good.stmt_keeps_int4)

lemma good_set_rows:
  assumes "good d q" and "serial_ok ms_id v rows" and "\<forall>m\<in>set rows. ms_name m \<noteq> []"
    and "ms_id ` set (media_sets d) \<subseteq> ms_id ` set rows"
  shows "good (d\<lparr>media_sets := rows\<rparr>) (q\<lparr>media_set_seq := v\<rparr>)"
proof -
  have "media_ok (d\<lparr>media_sets := rows\<rparr>) (q\<lparr>media_set_seq := v\<rparr>)" "links_ok (d\<lparr>media_sets := rows\<rparr>)"
    using goodM [OF assms(1)] assms(2-4) by (auto simp: media_ok_def links_ok_def dest!: subsetD [OF assms(4)])
  then show ?thesis
    using good_media [OF assms(1), where ss = rows and ms = "media_tbl d" and vs = "media_dvds d" and u = v and v = "media_seq q"]
    by simp
qed

lemma insert_media_set_keeps [stmt_ok]: "stmt_keeps good (insert_media_set name note)"
proof -
  have "seq_le q (q\<lparr>media_set_seq := media_set_seq q + 1\<rparr>)" if "media_set_seq q < max_serial" for q :: seqs
    using word_succ_greater [OF that] by (simp add: seq_le_def)
  moreover have "good (d\<lparr>media_sets := media_sets d @ [r]\<rparr>) (q\<lparr>media_set_seq := media_set_seq q + 1\<rparr>)"
    if "good d q" "media_set_seq q < max_serial" "ms_id r = media_set_seq q + 1" "ms_name r \<noteq> []" for d q r
    using that goodM(1) [OF that(1)] by (intro good_set_rows) (auto simp: media_ok_def serial_ok_snoc)
  ultimately show ?thesis by (auto simp: stmt_keeps_def insert_media_set_def Let_def)
qed

lemma update_media_set_keeps [stmt_ok]:
  assumes "\<And>r. ms_id (g r) = ms_id r"
  shows "stmt_keeps good (update_media_set i g)"
  unfolding update_media_set_def Let_def
proof (intro good.stmt_keeps_int4 good.stmt_keeps_modify)
  fix d d' :: db and q and x :: nat
  let ?rows = "update_where (\<lambda>m. ms_id m = i) g (media_sets d)"
  assume d: "good d q" and "(if \<exists>m\<in>set ?rows. ms_name m = [] \<and> ms_id m = i then Inl check_violation
    else Inr (d\<lparr>media_sets := ?rows\<rparr>, count_where (\<lambda>m. ms_id m = i) (media_sets d))) = Inr (d', x)"
  then have d': "d' = d\<lparr>media_sets := ?rows\<rparr>" and named: "\<forall>m\<in>set ?rows. ms_id m = i \<longrightarrow> ms_name m \<noteq> []"
    by (auto split: if_split_asm)
  have ok: "serial_ok ms_id (media_set_seq q) (media_sets d)" "\<forall>m\<in>set (media_sets d). ms_name m \<noteq> []"
    using goodM(1) [OF d] by (simp_all add: media_ok_def)
  have "\<forall>m\<in>set ?rows. ms_name m \<noteq> []"
    using named ok(2) assms by (auto simp: set_update_where)
  then have "good (d\<lparr>media_sets := ?rows\<rparr>) (q\<lparr>media_set_seq := media_set_seq q\<rparr>)"
    using d ok(1) assms by (intro good_set_rows) simp_all
  then show "good d' q" by (simp add: d')
qed

lemma set_update_keeps [stmt_ok]:
  "stmt_keeps good (update_set_name name i)" "stmt_keeps good (update_set_note note i)" "stmt_keeps good (clear_set_note i)"
  by (simp_all add: update_set_name_def update_set_note_def clear_set_note_def update_media_set_keeps)

lemma set_link_keeps [stmt_ok]:
  "stmt_keeps good (insert_set_link i c)" "stmt_keeps good (delete_set_link i c)"
proof -
  have "good (d\<lparr>media_sets_x_cards := media_sets_x_cards d @ [(i, c)]\<rparr>) q"
    if "good d q" "(i, c) \<notin> set (media_sets_x_cards d)" "i \<in> ms_id ` set (media_sets d)" "c \<in> c_id ` set (catalog_cards d)"
    for d q
    using that linksD(1-3) [OF goodM(2) [OF that(1)]] by (intro good_set_links) auto
  then show "stmt_keeps good (insert_set_link i c)"
    unfolding insert_set_link_def
    by (intro good.stmt_keeps_int4 good.stmt_keeps_modify) (auto split: if_split_asm)
  have "good (d\<lparr>media_sets_x_cards := filter R (media_sets_x_cards d)\<rparr>) q" if "good d q" for d q R
    using that linksD(1-3) [OF goodM(2) [OF that]] by (intro good_set_links) auto
  then show "stmt_keeps good (delete_set_link i c)"
    unfolding delete_set_link_def by (intro good.stmt_keeps_int4 good.stmt_keeps_modify) auto
qed

lemma delete_media_set_keeps [stmt_ok]: "stmt_keeps good (delete_media_set i)"
proof -
  have "good (remove_media_set i d) q" if d: "good d q" "\<forall>m\<in>set (media_tbl d). m_media_set_id m \<noteq> Some i" for d q
  proof -
    have "schema_ok (remove_media_set i d) q" using d by (simp add: good_def remove_media_set_schema_ok)
    moreover have "details_ok (remove_media_set i d) = details_ok d"
      unfolding remove_media_set_def by (rule details_ok_cong) simp_all
    ultimately show ?thesis using d(1) by (simp add: good_def)
  qed
  then show ?thesis
    unfolding delete_media_set_def
    by (intro good.stmt_keeps_int4 good.stmt_keeps_modify) (auto split: if_split_asm)
qed

lemma good_media_rows:
  assumes "good d q" and "\<And>r. m_id (g r) = m_id r"
    and "\<And>m x. m \<in> set (media_tbl d) \<Longrightarrow> R m \<Longrightarrow> m_media_set_id (g m) = Some x \<Longrightarrow> x \<in> ms_id ` set (media_sets d)"
  shows "good (d\<lparr>media_tbl := update_where R g (media_tbl d)\<rparr>) q"
proof -
  let ?rows = "update_where R g (media_tbl d)"
  have ok: "media_ok d q" "links_ok d" using goodM [OF assms(1)] .
  have "x \<in> ms_id ` set (media_sets d)" if m: "m \<in> set ?rows" and x: "m_media_set_id m = Some x" for m x
  proof -
    obtain r where "r \<in> set (media_tbl d)" "m = (if R r then g r else r)" using m by (rule update_whereE)
    then show ?thesis using x assms(3) ok(1) by (cases "R r") (auto simp: media_ok_def)
  qed
  then have "media_ok (d\<lparr>media_tbl := ?rows\<rparr>) q" "links_ok (d\<lparr>media_tbl := ?rows\<rparr>)"
    using ok assms(2) by (simp_all add: media_ok_def links_ok_def)
  then show ?thesis
    using good_media [OF assms(1), where ss = "media_sets d" and ms = ?rows and vs = "media_dvds d"
        and u = "media_set_seq q" and v = "media_seq q"] by simp
qed

lemma update_media_set_id_keeps [stmt_ok]: "stmt_keeps good (update_media_set_id setId i)"
  unfolding update_media_set_id_def
proof (intro good.stmt_keeps_int4 good.stmt_keeps_modify)
  fix d d' :: db and q and x :: nat
  let ?rows = "update_where (\<lambda>m. m_id m = i) (\<lambda>m. m\<lparr>m_media_set_id := setId\<rparr>) (media_tbl d)"
  assume d: "good d q" and "(if i \<in> m_id ` set (media_tbl d) \<and> \<not> set (opt_arg setId) \<subseteq> ms_id ` set (media_sets d)
    then Inl foreign_key_violation
    else Inr (d\<lparr>media_tbl := ?rows\<rparr>, count_where (\<lambda>m. m_id m = i) (media_tbl d))) = Inr (d', x)"
  then have d': "d' = d\<lparr>media_tbl := ?rows\<rparr>"
    and ref: "i \<in> m_id ` set (media_tbl d) \<Longrightarrow> set (opt_arg setId) \<subseteq> ms_id ` set (media_sets d)"
    by (auto split: if_split_asm)
  show "good d' q"
    unfolding d' using d ref by (intro good_media_rows) (auto simp: opt_arg_def)
qed

section \<open>Handlers: atomic, clean, invariant\<close>

lemmas set_handler_defs = getMediaSet_def getMediaSetCardIds_def patch_set_name_def patch_set_add_card_def
  patch_set_remove_card_def patch_set_add_media_def patch_set_remove_media_def link_set_card_def

lemma quiet_set_steps:
  "quiet (getMediaSet P i)" "quiet (patch_media_set P i p)" "quiet (link_set_card P i c)"
  unfolding patch_media_set_def set_handler_defs link_step_defs Let_def by (intro quiet_intros)+

lemma atomic_set_steps:
  "atomic P (\<lambda>P. getMediaSet P i)" "atomic P (\<lambda>P. patch_media_set P i p)" "atomic P (\<lambda>P. link_set_card P i c)"
  unfolding patch_media_set_def set_handler_defs link_step_defs Let_def
  by (intro atomic_intros quiet_intros; simp)+

lemma atomic_media_sets:
  "atomic P (\<lambda>P. PostMediaSet P body)" "atomic P (\<lambda>P. DeleteMediaSet P i)" "atomic P (\<lambda>P. PatchMediaSet P i patches)"
proof -
  show "atomic P (\<lambda>P. PostMediaSet P body)"
    unfolding PostMediaSet_def
    by (intro atomic_intros quiet_intros atomic_for_each quiet_for_each quiet_set_steps atomic_set_steps) simp_all
  show "atomic P (\<lambda>P. DeleteMediaSet P i)"
    unfolding DeleteMediaSet_def
    by (intro atomic_if atomic_fail atomic_check_pure atomic_Exec) (simp_all add: fail_def ret_def)
  show "atomic P (\<lambda>P. PatchMediaSet P i patches)"
    unfolding PatchMediaSet_def
    by (intro atomic_intros quiet_intros atomic_for_each quiet_for_each quiet_set_steps atomic_set_steps)
qed

lemma clean_media_sets:
  "clean (PostMediaSet (reliable P) body)" "clean (PatchMediaSet (reliable P) i patches)"
  "clean (DeleteMediaSet (reliable P) i)"
proof -
  show "clean (PostMediaSet (reliable P) body)" "clean (PatchMediaSet (reliable P) i patches)"
    unfolding PostMediaSet_def PatchMediaSet_def
    by (intro clean_intros quiet_intros quiet_for_each quiet_set_steps)+
  have "d' = d" if "delete_media_set i now d q = (Inr (d', 0), q')" for now d q d' q'
    using that by (auto simp: delete_media_set_def int4_def modify_stmt_def split: if_splits)
  then show "clean (DeleteMediaSet (reliable P) i)"
    unfolding DeleteMediaSet_def by (intro clean_intros clean_Exec_rows)
qed

section \<open>Listing and links\<close>

definition set_view :: "db \<Rightarrow> media_set_row \<Rightarrow> MediaSet" where
  "set_view d r = (set_of_row r)\<lparr>mset_CardIds :=
     sort (map snd (filter (\<lambda>l. fst l = ms_id r) (media_sets_x_cards d)))\<rparr>"

interpretation set_links: link_table media_sets_x_cards "\<lambda>ls d. d\<lparr>media_sets_x_cards := ls\<rparr>"
    "\<lambda>d i. i \<in> ms_id ` set (media_sets d)" insert_set_link delete_set_link set_link_count set_card_ids
  by unfold_locales
    (simp_all add: insert_set_link_def delete_set_link_def set_link_count_def set_card_ids_def)

interpretation set_query: paged_query list_sets_sql media_sets ms_id list_sets_stmt list_sets_cb set_of_row
proof
  show "contains list_sets_sql ''@limit''" "contains list_sets_sql ''@lastSeenId''" by code_simp+
qed (simp_all add: list_sets_stmt_def list_sets_cb_def)

lemma getMediaSetCardIds_tx:
  "i \<le> max_serial \<Longrightarrow>
     outcome (check (getMediaSetCardIds (reliable P) Tx i) w k) (in_tx s lvl t0 n d q) =
     outcome (k (sort (map snd (filter (\<lambda>l. fst l = i) (media_sets_x_cards d))))) (in_tx s lvl t0 (Suc n) d q)"
  by (simp add: getMediaSetCardIds_def check_assoc check_ret set_links.card_ids_tx)

lemma fill_set_cards_tx:
  assumes "\<forall>r\<in>set rs. ms_id r \<le> max_serial"
  shows "outcome (check (fill_set_cards (reliable P) (map set_of_row rs)) w k) (in_tx s lvl t0 n d q) =
    outcome (k (map (set_view d) rs)) (in_tx s lvl t0 (n + length rs) d q)"
  using assms
proof (induction rs arbitrary: n k)
  case (Cons r rs)
  have "mset_Id (set_of_row r) = ms_id r" by (simp add: set_of_row_def)
  with Cons show ?case by (simp add: check_assoc getMediaSetCardIds_tx wp_rules set_view_def)
qed (simp add: wp_rules)

interpretation set_pages: paged_listing consistent media_sets ms_id set_view "ListMediaSets (reliable P)" for P
proof
  show serial: "serial_ok ms_id max_serial (media_sets d)" if "consistent d" for d
    using that by (auto simp: consistent_def schema_ok_def media_ok_def serial_ok_def)
  fix s :: sess and tok v want
  assume ok: "consistent (committed s)" and tok: "toLastSeenId tok = Ok v" "v \<le> max_serial"
  let ?rs = "rows_above ms_id v (media_sets (committed s))" and ?n = "page_size want"
  have ids: "\<forall>r\<in>set (take (unat ?n) ?rs). ms_id r \<le> max_serial"
    using serial [OF ok] by (auto simp: rows_above_def serial_ok_def dest!: in_set_takeD)
  show "outcome (ListMediaSets (reliable P) want tok) s =
      (let rs = ?rs; n = ?n in
       (Ok (map (set_view (committed s)) (take (unat n) rs), next_token ms_id n rs), committed s, seqs_of s))"
    unfolding ListMediaSets_def outcome_with_tx
    by (subst set_query.ListPtr_tx [OF tok refl refl])
      (simp add: fill_set_cards_tx [OF ids] wp_rules Let_def)
qed

section \<open>What the handlers do\<close>

lemma set_rows_ok:
  assumes "good d q"
  shows "serial_ok ms_id (media_set_seq q) (media_sets d)" and "keyed ms_id (media_sets d)"
    and "r \<in> set (media_sets d) \<Longrightarrow> ms_id r \<le> max_serial" and "r \<in> set (media_sets d) \<Longrightarrow> ms_name r \<noteq> []"
  using goodM(1) [OF assms] by (auto simp: media_ok_def serial_ok_def)

lemma getMediaSet_tx:
  assumes "keyed ms_id (media_sets d)" and "r \<in> set (media_sets d)" and "ms_id r = i" and "i \<le> max_serial"
  shows "outcome (check (getMediaSet (reliable P) i) w k) (in_tx s lvl t0 n d q) =
    outcome (k (set_view d r)) (in_tx s lvl t0 (Suc (Suc n)) d q)"
proof -
  have "filter (\<lambda>m. ms_id m = i) (media_sets d) = [r]" using keyed_filter_eq [OF assms(1,2)] assms(3) by simp
  with assms(3,4) show ?thesis
    by (simp add: getMediaSet_def check_assoc wp_rules getMediaSetCardIds_tx select_media_set_def select_stmt_def set_view_def)
qed

lemma getMediaSet_absent:
  assumes "i \<notin> ms_id ` set (media_sets d)" and "i \<le> max_serial"
  shows "outcome (check (getMediaSet (reliable P) i) w k) (in_tx s lvl t0 n d q) =
    (Err (w (HttpError ProblemNotFound 404 (errorf (set_not_found i)))), committed s, q)"
  using assms
  by (simp add: getMediaSet_def check_assoc wp_rules select_media_set_def select_stmt_def filter_key_absent not_found_as_def)

lemma GetMediaSet_outcome:
  assumes "good (committed s) q0" and "i \<noteq> 0" and "i \<le> max_serial"
  shows "r \<in> set (media_sets (committed s)) \<Longrightarrow> ms_id r = i \<Longrightarrow>
      outcome (GetMediaSet (reliable P) i) s = (Ok (set_view (committed s) r), committed s, seqs_of s)"
    and "i \<notin> ms_id ` set (media_sets (committed s)) \<Longrightarrow>
      outcome (GetMediaSet (reliable P) i) s =
        (Err (HttpError ProblemNotFound 404 (errorf (set_not_found i))), committed s, seqs_of s)"
  using assms(2,3) set_rows_ok(2) [OF assms(1)]
  by (simp_all add: GetMediaSet_def outcome_with_tx getMediaSet_tx getMediaSet_absent wp_rules)

definition add_media_set :: "uint32 \<Rightarrow> PostMediaSetBody \<Rightarrow> db \<Rightarrow> db" where
  "add_media_set i b d = d\<lparr>
     media_sets := media_sets d @ [\<lparr>ms_id = i, ms_name = ps_Name b, ms_note = ps_Note b\<rparr>],
     media_sets_x_cards := media_sets_x_cards d @ map (Pair i) (ps_CardIds b)\<rparr>"

lemma fresh_set:
  assumes "good d q" and "media_set_seq q < max_serial"
  shows "media_set_seq q + 1 \<notin> ms_id ` set (media_sets d)" and "media_set_seq q + 1 \<le> max_serial"
    and "media_set_seq q + 1 \<notin> fst ` set (media_sets_x_cards d)"
proof -
  have "media_set_seq q < media_set_seq q + 1" using assms(2) by (rule word_succ_greater)
  then show fresh: "media_set_seq q + 1 \<notin> ms_id ` set (media_sets d)"
    using set_rows_ok(1) [OF assms(1)] by (auto simp: serial_ok_def)
  show "media_set_seq q + 1 \<le> max_serial" using assms(2) by (rule inc_le)
  show "media_set_seq q + 1 \<notin> fst ` set (media_sets_x_cards d)"
    using fresh linksD(2) [OF goodM(2) [OF assms(1)]] by force
qed

text \<open>The cards of a new set exist and are named once.\<close>

definition cards_ok :: "db \<Rightarrow> uint32 list \<Rightarrow> bool" where
  "cards_ok d cs = (distinct cs \<and> set cs \<subseteq> c_id ` set (catalog_cards d))"

lemma PostMediaSet_outcome:
  assumes good: "good (committed s) (seqs_of s)" and "ps_Name b \<noteq> []" and seq: "media_set_seq (seqs_of s) < max_serial"
    and i: "i = media_set_seq (seqs_of s) + 1"
  shows "cards_ok (committed s) (ps_CardIds b) \<Longrightarrow>
      outcome (PostMediaSet (reliable P) (Some b)) s =
        (Ok \<lparr>mset_Id = i, mset_Name = ps_Name b, mset_Note = ps_Note b, mset_CardIds = sort (ps_CardIds b)\<rparr>,
         add_media_set i b (committed s), (seqs_of s)\<lparr>media_set_seq := i\<rparr>)"
    and "\<not> cards_ok (committed s) (ps_CardIds b) \<Longrightarrow>
      \<exists>e. outcome (PostMediaSet (reliable P) (Some b)) s = (Err e, committed s, (seqs_of s)\<lparr>media_set_seq := i\<rparr>)"
proof -
  let ?d = "committed s" and ?q = "(seqs_of s)\<lparr>media_set_seq := i\<rparr>" and ?row = "\<lparr>ms_id = i, ms_name = ps_Name b, ms_note = ps_Note b\<rparr>"
  let ?d1 = "?d\<lparr>media_sets := media_sets ?d @ [?row]\<rparr>"
  let ?rest = "\<lambda>_. bind (getMediaSet (reliable P) i) (\<lambda>mediaSet. check (Commit (reliable P)) no_commit (\<lambda>_. ret mediaSet))"
  note fresh = fresh_set [OF good seq, folded i]
  have run: "outcome (PostMediaSet (reliable P) (Some b)) s =
      outcome (bind (for_each (link_set_card (reliable P) i) (ps_CardIds b)) ?rest)
        (in_tx s None (clock_at P (calls s)) (Suc (Suc (calls s))) ?d1 ?q)"
    using assms(2) seq by (simp add: PostMediaSet_def wp_rules insert_media_set_def Let_def i)
  have cards: "serial_ok c_id (card_seq (seqs_of s)) (catalog_cards ?d1)" using good_cards [OF good] by simp
  have link: "set_links.linkable ?d1 i cs = cards_ok ?d cs" for cs
    using fresh(3) by (force simp: set_links.linkable_def cards_ok_def)
  have own: "i \<in> ms_id ` set (media_sets ?d1)" by simp
  note loop = set_links.link_loop [OF cards fresh(2) own, unfolded link]
    and fails = set_links.link_loop_fails [OF cards fresh(2) own, unfolded link]
  show "\<exists>e. outcome (PostMediaSet (reliable P) (Some b)) s = (Err e, ?d, ?q)" if "\<not> cards_ok ?d (ps_CardIds b)"
    unfolding run link_set_card_def using fails [OF that] by blast
  assume ok: "cards_ok ?d (ps_CardIds b)"
  let ?d2 = "add_media_set i b ?d"
  have d2: "?d1\<lparr>media_sets_x_cards := media_sets_x_cards ?d1 @ map (Pair i) (ps_CardIds b)\<rparr> = ?d2"
    by (simp add: add_media_set_def)
  have "filter (\<lambda>l. fst l = i) (media_sets_x_cards ?d) = []" using fresh(3) by (force simp: filter_empty_conv)
  then have view: "set_view ?d2 ?row = \<lparr>mset_Id = i, mset_Name = ps_Name b, mset_Note = ps_Note b, mset_CardIds = sort (ps_CardIds b)\<rparr>"
    by (simp add: set_view_def set_of_row_def add_media_set_def comp_def filter_map)
  have "keyed ms_id (media_sets ?d2)" "?row \<in> set (media_sets ?d2)"
    using set_rows_ok(2) [OF good] fresh(1) by (auto simp: add_media_set_def keyed_def)
  note get = getMediaSet_tx [OF this _ fresh(2)]
  show "outcome (PostMediaSet (reliable P) (Some b)) s =
        (Ok \<lparr>mset_Id = i, mset_Name = ps_Name b, mset_Note = ps_Note b, mset_CardIds = sort (ps_CardIds b)\<rparr>, ?d2, ?q)"
    unfolding run link_set_card_def
    using loop [OF ok, of "''failed to link card to media set: ''" P "\<lambda>e. e" ?rest s None "clock_at P (calls s)"
        "Suc (Suc (calls s))" ?q] unfolding d2
    by (auto simp: get view wp_rules)
qed

lemma DeleteMediaSet_outcome:
  assumes "good (committed s) q0" and "i \<noteq> 0" and "i \<le> max_serial"
  shows "outcome (DeleteMediaSet (reliable P) i) s =
    (if i \<notin> ms_id ` set (media_sets (committed s))
     then (Err (HttpError ProblemNotFound 404 (errorf (set_not_found i))), committed s, seqs_of s)
     else if \<exists>m\<in>set (media_tbl (committed s)). m_media_set_id m = Some i
     then (Err (wrapf ''could not delete media set: '' (HttpError ProblemInternalError 500 foreign_key_violation)),
           committed s, seqs_of s)
     else (Ok (), remove_media_set i (committed s), seqs_of s))"
  using assms(2,3)
  by (simp add: DeleteMediaSet_def wp_rules delete_media_set_def modify_stmt_def
      count_where_key [OF set_rows_ok(2) [OF assms(1)]])

section \<open>Patches of a media set\<close>

definition set_patch_fields :: "MediaSetPatch \<Rightarrow> nat" where
  "set_patch_fields p = set_count (sp_Name p) + set_count (sp_Note p) + (if sp_ClearNote p = Some True then 1 else 0) +
     set_count (sp_AddCardId p) + set_count (sp_RemoveCardId p) + set_count (sp_AddMediaId p) + set_count (sp_RemoveMediaId p)"

text \<open>A patch that the handler accepts on the given tables, and what it does to them.\<close>

definition set_patch_ok :: "db \<Rightarrow> uint32 \<Rightarrow> MediaSetPatch \<Rightarrow> bool" where
  "set_patch_ok d i p =
     (set_patch_fields p = 1 \<and> sp_Name p \<noteq> Some [] \<and>
      (case sp_AddCardId p of None \<Rightarrow> True | Some c \<Rightarrow> c \<in> c_id ` set (catalog_cards d) \<and> (i, c) \<notin> set (media_sets_x_cards d)) \<and>
      (case sp_RemoveCardId p of None \<Rightarrow> True | Some c \<Rightarrow> (i, c) \<in> set (media_sets_x_cards d)) \<and>
      (case sp_AddMediaId p of None \<Rightarrow> True | Some m \<Rightarrow> m \<in> m_id ` set (media_tbl d)) \<and>
      (case sp_RemoveMediaId p of None \<Rightarrow> True | Some m \<Rightarrow> \<exists>r\<in>set (media_tbl d). m_id r = m \<and> m_media_set_id r = Some i))"

lemma set_patch_ok_iff:
  "set_patch_ok d i p =
     (set_patch_fields p = 1 \<and> sp_Name p \<noteq> Some [] \<and>
      (\<forall>c. sp_AddCardId p = Some c \<longrightarrow> c \<in> c_id ` set (catalog_cards d) \<and> (i, c) \<notin> set (media_sets_x_cards d)) \<and>
      (\<forall>c. sp_RemoveCardId p = Some c \<longrightarrow> (i, c) \<in> set (media_sets_x_cards d)) \<and>
      (\<forall>m. sp_AddMediaId p = Some m \<longrightarrow> m \<in> m_id ` set (media_tbl d)) \<and>
      (\<forall>m. sp_RemoveMediaId p = Some m \<longrightarrow> (\<exists>r\<in>set (media_tbl d). m_id r = m \<and> m_media_set_id r = Some i)))"
  by (auto simp: set_patch_ok_def split: option.splits)

definition move_media :: "uint32 option \<Rightarrow> uint32 \<Rightarrow> db \<Rightarrow> db" where
  "move_media setId m d =
     d\<lparr>media_tbl := update_where (\<lambda>r. m_id r = m) (\<lambda>r. r\<lparr>m_media_set_id := setId\<rparr>) (media_tbl d)\<rparr>"

definition edit_set :: "uint32 \<Rightarrow> (media_set_row \<Rightarrow> media_set_row) \<Rightarrow> db \<Rightarrow> db" where
  "edit_set i g d = d\<lparr>media_sets := update_where (\<lambda>m. ms_id m = i) g (media_sets d)\<rparr>"

definition apply_set_patch :: "uint32 \<Rightarrow> MediaSetPatch \<Rightarrow> db \<Rightarrow> db" where
  "apply_set_patch i p d =
     (case sp_Name p of Some name \<Rightarrow> edit_set i (\<lambda>m. m\<lparr>ms_name := name\<rparr>) d | None \<Rightarrow>
      case sp_Note p of Some note \<Rightarrow> edit_set i (\<lambda>m. m\<lparr>ms_note := Some note\<rparr>) d | None \<Rightarrow>
      if sp_ClearNote p = Some True then edit_set i (\<lambda>m. m\<lparr>ms_note := None\<rparr>) d else
      case sp_AddCardId p of Some c \<Rightarrow> d\<lparr>media_sets_x_cards := media_sets_x_cards d @ [(i, c)]\<rparr> | None \<Rightarrow>
      case sp_RemoveCardId p of Some c \<Rightarrow> d\<lparr>media_sets_x_cards := filter (\<lambda>l. l \<noteq> (i, c)) (media_sets_x_cards d)\<rparr> | None \<Rightarrow>
      case sp_AddMediaId p of Some m \<Rightarrow> move_media (Some i) m d | None \<Rightarrow>
      case sp_RemoveMediaId p of Some m \<Rightarrow> move_media None m d | None \<Rightarrow> d)"

lemma exec_found_tx:
  assumes "st t0 d q = (Inr (d', Suc x), q')"
  shows "outcome (check (exec_found (reliable P) st msg missing) w k) (in_tx s lvl t0 n d q) =
    outcome (k ()) (in_tx s lvl t0 (Suc n) d' q')"
  by (simp add: exec_found_def wp_rules assms)

lemma update_media_set_tx:
  assumes "good d q0" and "i \<le> max_serial" and "i \<in> ms_id ` set (media_sets d)"
    and "\<And>m. ms_id (g m) = ms_id m" and "\<And>m. ms_name m \<noteq> [] \<Longrightarrow> ms_name (g m) \<noteq> []"
  shows "update_media_set i g t0 d q = (Inr (edit_set i g d, Suc 0), q)" and "good (edit_set i g d) q0"
proof -
  have named: "ms_name m \<noteq> []" if "m \<in> set (update_where (\<lambda>m. ms_id m = i) g (media_sets d))" for m
    using that assms(5) set_rows_ok(4) [OF assms(1)] by (auto elim!: update_whereE split: if_splits)
  then show "update_media_set i g t0 d q = (Inr (edit_set i g d, Suc 0), q)" for q
    using assms(2,3) count_where_key [OF set_rows_ok(2) [OF assms(1)], of i]
    by (auto simp: update_media_set_def edit_set_def modify_stmt_def Let_def)
  from good.stmt_keepsD(2) [OF update_media_set_keeps [of g i, OF assms(4)] assms(1) this refl]
  show "good (edit_set i g d) q0" .
qed

lemma move_media_tx:
  assumes "good d q0" and "m \<in> m_id ` set (media_tbl d)" and "set (opt_arg setId) \<subseteq> ms_id ` set (media_sets d)"
  shows "update_media_set_id setId m t0 d q = (Inr (move_media setId m d, Suc 0), q)" and "good (move_media setId m d) q0"
proof -
  have ok: "keyed m_id (media_tbl d)" "m \<le> max_serial"
    using goodM(1) [OF assms(1)] assms(2) by (auto simp: media_ok_def serial_ok_def)
  have "list_all (\<lambda>x. x \<le> max_serial) (opt_arg setId)"
    using assms(3) set_rows_ok(3) [OF assms(1)] by (auto simp: list_all_iff)
  with ok assms(2,3) show "update_media_set_id setId m t0 d q = (Inr (move_media setId m d, Suc 0), q)" for q
    by (simp add: update_media_set_id_def move_media_def modify_stmt_def count_where_key)
  from good.stmt_keepsD(2) [OF update_media_set_id_keeps assms(1) this refl]
  show "good (move_media setId m d) q0" .
qed

lemma set_count_simps [simp]: "set_count x = 0 \<longleftrightarrow> x = None" "set_count x = Suc 0 \<longleftrightarrow> x \<noteq> None" "set_count (Some y) = Suc 0"
  "set_count None = 0"
  by (auto simp: set_count_def)

lemma set_patch_cases:
  assumes "set_patch_fields p = 1"
  obtains (name) x where "sp_Name p = Some x" "sp_Note p = None" "sp_ClearNote p \<noteq> Some True" "sp_AddCardId p = None"
      "sp_RemoveCardId p = None" "sp_AddMediaId p = None" "sp_RemoveMediaId p = None"
  | (noted) x where "sp_Name p = None" "sp_Note p = Some x" "sp_ClearNote p \<noteq> Some True" "sp_AddCardId p = None"
      "sp_RemoveCardId p = None" "sp_AddMediaId p = None" "sp_RemoveMediaId p = None"
  | (clear) "sp_Name p = None" "sp_Note p = None" "sp_ClearNote p = Some True" "sp_AddCardId p = None"
      "sp_RemoveCardId p = None" "sp_AddMediaId p = None" "sp_RemoveMediaId p = None"
  | (add) x where "sp_Name p = None" "sp_Note p = None" "sp_ClearNote p \<noteq> Some True" "sp_AddCardId p = Some x"
      "sp_RemoveCardId p = None" "sp_AddMediaId p = None" "sp_RemoveMediaId p = None"
  | (remove) x where "sp_Name p = None" "sp_Note p = None" "sp_ClearNote p \<noteq> Some True" "sp_AddCardId p = None"
      "sp_RemoveCardId p = Some x" "sp_AddMediaId p = None" "sp_RemoveMediaId p = None"
  | (join) x where "sp_Name p = None" "sp_Note p = None" "sp_ClearNote p \<noteq> Some True" "sp_AddCardId p = None"
      "sp_RemoveCardId p = None" "sp_AddMediaId p = Some x" "sp_RemoveMediaId p = None"
  | (leave) x where "sp_Name p = None" "sp_Note p = None" "sp_ClearNote p \<noteq> Some True" "sp_AddCardId p = None"
      "sp_RemoveCardId p = None" "sp_AddMediaId p = None" "sp_RemoveMediaId p = Some x"
proof -
  have flag: "(if b then 1 else 0 :: nat) = 0 \<longleftrightarrow> \<not> b" "(if b then 1 else 0 :: nat) = Suc 0 \<longleftrightarrow> b" for b by auto
  from assms show ?thesis
    unfolding set_patch_fields_def One_nat_def add_is_1 add_is_0 set_count_simps not_None_eq flag [unfolded One_nat_def]
    by (elim disjE conjE exE) (rule that; assumption)+
qed

lemma patch_media_set_tx:
  assumes good: "good d q0" and i: "i \<in> ms_id ` set (media_sets d)" and ok: "set_patch_ok d i p"
  shows "(\<exists>n'. outcome (check (patch_media_set (reliable P) i p) w k) (in_tx s lvl t0 n d q) =
      outcome (k ()) (in_tx s lvl t0 n' (apply_set_patch i p d) q)) \<and> good (apply_set_patch i p d) q0"
proof -
  have le: "i \<le> max_serial" using i set_rows_ok(3) [OF good] by auto
  have ser: "serial_ok c_id (card_seq q0) (catalog_cards d)" using good_cards [OF good] .
  note links = linksD(1-3) [OF goodM(2) [OF good]]
  note eval = patch_media_set_def check_assoc when_set_def wp_rules apply_set_patch_def set_count_def
  have fields: "set_patch_fields p = 1" using ok by (simp add: set_patch_ok_iff)
  note edit = update_media_set_tx [OF good le i]
  show ?thesis
    using fields
  proof (cases rule: set_patch_cases)
    case (name x)
    with ok have "x \<noteq> []" by (auto simp: set_patch_ok_iff)
    with edit [of "\<lambda>m. m\<lparr>ms_name := x\<rparr>"] name show ?thesis
      by (auto simp: eval patch_set_name_def update_set_name_def exec_found_tx)
  next
    case (noted x)
    with edit [of "\<lambda>m. m\<lparr>ms_note := Some x\<rparr>"] show ?thesis by (auto simp: eval update_set_note_def exec_found_tx)
  next
    case clear
    with edit [of "\<lambda>m. m\<lparr>ms_note := None\<rparr>"] show ?thesis by (auto simp: eval clear_set_note_def exec_found_tx)
  next
    case (add x)
    with ok have x: "x \<in> c_id ` set (catalog_cards d)" "(i, x) \<notin> set (media_sets_x_cards d)"
      by (auto simp: set_patch_ok_iff)
    have "good (d\<lparr>media_sets_x_cards := media_sets_x_cards d @ [(i, x)]\<rparr>) q0"
      using good x i links by (intro good_set_links) auto
    with add show ?thesis
      by (auto simp: eval patch_set_add_card_def set_links.add_link_tx [OF ser le i x])
  next
    case (remove x)
    with ok have x: "(i, x) \<in> set (media_sets_x_cards d)" by (auto simp: set_patch_ok_iff)
    have xle: "x \<le> max_serial" using links(3) [OF x] ser by (auto simp: serial_ok_def)
    have "good (d\<lparr>media_sets_x_cards := filter (\<lambda>l. l \<noteq> (i, x)) (media_sets_x_cards d)\<rparr>) q0"
      using good links by (intro good_set_links) auto
    with remove show ?thesis
      by (auto simp: eval patch_set_remove_card_def set_links.remove_link_tx [OF le xle x])
  next
    case (join x)
    with ok have x: "x \<in> m_id ` set (media_tbl d)" by (auto simp: set_patch_ok_iff)
    have xle: "x \<le> max_serial" "keyed m_id (media_tbl d)" using goodM(1) [OF good] x by (auto simp: media_ok_def serial_ok_def)
    have "set (opt_arg (Some i)) \<subseteq> ms_id ` set (media_sets d)" using i by (simp add: opt_arg_def)
    note move = move_media_tx [OF good x this]
    have "media_id_count x t0 d q = (Inr (d, [Suc 0]), q)" for q
      using x xle by (simp add: media_id_count_def select_stmt_def count_where_key)
    with join move(2) show ?thesis by (auto simp: eval patch_set_add_media_def exec_found_tx [where st = "update_media_set_id (Some i) x", OF move(1)])
  next
    case (leave x)
    with ok obtain r where r: "r \<in> set (media_tbl d)" "m_id r = x" "m_media_set_id r = Some i" by (auto simp: set_patch_ok_iff)
    have xle: "x \<le> max_serial" "keyed m_id (media_tbl d)" using goodM(1) [OF good] r by (auto simp: media_ok_def serial_ok_def)
    have "x \<in> m_id ` set (media_tbl d)" "set (opt_arg None) \<subseteq> ms_id ` set (media_sets d)" using r by (auto simp: opt_arg_def)
    note move = move_media_tx [OF good this]
    have "select_media_set_id x t0 d q = (Inr (d, [Some i]), q)" for q
      using xle r keyed_filter_eq [OF xle(2) r(1)] by (simp add: select_media_set_id_def select_stmt_def)
    with leave move show ?thesis by (auto simp: eval patch_set_remove_media_def)
  qed
qed

text \<open>A list of patches, each acceptable on the tables that the ones before it leave.\<close>

fun set_patches_ok :: "db \<Rightarrow> uint32 \<Rightarrow> MediaSetPatch list \<Rightarrow> bool" where
  "set_patches_ok d i [] = True"
| "set_patches_ok d i (p # ps) = (set_patch_ok d i p \<and> set_patches_ok (apply_set_patch i p d) i ps)"

lemma apply_set_patch_ids: "ms_id ` set (media_sets (apply_set_patch i p d)) = ms_id ` set (media_sets d)"
  by (simp add: apply_set_patch_def edit_set_def move_media_def split: option.splits)

lemma patch_sets_tx:
  assumes "good d q0" and "i \<in> ms_id ` set (media_sets d)" and "set_patches_ok d i ps"
  shows "(\<exists>n'. outcome (check (for_each (patch_media_set (reliable P) i) ps) w k) (in_tx s lvl t0 n d q) =
      outcome (k ()) (in_tx s lvl t0 n' (fold (apply_set_patch i) ps d) q)) \<and>
    good (fold (apply_set_patch i) ps d) q0 \<and> i \<in> ms_id ` set (media_sets (fold (apply_set_patch i) ps d))"
  using assms
proof (induction ps arbitrary: d n)
  case Nil
  then show ?case by (auto simp: wp_rules)
next
  case (Cons p ps)
  let ?d = "apply_set_patch i p d" and ?f = "for_each (patch_media_set (reliable P) i)"
  have p: "set_patch_ok d i p" using Cons.prems(3) by simp
  obtain n1 where n1: "outcome (check (patch_media_set (reliable P) i p) w (\<lambda>_. check (?f ps) w k)) (in_tx s lvl t0 n d q) =
      outcome (check (?f ps) w k) (in_tx s lvl t0 n1 ?d q)" and good: "good ?d q0"
    using patch_media_set_tx [OF Cons.prems(1,2) p] by blast
  from Cons.IH [OF good, of n1] Cons.prems(2,3) n1 show ?case
    by (simp add: check_assoc apply_set_patch_ids)
qed

lemma PatchMediaSet_outcome:
  assumes "good (committed s) q0" and "i \<noteq> 0" and "i \<in> ms_id ` set (media_sets (committed s))"
    and "set_patches_ok (committed s) i ps" and d': "d' = fold (apply_set_patch i) ps (committed s)"
  shows "\<exists>r\<in>set (media_sets d'). ms_id r = i \<and>
    outcome (PatchMediaSet (reliable P) i (Some ps)) s = (Ok (set_view d' r), d', seqs_of s)"
proof -
  let ?rest = "\<lambda>_. bind (getMediaSet (reliable P) i) (\<lambda>mediaSet. bind (Commit (reliable P)) (\<lambda>_. ret mediaSet))"
  have le: "i \<le> max_serial" using assms(3) set_rows_ok(3) [OF assms(1)] by auto
  obtain r0 where r0: "r0 \<in> set (media_sets (committed s))" "ms_id r0 = i" using assms(3) by blast
  note get0 = getMediaSet_tx [OF set_rows_ok(2) [OF assms(1)] r0 le]
  from patch_sets_tx [OF assms(1,3,4), of P "\<lambda>e. e" ?rest s None "clock_at P (calls s)" "Suc (Suc (Suc (calls s)))" "seqs_of s"]
  obtain n' where n': "outcome (bind (for_each (patch_media_set (reliable P) i) ps) ?rest)
        (in_tx s None (clock_at P (calls s)) (Suc (Suc (Suc (calls s)))) (committed s) (seqs_of s)) =
      outcome (?rest ()) (in_tx s None (clock_at P (calls s)) n' d' (seqs_of s))"
    and good: "good d' q0" and "i \<in> ms_id ` set (media_sets d')"
    unfolding d' by blast
  then obtain r where r: "r \<in> set (media_sets d')" "ms_id r = i" by blast
  note get = getMediaSet_tx [OF set_rows_ok(2) [OF good] r le]
  have "outcome (PatchMediaSet (reliable P) i (Some ps)) s = (Ok (set_view d' r), d', seqs_of s)"
    using assms(2) n' by (simp add: PatchMediaSet_def outcome_with_tx get0 get wp_rules)
  with r show ?thesis by blast
qed

end
