(* ===== verification/VM_Ingest.thy ===== *)
theory VM_Ingest
  imports VM_MediaSets VM_Process
begin

text \<open>
  Ingestion of DVDs (src/internal/services/media/dvd\_ingestion\_task.go): the task that moves a DVD's
  directory from the inbox to its final place and records the new path, its creation and its lookup.

  The file system is a parameter: \<^verbatim>\<open>os_Rename\<close> is told the moves made so far and answers the error of
  \<^verbatim>\<open>os.Rename\<close>, or none. The session records each move that succeeded.
\<close>

section \<open>The state of a task\<close>

definition TaskTypeDvdIngestion :: string where
  "TaskTypeDvdIngestion = ''dvd_ingestion''"

record DvdIngestionState =
  MediaId :: uint32

definition marshal_ingestion :: "DvdIngestionState \<Rightarrow> string" where
  "marshal_ingestion st = CHR ''{'' # member_key ''media_id'' @ decimal (unat (MediaId st)) @ ''}''"

definition store_ingestion :: "string \<Rightarrow> json \<Rightarrow> DvdIngestionState \<Rightarrow> DvdIngestionState option" where
  "store_ingestion f v st = store_uint32 (\<lambda>n. st\<lparr>MediaId := n\<rparr>) st v"

definition unmarshal_ingestion :: "string \<Rightarrow> DvdIngestionState option" where
  "unmarshal_ingestion = Unmarshal [''media_id''] store_ingestion \<lparr>MediaId = 0\<rparr>"

section \<open>The handler\<close>

definition select_dvd_path :: "uint32 \<Rightarrow> string list stmt" where
  "select_dvd_path i = int4 [i] (select_stmt (\<lambda>d. map d_path (filter (\<lambda>v. d_media_id v = i) (media_dvds d))))"

definition update_dvd_path :: "uint32 \<Rightarrow> string \<Rightarrow> nat stmt" where
  "update_dvd_path i path = int4 [i] (modify_stmt (\<lambda>d.
     if path = [] \<and> i \<in> d_media_id ` set (media_dvds d) then Inl check_violation
     else Inr (d\<lparr>media_dvds := update_where (\<lambda>v. d_media_id v = i) (\<lambda>v. v\<lparr>d_path := path\<rparr>) (media_dvds d)\<rparr>,
               count_where (\<lambda>v. d_media_id v = i) (media_dvds d))))"

type_synonym os_rename = "(string \<times> string) list \<Rightarrow> string \<Rightarrow> string \<Rightarrow> goerr option"

definition Rename :: "os_rename \<Rightarrow> string \<Rightarrow> string \<Rightarrow> unit prog" where
  "Rename os_Rename oldPath newPath s =
     (case os_Rename (renames s) oldPath newPath of
        Some e \<Rightarrow> (Err e, s)
      | None \<Rightarrow> (Ok (), s\<lparr>renames := renames s @ [(oldPath, newPath)]\<rparr>))"

text \<open>\<^verbatim>\<open>return vmtask.Failed(fmt.Sprintf("..: %v", err))\<close>\<close>

definition fails_with :: "string \<Rightarrow> goerr \<Rightarrow> Result prog" where
  "fails_with msg e = ret (Failed (msg @ error_text e))"

definition Handle :: "Paths \<Rightarrow> os_rename \<Rightarrow> handler" where
  "Handle paths os_Rename P taskId taskType stateBytes =
     (case unmarshal_ingestion stateBytes of
        None \<Rightarrow> fails_with ''failed to unmarshal state: '' json_error
      | Some state \<Rightarrow>
          on_error (QueryOne P Tx (select_dvd_path (MediaId state))) (fails_with ''failed to query media_dvds: '') (\<lambda>path.
          let oldPath = Absolute paths path; newPath = MediaDvdId paths PathKindAbsolute (MediaId state) in
          on_error (Rename os_Rename oldPath newPath) (fails_with ''failed to rename DVD path: '') (\<lambda>_.
          let relPath = MediaDvdId paths PathKindRelative (MediaId state) in
          on_error (Exec P Tx (update_dvd_path (MediaId state) relPath)) (fails_with ''failed to update media_dvds path: '') (\<lambda>_.
          ret Completed))))"

section \<open>Creation and lookup\<close>

definition CreateDvdIngestionTask :: "pg \<Rightarrow> runner \<Rightarrow> uint32 \<Rightarrow> int prog" where
  "CreateDvdIngestionTask P r mediaId =
     Create P r TaskTypeDvdIngestion (Some (marshal_ingestion \<lparr>MediaId = mediaId\<rparr>))"

text \<open>A task of this type whose state names the media.\<close>

definition ingests :: "pg \<Rightarrow> uint32 \<Rightarrow> Task \<Rightarrow> bool" where
  "ingests P i t =
     (t_TaskType t = TaskTypeDvdIngestion \<and> state_media_id P (t_State t) = Some (uint i))"

definition select_ingestion :: "pg \<Rightarrow> uint32 \<Rightarrow> Task list stmt" where
  "select_ingestion P i = int4 [i] (select_stmt (\<lambda>d.
     take 1 (rev (sort_key t_CreatedAt (filter (ingests P i) (tasks d))))))"

definition GetDvdIngestionTask :: "pg \<Rightarrow> runner \<Rightarrow> uint32 \<Rightarrow> Task option prog" where
  "GetDvdIngestionTask P r mediaId =
     on_error (QueryOne P r (select_ingestion P mediaId))
       (\<lambda>e. if e = Sentinel ErrNotFound then ret None else throw e) (\<lambda>task. ret (Some task))"

section \<open>What is stored is read back\<close>

text \<open>
  What the code relies on of the server: a state it writes is accepted, the text read back denotes the
  same JSON value, and the expression in SQL finds the number in it.
\<close>

definition jsonb_ok :: "pg \<Rightarrow> bool" where
  "jsonb_ok P =
     (\<forall>i. \<exists>v. jsonb_in P (marshal_ingestion \<lparr>MediaId = i\<rparr>) = Some v \<and>
        parse_json (jsonb_out P v) = parse_json (marshal_ingestion \<lparr>MediaId = i\<rparr>) \<and>
        (i \<le> max_serial \<longrightarrow> state_media_id P v = Some (uint i)))"

lemma parse_json_ingestion:
  "parse_json (marshal_ingestion st) = Some (JObj [(''media_id'', JNum (decimal (unat (MediaId st))))])"
proof -
  have "list_all plain_char ''media_id''" by (simp add: plain_char_def between_def)
  then show ?thesis
    by (simp add: parse_json_def marshal_ingestion_def parse_object parse_members_number(1))
qed

lemma unmarshal_marshal_ingestion: "unmarshal_ingestion (marshal_ingestion st) = Some st"
  by (simp add: parse_json_ingestion unmarshal_ingestion_def Unmarshal_def find_field_def store_ingestion_def store_uint32_def)

lemma jsonb_okE:
  assumes "jsonb_ok P"
  obtains v where "jsonb_in P (marshal_ingestion \<lparr>MediaId = i\<rparr>) = Some v"
    and "unmarshal_ingestion (jsonb_out P v) = Some \<lparr>MediaId = i\<rparr>"
    and "i \<le> max_serial \<Longrightarrow> state_media_id P v = Some (uint i)"
proof -
  obtain v where v: "jsonb_in P (marshal_ingestion \<lparr>MediaId = i\<rparr>) = Some v"
      "parse_json (jsonb_out P v) = parse_json (marshal_ingestion \<lparr>MediaId = i\<rparr>)"
      "i \<le> max_serial \<longrightarrow> state_media_id P v = Some (uint i)"
    using assms by (auto simp: jsonb_ok_def)
  have "unmarshal_ingestion (jsonb_out P v) = unmarshal_ingestion (marshal_ingestion \<lparr>MediaId = i\<rparr>)"
    by (simp add: unmarshal_ingestion_def Unmarshal_def v(2))
  with v that show thesis by (simp add: unmarshal_marshal_ingestion)
qed

lemma ingests_inj: "ingests P i t \<Longrightarrow> ingests P j t \<Longrightarrow> i = j"
  by (simp add: ingests_def word_uint_eq_iff)

section \<open>The handler on a reliable transaction\<close>

lemma QueryOne_in_tx:
  "st t0 d q = (Inr (d', [x]), q') \<Longrightarrow>
     QueryOne (reliable P) Tx st (in_tx s lvl t0 n d q) = (Ok x, in_tx s lvl t0 (Suc n) d' q')"
  "st t0 d q = (Inr (d', []), q') \<Longrightarrow>
     QueryOne (reliable P) Tx st (in_tx s lvl t0 n d q) =
       (Err (HttpError ProblemNotFound 404 (Sentinel ErrNotFound)), in_tx s lvl t0 (Suc n) d' q')"
  by (simp_all add: QueryOne_reply reply_def pg_run_in_tx rows_result_def one_row_def)

lemma Exec_in_tx:
  "st t0 d q = (Inr (d', x), q') \<Longrightarrow>
     Exec (reliable P) Tx st (in_tx s lvl t0 n d q) = (Ok x, in_tx s lvl t0 (Suc n) d' q')"
  by (simp add: Exec_def pg_run_in_tx)

definition set_path :: "uint32 \<Rightarrow> string \<Rightarrow> db \<Rightarrow> db" where
  "set_path i path d =
     d\<lparr>media_dvds := update_where (\<lambda>v. d_media_id v = i) (\<lambda>v. v\<lparr>d_path := path\<rparr>) (media_dvds d)\<rparr>"

lemma set_path_frame [simp]:
  "tasks (set_path i p d) = tasks d" "media_tbl (set_path i p d) = media_tbl d"
  "media_sets (set_path i p d) = media_sets d" "catalog_cards (set_path i p d) = catalog_cards d"
  "media_x_cards (set_path i p d) = media_x_cards d"
  by (simp_all add: set_path_def)

lemma update_dvd_path_eval:
  assumes "path \<noteq> []" and "i \<le> max_serial"
  shows "update_dvd_path i path t0 d q =
    (Inr (set_path i path d, count_where (\<lambda>v. d_media_id v = i) (media_dvds d)), q)"
  using assms by (simp add: update_dvd_path_def modify_stmt_def set_path_def)

lemma select_dvd_path_eval:
  assumes "i \<le> max_serial"
  shows "keyed d_media_id (media_dvds d) \<Longrightarrow> v \<in> set (media_dvds d) \<Longrightarrow> d_media_id v = i \<Longrightarrow>
      select_dvd_path i t0 d q = (Inr (d, [d_path v]), q)"
    and "i \<notin> d_media_id ` set (media_dvds d) \<Longrightarrow> select_dvd_path i t0 d q = (Inr (d, []), q)"
  using assms keyed_filter_eq [of d_media_id "media_dvds d" v]
  by (auto simp: select_dvd_path_def select_stmt_def filter_key_absent)

lemma MediaDvdId_relative: "MediaDvdId p PathKindRelative i = ''media/dvd/'' @ decimal (unat i)"
proof -
  have "list_all plain [''media'', ''dvd'', decimal (unat i)]" using decimal_plain by (simp add: plain_def)
  then show ?thesis by (simp add: MediaDvdId_def makePath_def Join_relative)
qed

lemma Handle_moves:
  assumes "unmarshal_ingestion bytes = Some \<lparr>MediaId = i\<rparr>" and "i \<le> max_serial"
    and "keyed d_media_id (media_dvds d)" and "v \<in> set (media_dvds d)" and "d_media_id v = i"
    and "os_Rename (renames s) (Absolute p (d_path v)) (MediaDvdId p PathKindAbsolute i) = None"
  shows "Handle p os_Rename (reliable P) k ty bytes (in_tx s lvl t0 n d q) =
    (Ok Completed,
     in_tx (s\<lparr>renames := renames s @ [(Absolute p (d_path v), MediaDvdId p PathKindAbsolute i)]\<rparr>) lvl t0
       (Suc (Suc n)) (set_path i (MediaDvdId p PathKindRelative i) d) q)"
proof -
  have step: "(in_tx s lvl t0 m d q)\<lparr>renames := r\<rparr> = in_tx (s\<lparr>renames := r\<rparr>) lvl t0 m d q" for m r
    by (simp add: in_tx_def)
  have "renames (in_tx s lvl t0 m d q) = renames s" for m by (simp add: in_tx_def)
  moreover have "MediaDvdId p PathKindRelative i \<noteq> []" by (simp add: MediaDvdId_relative)
  ultimately show ?thesis
    using assms
    by (simp add: Handle_def on_error_def QueryOne_in_tx(1) [where st = "select_dvd_path i", OF select_dvd_path_eval(1)]
        Rename_def step Exec_in_tx [where st = "update_dvd_path i path" for path, OF update_dvd_path_eval] ret_def)
qed

lemma Handle_no_dvd:
  assumes "unmarshal_ingestion bytes = Some \<lparr>MediaId = i\<rparr>" and "i \<le> max_serial" and "i \<notin> d_media_id ` set (media_dvds d)"
  shows "Handle p os_Rename (reliable P) k ty bytes (in_tx s lvl t0 n d q) =
    (Ok (Failed ''failed to query media_dvds: record not found''), in_tx s lvl t0 (Suc n) d q)"
  using assms
  by (simp add: Handle_def on_error_def fails_with_def ret_def
      QueryOne_in_tx(2) [where st = "select_dvd_path i", OF select_dvd_path_eval(2)])

lemma Handle_rename_fails:
  assumes "unmarshal_ingestion bytes = Some \<lparr>MediaId = i\<rparr>" and "i \<le> max_serial"
    and "keyed d_media_id (media_dvds d)" and "v \<in> set (media_dvds d)" and "d_media_id v = i"
    and "os_Rename (renames s) (Absolute p (d_path v)) (MediaDvdId p PathKindAbsolute i) = Some e"
  shows "Handle p os_Rename (reliable P) k ty bytes (in_tx s lvl t0 n d q) =
    (Ok (Failed (''failed to rename DVD path: '' @ error_text e)), in_tx s lvl t0 (Suc n) d q)"
proof -
  have "renames (in_tx s lvl t0 m d q) = renames s" for m by (simp add: in_tx_def)
  then show ?thesis
    using assms
    by (simp add: Handle_def on_error_def QueryOne_in_tx(1) [where st = "select_dvd_path i", OF select_dvd_path_eval(1)]
        Rename_def fails_with_def ret_def)
qed

lemma Handle_bad_state:
  "unmarshal_ingestion bytes = None \<Longrightarrow>
   Handle p os_Rename (reliable P) k ty bytes s = (Ok (Failed ''failed to unmarshal state: invalid json''), s)"
  by (simp add: Handle_def fails_with_def ret_def json_error_def)

section \<open>A task from claim to result\<close>

text \<open>What the process has moved is not touched by the database operations.\<close>

abbreviation still :: "(string \<times> string) list \<Rightarrow> 'a prog \<Rightarrow> bool" where
  "still moved m \<equiv> keeps (\<lambda>s. renames s = moved) m"

lemma still_reply: "still R (reply g P r st)"
  by (cases r)
    (auto simp: keeps_def reply_def pg_run.simps Let_def split: prod.splits fault.splits sum.splits option.splits if_splits)

lemma still_Exec: "still R (Exec P r st)"
  by (simp add: Exec_reply still_reply)

lemma still_Query: "still R (QueryOne P r st)" "still R (Query P r st cb c)"
  by (simp_all add: QueryOne_reply Query_reply still_reply)

lemma still_Begin: "still R (Begin P opts)" and still_Commit: "still R (Commit P)" and still_Rollback: "still R (Rollback P)"
  by (auto simp: keeps_def Begin_def Commit_def Rollback_def Let_def split: fault.splits option.splits)

lemma still_defer_Rollback: "still R m \<Longrightarrow> still R (defer_Rollback P m)"
  using still_Rollback unfolding keeps_def defer_Rollback_def by (auto split: prod.splits) (metis snd_conv)

lemmas still_intros = keeps_ret keeps_fail keeps_panic keeps_throw keeps_if keeps_option keeps_for_each
  still_Exec still_Query still_Begin still_Commit still_defer_Rollback keeps_check

lemma still_applyResult: "still R (applyResult P r i res)"
  unfolding applyResult_def updateTaskState_def completeTask_def failTask_def maybeResumeParent_def notify_def
  by (cases "NewStatus res") (auto intro!: still_intros)

lemma processTask_renames:
  assumes "a_handler a (reliable P) (a_taskId a) (a_taskType a) (a_state a)
      (in_tx s (Some ReadCommitted) (clock_at P (calls s)) (Suc (calls s)) (committed s) (seqs_of s)) = (Ok r, s1)"
  shows "renames (snd (processTask (reliable P) a s)) = renames s1"
proof -
  let ?s = "in_tx s (Some ReadCommitted) (clock_at P (calls s)) (Suc (calls s)) (committed s) (seqs_of s)"
  have "Begin (reliable P) [ReadCommitted] s = (Ok (), ?s)" by (simp add: Begin_def Let_def in_tx_def)
  then have run: "processTask (reliable P) a s = defer_Rollback (reliable P) (\<lambda>_. finish_task P a r s1) ?s"
    using assms by (simp add: processTask_def with_tx_def check_def defer_Rollback_def)
  have "still (renames s1) (finish_task P a r)" by (intro still_intros still_applyResult)
  then have "renames (snd (finish_task P a r s1)) = renames s1" by (simp add: keeps_def)
  moreover have "renames (snd (Rollback (reliable P) s2)) = renames s2" for s2
    using still_Rollback [of "renames s2" "reliable P"] by (simp add: keeps_def)
  ultimately show ?thesis unfolding run by (simp add: defer_Rollback_def split_def)
qed

text \<open>The assignment of an ingestion task, as the scanner gives it to a worker.\<close>

definition ingestion_of :: "Paths \<Rightarrow> os_rename \<Rightarrow> uint32 \<Rightarrow> taskAssignment \<Rightarrow> bool" where
  "ingestion_of p os_Rename i a =
     (a_handler a = Handle p os_Rename \<and> unmarshal_ingestion (a_state a) = Some \<lparr>MediaId = i\<rparr>)"

lemma ingest_completes:
  assumes "good (committed s) q0" and "\<forall>u\<in>set (tasks (committed s)). task_id_ok (t_Id u)"
    and "t \<in> set (tasks (committed s))" and "t_Id t = a_taskId a" and "t_Status t \<noteq> StatusFailed"
    and a: "ingestion_of p os_Rename i a"
    and v: "v \<in> set (media_dvds (committed s))" "d_media_id v = i"
    and mv: "os_Rename (renames s) (Absolute p (d_path v)) (MediaDvdId p PathKindAbsolute i) = None"
    and now: "now = clock_at P (calls s)"
  shows "outcome (processTask (reliable P) a) s =
      (Ok (), resume_parent (finished (set_path i (MediaDvdId p PathKindRelative i) (committed s)) (a_taskId a) now
         (done_row Completed None)) (t_ParentId t) now, seqs_of s)" (is ?done)
    and "renames (snd (processTask (reliable P) a s)) =
      renames s @ [(Absolute p (d_path v), MediaDvdId p PathKindAbsolute i)]" (is ?moved)
proof -
  let ?d = "set_path i (MediaDvdId p PathKindRelative i) (committed s)"
  have ok: "keyed d_media_id (media_dvds (committed s))" "i \<le> max_serial"
    using goodM(1) [OF assms(1)] v by (auto simp: media_ok_def serial_ok_def)
  note run = Handle_moves [where os_Rename = os_Rename and s = s and p = p and bytes = "a_state a", OF _ ok(2,1) v mv]
  have "handles P a s Completed (Suc (Suc (Suc (calls s)))) ?d (seqs_of s)"
    using a by (auto simp: handles_def Let_def ingestion_of_def run)
  moreover have "tasks_ok ?d q0" using good_tasks_ok [OF assms(1)] by (simp add: tasks_ok_def)
  ultimately show ?done
    unfolding now by (rule processTask_finishes) (use assms(2-5) in \<open>simp_all add: Completed_def state_of_def\<close>)
  have "renames (in_tx s1 lvl t0 n d q) = renames s1" for s1 lvl t0 n d q by (simp add: in_tx_def)
  then show ?moved
    using a processTask_renames [where a = a and P = P and s = s] by (simp add: ingestion_of_def run)
qed

text \<open>A failed ingestion: without the DVD row, or when the directory cannot be moved.\<close>

lemma ingest_fails:
  assumes "good (committed s) q0" and "\<forall>u\<in>set (tasks (committed s)). task_id_ok (t_Id u)"
    and "t \<in> set (tasks (committed s))" and "t_Id t = a_taskId a" and "ingestion_of p os_Rename i a" and "i \<le> max_serial"
    and now: "now = clock_at P (calls s)"
    and why: "i \<notin> d_media_id ` set (media_dvds (committed s)) \<and> msg = ''failed to query media_dvds: record not found'' \<or>
      (\<exists>v e. v \<in> set (media_dvds (committed s)) \<and> d_media_id v = i \<and> msg = ''failed to rename DVD path: '' @ error_text e \<and>
        os_Rename (renames s) (Absolute p (d_path v)) (MediaDvdId p PathKindAbsolute i) = Some e)"
  shows "outcome (processTask (reliable P) a) s =
      (Ok (), resume_parent (finished (committed s) (a_taskId a) now (done_row (Failed msg) None)) (t_ParentId t) now,
       seqs_of s)" (is ?done)
    and "renames (snd (processTask (reliable P) a s)) = renames s" (is ?still)
proof -
  have ok: "keyed d_media_id (media_dvds (committed s))"
    using goodM(1) [OF assms(1)] by (auto simp: media_ok_def)
  have run: "Handle p os_Rename (reliable P) (a_taskId a) (a_taskType a) (a_state a) (in_tx s lvl t0 n (committed s) q) =
      (Ok (Failed msg), in_tx s lvl t0 (Suc n) (committed s) q)" for lvl t0 n q
    using why assms(5,6) ok by (auto simp: ingestion_of_def Handle_no_dvd Handle_rename_fails)
  have same: "s\<lparr>renames := renames s\<rparr> = s" by simp
  have "handles P a s (Failed msg) (Suc (Suc (calls s))) (committed s) (seqs_of s)"
    using assms(5) same unfolding handles_def Let_def ingestion_of_def by (metis run)
  then show ?done
    unfolding now by (rule processTask_finishes [OF _ good_tasks_ok [OF assms(1)] assms(3,4,2)]) (simp add: Failed_def)
  have "renames (in_tx s1 lvl t0 n d q) = renames s1" for s1 lvl t0 n d q by (simp add: in_tx_def)
  then show ?still
    using assms(5) processTask_renames [where a = a and P = P and s = s] by (simp add: ingestion_of_def run)
qed

text \<open>The lookup never answers that there is no task: the comparison with the sentinel misses the wrapped error.\<close>

lemma GetDvdIngestionTask_outcome:
  assumes "i \<le> max_serial"
  shows "outcome (GetDvdIngestionTask (reliable P) Pool i) s =
    (case rev (sort_key t_CreatedAt (filter (ingests P i) (tasks (committed s)))) of
       [] \<Rightarrow> (Err (HttpError ProblemNotFound 404 (Sentinel ErrNotFound)), committed s, seqs_of s)
     | t # _ \<Rightarrow> (Ok (Some t), committed s, seqs_of s))"
proof -
  have "ingests (reliable P) i = ingests P i" by (rule ext) (simp add: ingests_def)
  then have sel: "select_ingestion (reliable P) i now d q =
      (Inr (d, take 1 (rev (sort_key t_CreatedAt (filter (ingests P i) (tasks d))))), q)" for now d q
    using assms by (simp add: select_ingestion_def select_stmt_def)
  show ?thesis
    by (cases "rev (sort_key t_CreatedAt (filter (ingests P i) (tasks (committed s))))")
      (simp_all add: GetDvdIngestionTask_def on_error_def outcome_def QueryOne_reply reply_def pg_run.simps Let_def sel
        rows_result_def one_row_def ret_def throw_def)
qed

section \<open>Invariants\<close>

lemma keeps_Rename: "keeps (sess_inv I) (Rename os_Rename a b)"
  by (auto simp: keeps_def Rename_def sess_inv_def split: option.splits)

lemma idle_Rename: "idle (Rename os_Rename a b)"
  by (auto simp: keeps_def Rename_def split: option.splits)

lemma good_dvds:
  assumes "good d q" and "keyed d_media_id vs" and "d_media_id ` set vs \<subseteq> m_id ` set (media_tbl d)"
    and "\<forall>v\<in>set vs. d_path v \<noteq> []"
  shows "good (d\<lparr>media_dvds := vs\<rparr>) q"
proof -
  have "media_ok (d\<lparr>media_dvds := vs\<rparr>) q" "links_ok (d\<lparr>media_dvds := vs\<rparr>)"
    using goodM [OF assms(1)] assms(2-4) by (simp_all add: media_ok_def links_ok_def)
  then show ?thesis
    using good_media [OF assms(1), where ss = "media_sets d" and ms = "media_tbl d" and vs = vs
        and u = "media_set_seq q" and v = "media_seq q"] by simp
qed

lemma set_path_good:
  assumes "good d q" and "path \<noteq> []"
  shows "good (set_path i path d) q"
  unfolding set_path_def
  using goodM(1) [OF assms(1)] assms by (intro good_dvds) (auto simp: media_ok_def set_update_where)

lemma update_dvd_path_keeps [stmt_ok]: "stmt_keeps good (update_dvd_path i path)"
proof -
  have absent: "set_path i path d = d" if "i \<notin> d_media_id ` set (media_dvds d)" for d
  proof -
    have "update_where (\<lambda>v. d_media_id v = i) (\<lambda>v. v\<lparr>d_path := path\<rparr>) (media_dvds d) = media_dvds d"
      using that by (auto simp: update_where_def intro!: map_idI)
    then show ?thesis by (simp add: set_path_def)
  qed
  have "good (set_path i path d) q"
    if "good d q" "\<not> (path = [] \<and> i \<in> d_media_id ` set (media_dvds d))" for d q
    using that set_path_good [OF that(1), of path i] absent by (cases "path = []") auto
  then show ?thesis
    unfolding update_dvd_path_def
    by (intro good.stmt_keeps_int4 good.stmt_keeps_modify) (auto simp: set_path_def split: if_split_asm)
qed

lemma select_dvd_path_keeps [stmt_ok]: "stmt_keeps good (select_dvd_path i)"
  by (simp add: select_dvd_path_def good.stmt_keeps_select good.stmt_keeps_int4)

end
