(* ===== verification/VM_Media.thy ===== *)
theory VM_Media
  imports VM_Ingest
begin

text \<open>
  Media (src/internal/services/media/media.go): a media record with its DVD, its media set, its cards and
  the state of its ingestion, which is read off the ingestion task. List, create, delete, read and patch.
\<close>

section \<open>Requests and responses\<close>

datatype DVDIngestionState = DVDIngestionStatePending | DVDIngestionStateDone | DVDIngestionStateError

record DVDIngestion =
  ing_State :: DVDIngestionState
  ing_ErrorMessage :: "string option"

record DVD =
  dvd_Path :: string
  dvd_Ingestion :: DVDIngestion

record MediaDetails =
  det_Dvd :: "DVD option"

record Media =
  md_Id :: uint32
  md_MediaSetId :: "uint32 option"
  md_Note :: "string option"
  md_Details :: "MediaDetails option"
  md_CardIds :: "uint32 list"

record PostMediaBody =
  pm_MediaSetId :: "uint32 option"
  pm_Note :: "string option"
  pm_DvdInboxPath :: "string option"
  pm_CardIds :: "uint32 list"

record DvdPatch =
  dp_Path :: "string option"

record MediaPatch =
  mp_Note :: "string option"
  mp_MediaSetId :: "uint32 option"
  mp_ClearMediaSetId :: "bool option"
  mp_AddCardId :: "uint32 option"
  mp_RemoveCardId :: "uint32 option"
  mp_Dvd :: "DvdPatch option"

section \<open>The join of media, DVDs and ingestion tasks\<close>

record media_join =
  j_Id :: uint32
  j_MediaSetId :: "uint32 option"
  j_Note :: "string option"
  j_IsDvd :: bool
  j_Path :: "string option"
  j_TaskStatus :: "Status option"
  j_TaskError :: "string option"

definition media_join_row :: "media_row \<Rightarrow> dvd_row option \<Rightarrow> Task option \<Rightarrow> media_join" where
  "media_join_row m v t =
     \<lparr>j_Id = m_id m, j_MediaSetId = m_media_set_id m, j_Note = m_note m, j_IsDvd = (v \<noteq> None),
      j_Path = map_option d_path v, j_TaskStatus = map_option t_Status t, j_TaskError = Option.bind t t_Error\<rparr>"

definition media_joins :: "pg \<Rightarrow> db \<Rightarrow> media_row \<Rightarrow> media_join list" where
  "media_joins P d m =
     concat (map (\<lambda>v. map (media_join_row m v) (left_join (filter (ingests P (m_id m)) (tasks d))))
       (left_join (filter (\<lambda>v. d_media_id v = m_id m) (media_dvds d))))"

definition media_rows :: "pg \<Rightarrow> db \<Rightarrow> media_join list" where
  "media_rows P d = concat (map (media_joins P d) (media_tbl d))"

section \<open>Statements\<close>

definition list_media_sql :: string where
  "list_media_sql = ''SELECT m.id, m.media_set_id, m.note, d.media_id IS NOT NULL AS is_dvd, d.path, '' @
     ''t.status AS task_status, t.error AS task_error FROM media m LEFT JOIN media_dvds d ON d.media_id = m.id '' @
     ''LEFT JOIN tasks t ON t.task_type = '' @ CHR 0x27 # ''dvd_ingestion'' @ CHR 0x27 #
     '' AND (t.state->>'' @ CHR 0x27 # ''media_id'' @ CHR 0x27 # '')::integer = m.id '' @
     ''WHERE m.id > @lastSeenId ORDER BY m.id ASC LIMIT @limit;''"

definition list_media_stmt :: "pg \<Rightarrow> uint32 \<Rightarrow> uint32 \<Rightarrow> media_join list stmt" where
  "list_media_stmt P lastSeenId lim =
     int4 [lastSeenId] (select_stmt (\<lambda>d. take (unat lim) (rows_above j_Id lastSeenId (media_rows P d))))"

definition insert_media :: "uint32 option \<Rightarrow> string option \<Rightarrow> uint32 list stmt" where
  "insert_media setId note = int4 (opt_arg setId) (\<lambda>now d q.
     if media_seq q < max_serial then
       (let i = media_seq q + 1; q' = q\<lparr>media_seq := i\<rparr> in
        if set (opt_arg setId) \<subseteq> ms_id ` set (media_sets d)
        then (Inr (d\<lparr>media_tbl := media_tbl d @ [\<lparr>m_id = i, m_media_set_id = setId, m_note = note\<rparr>]\<rparr>, [i]), q')
        else (Inl foreign_key_violation, q'))
     else (Inl sequence_exhausted, q))"

definition dvd_path_count :: "string \<Rightarrow> nat list stmt" where
  "dvd_path_count path = select_stmt (\<lambda>d. [count_where (\<lambda>v. d_path v = path) (media_dvds d)])"

definition insert_dvd :: "uint32 \<Rightarrow> string \<Rightarrow> nat stmt" where
  "insert_dvd i path = int4 [i] (modify_stmt (\<lambda>d.
     if path = [] then Inl check_violation
     else if i \<in> d_media_id ` set (media_dvds d) then Inl unique_violation
     else if i \<notin> m_id ` set (media_tbl d) then Inl foreign_key_violation
     else Inr (d\<lparr>media_dvds := media_dvds d @ [\<lparr>d_media_id = i, d_path = path\<rparr>]\<rparr>, 1)))"

definition insert_media_link :: "uint32 \<Rightarrow> uint32 \<Rightarrow> nat stmt" where
  "insert_media_link i cardId = int4 [i, cardId] (modify_stmt (\<lambda>d.
     if (i, cardId) \<in> set (media_x_cards d) then Inl unique_violation
     else if i \<notin> m_id ` set (media_tbl d) \<or> cardId \<notin> c_id ` set (catalog_cards d) then Inl foreign_key_violation
     else Inr (d\<lparr>media_x_cards := media_x_cards d @ [(i, cardId)]\<rparr>, 1)))"

definition delete_media :: "uint32 \<Rightarrow> nat stmt" where
  "delete_media i = int4 [i] (modify_stmt (\<lambda>d.
     if i \<notin> m_id ` set (media_tbl d) then Inr (d, 0)
     else Inr (remove_media i d, count_where (\<lambda>m. m_id m = i) (media_tbl d))))"

definition media_card_ids :: "uint32 \<Rightarrow> uint32 list stmt" where
  "media_card_ids i = int4 [i] (select_stmt (\<lambda>d. sort (map snd (filter (\<lambda>l. fst l = i) (media_x_cards d)))))"

definition select_media :: "pg \<Rightarrow> uint32 \<Rightarrow> media_join list stmt" where
  "select_media P i = int4 [i] (select_stmt (\<lambda>d. filter (\<lambda>r. j_Id r = i) (media_rows P d)))"

definition update_media_note :: "string \<Rightarrow> uint32 \<Rightarrow> nat stmt" where
  "update_media_note note i = int4 [i] (modify_stmt (\<lambda>d.
     Inr (d\<lparr>media_tbl := update_where (\<lambda>m. m_id m = i) (\<lambda>m. m\<lparr>m_note := Some note\<rparr>) (media_tbl d)\<rparr>,
          count_where (\<lambda>m. m_id m = i) (media_tbl d))))"

definition media_set_id_count :: "uint32 \<Rightarrow> nat list stmt" where
  "media_set_id_count i = int4 [i] (select_stmt (\<lambda>d. [count_where (\<lambda>m. ms_id m = i) (media_sets d)]))"

definition media_link_count :: "uint32 \<Rightarrow> uint32 \<Rightarrow> nat list stmt" where
  "media_link_count i cardId = int4 [i, cardId] (select_stmt (\<lambda>d. [count_where (\<lambda>l. l = (i, cardId)) (media_x_cards d)]))"

definition delete_media_link :: "uint32 \<Rightarrow> uint32 \<Rightarrow> nat stmt" where
  "delete_media_link i cardId = int4 [i, cardId] (modify_stmt (\<lambda>d.
     Inr (d\<lparr>media_x_cards := filter (\<lambda>l. l \<noteq> (i, cardId)) (media_x_cards d)\<rparr>,
          count_where (\<lambda>l. l = (i, cardId)) (media_x_cards d))))"

definition other_dvd_path_count :: "string \<Rightarrow> uint32 \<Rightarrow> nat list stmt" where
  "other_dvd_path_count path i = int4 [i] (select_stmt (\<lambda>d.
     [count_where (\<lambda>v. d_path v = path \<and> d_media_id v \<noteq> i) (media_dvds d)]))"

section \<open>Reading\<close>

definition taskStatusToDvdIngestion :: "Status option \<Rightarrow> string option \<Rightarrow> DVDIngestion" where
  "taskStatusToDvdIngestion status taskError =
     (case status of
        None \<Rightarrow> \<lparr>ing_State = DVDIngestionStatePending, ing_ErrorMessage = None\<rparr>
      | Some StatusCompleted \<Rightarrow> \<lparr>ing_State = DVDIngestionStateDone, ing_ErrorMessage = None\<rparr>
      | Some StatusFailed \<Rightarrow> \<lparr>ing_State = DVDIngestionStateError, ing_ErrorMessage = taskError\<rparr>
      | Some _ \<Rightarrow> \<lparr>ing_State = DVDIngestionStatePending, ing_ErrorMessage = None\<rparr>)"

definition media_of_row :: "media_join \<Rightarrow> Media" where
  "media_of_row r =
     \<lparr>md_Id = j_Id r, md_MediaSetId = j_MediaSetId r, md_Note = j_Note r,
      md_Details =
        (case j_Path r of
           Some path \<Rightarrow>
             if j_IsDvd r
             then Some \<lparr>det_Dvd = Some \<lparr>dvd_Path = path, dvd_Ingestion = taskStatusToDvdIngestion (j_TaskStatus r) (j_TaskError r)\<rparr>\<rparr>
             else None
         | None \<Rightarrow> None),
      md_CardIds = []\<rparr>"

definition getMediaCardIds :: "pg \<Rightarrow> runner \<Rightarrow> uint32 \<Rightarrow> uint32 list prog" where
  "getMediaCardIds P r i =
     check (Query P r (media_card_ids i) collect []) (wrapf ''could not fetch card_ids for media: '') ret"

definition getMedia :: "pg \<Rightarrow> uint32 \<Rightarrow> Media prog" where
  "getMedia P i =
     check (QueryOne P Tx (select_media P i)) (not_found_as (media_not_found i)) (\<lambda>r.
     bind (getMediaCardIds P Tx i) (\<lambda>cardIds.
     ret ((media_of_row r)\<lparr>md_CardIds := cardIds\<rparr>)))"

definition GetMedia :: "pg \<Rightarrow> uint32 \<Rightarrow> Media prog" where
  "GetMedia P i =
     (if i = 0 then fail BadRequest (New ''non-zero id is required'')
      else with_tx P [] no_begin (bind (getMedia P i) ret))"

definition list_media_cb :: "media_join \<Rightarrow> Media list \<Rightarrow> uint32 \<times> Media list" where
  "list_media_cb r entries = (j_Id r, entries @ [media_of_row r])"

fun fill_media_cards :: "pg \<Rightarrow> Media list \<Rightarrow> Media list prog" where
  "fill_media_cards P [] = ret []"
| "fill_media_cards P (e # es) =
     bind (getMediaCardIds P Tx (md_Id e)) (\<lambda>cardIds.
     bind (fill_media_cards P es) (\<lambda>rest. ret (e\<lparr>md_CardIds := cardIds\<rparr> # rest)))"

definition ListMedia ::
  "pg \<Rightarrow> uint32 option \<Rightarrow> string option \<Rightarrow> (Media list \<times> string option) prog" where
  "ListMedia P pageSize pageToken =
     with_tx P [] no_begin
       (bind (ListPtr P Tx \<lparr>Sql = list_media_sql, Want = pageSize, Default = 50, Max = 100,
                            PageToken = pageToken\<rparr> (list_media_stmt P) list_media_cb [])
          (\<lambda>(nextPageToken, entries).
           bind (fill_media_cards P entries) (\<lambda>entries'. ret (entries', nextPageToken))))"

section \<open>Creating and deleting\<close>

definition link_media_card :: "pg \<Rightarrow> uint32 \<Rightarrow> uint32 \<Rightarrow> unit prog" where
  "link_media_card = link_card insert_media_link ''failed to link card to media: ''"

definition path_taken :: goerr where
  "path_taken = New ''DVD with the given path already exists''"

definition add_dvd :: "pg \<Rightarrow> uint32 \<Rightarrow> string \<Rightarrow> unit prog" where
  "add_dvd P mediaId dvdPath =
     (if dvdPath = [] then fail BadRequest (New ''dvd_inbox_path must be non-empty'')
      else
        check (QueryOne P Tx (dvd_path_count dvdPath)) (wrapf ''could not check for existing DVD path: '') (\<lambda>n.
        if 0 < n then fail AlreadyExists path_taken
        else check (Exec P Tx (insert_dvd mediaId dvdPath)) (wrapf ''failed to insert DVD details: '') (\<lambda>_. ret ())))"

definition PostMedia :: "pg \<Rightarrow> PostMediaBody option \<Rightarrow> Media prog" where
  "PostMedia P body =
     (case body of
        None \<Rightarrow> fail BadRequest (New ''request body is required'')
      | Some b \<Rightarrow>
          (case pm_DvdInboxPath b of
             None \<Rightarrow> fail BadRequest (New ''exactly one of DvdInboxPath must be set'')
           | Some dvdPath \<Rightarrow>
               with_tx P [] no_begin
                 (check (QueryOne P Tx (insert_media (pm_MediaSetId b) (pm_Note b)))
                    (wrapf ''failed to insert new media: '') (\<lambda>mediaId.
                  bind (add_dvd P mediaId dvdPath) (\<lambda>_.
                  bind (for_each (link_media_card P mediaId) (pm_CardIds b)) (\<lambda>_.
                  bind (getMedia P mediaId) (\<lambda>media.
                  check (CreateDvdIngestionTask P Tx mediaId) (wrapf ''could not create DVD ingestion task: '') (\<lambda>_.
                  check (Commit P) no_commit (\<lambda>_. ret media)))))))))"

definition DeleteMedia :: "pg \<Rightarrow> uint32 \<Rightarrow> unit prog" where
  "DeleteMedia P i =
     (if i = 0 then fail BadRequest (New ''non-zero id is required'')
      else
        check (Exec P Pool (delete_media i)) (wrapf ''could not delete media: '') (\<lambda>rowsAffected.
        if rowsAffected = 0 then fail NotFound (errorf (media_not_found i)) else ret ()))"

section \<open>Patching\<close>

definition verify_media_set :: "pg \<Rightarrow> uint32 \<Rightarrow> unit prog" where
  "verify_media_set P mediaSetId =
     (if mediaSetId \<noteq> 0 then
        check (QueryOne P Tx (media_set_id_count mediaSetId)) (wrapf ''could not verify media_set existence: '') (\<lambda>n.
        if n = 0 then fail BadRequest (errorf (''media_set with id '' @ decimal (unat mediaSetId) @ '' not found''))
        else ret ())
      else ret ())"

definition patch_media_set_id :: "pg \<Rightarrow> uint32 \<Rightarrow> uint32 \<Rightarrow> unit prog" where
  "patch_media_set_id P i mediaSetId =
     bind (verify_media_set P mediaSetId) (\<lambda>_.
     exec_found P (update_media_set_id (if mediaSetId \<noteq> 0 then Some mediaSetId else None) i)
       ''could not update media_set_id: '' (media_not_found i))"

definition patch_media_add_card :: "pg \<Rightarrow> uint32 \<Rightarrow> uint32 \<Rightarrow> unit prog" where
  "patch_media_add_card = add_link media_link_count insert_media_link ''media''"

definition patch_media_remove_card :: "pg \<Rightarrow> uint32 \<Rightarrow> uint32 \<Rightarrow> unit prog" where
  "patch_media_remove_card = remove_link delete_media_link ''media''"

definition has_dvd :: "Media \<Rightarrow> bool" where
  "has_dvd m = (case md_Details m of None \<Rightarrow> False | Some details \<Rightarrow> det_Dvd details \<noteq> None)"

definition patch_dvd :: "pg \<Rightarrow> uint32 \<Rightarrow> Media \<Rightarrow> DvdPatch \<Rightarrow> unit prog" where
  "patch_dvd P i currentMedia dvdPatch =
     (if \<not> has_dvd currentMedia then fail BadRequest (New ''cannot patch DVD fields on a non-DVD media'')
      else
        (case dp_Path dvdPatch of
           None \<Rightarrow> fail BadRequest (New ''path must be set in DVD patch'')
         | Some path \<Rightarrow>
             if path = [] then fail BadRequest (New ''path cannot be empty'')
             else
               check (QueryOne P Tx (other_dvd_path_count path i)) (wrapf ''could not check for existing DVD path: '') (\<lambda>n.
               if 0 < n then fail AlreadyExists path_taken
               else exec_found P (update_dvd_path i path) ''could not update path: ''
                      (''DVD details for media id '' @ decimal (unat i) @ '' not found''))))"

definition patch_media :: "pg \<Rightarrow> uint32 \<Rightarrow> Media \<Rightarrow> MediaPatch \<Rightarrow> unit prog" where
  "patch_media P i currentMedia patch =
     bind (when_set (mp_Note patch) (\<lambda>note. exec_found P (update_media_note note i) ''could not update note: '' (media_not_found i))) (\<lambda>_.
     bind (when_set (mp_MediaSetId patch) (patch_media_set_id P i)) (\<lambda>_.
     bind (if mp_ClearMediaSetId patch = Some True
           then exec_found P (update_media_set_id None i) ''could not clear media_set_id: '' (media_not_found i) else ret ()) (\<lambda>_.
     bind (when_set (mp_AddCardId patch) (patch_media_add_card P i)) (\<lambda>_.
     bind (when_set (mp_RemoveCardId patch) (patch_media_remove_card P i)) (\<lambda>_.
     bind (when_set (mp_Dvd patch) (patch_dvd P i currentMedia)) (\<lambda>_.
     let fieldsSet = set_count (mp_Note patch) + set_count (mp_MediaSetId patch) +
           (if mp_ClearMediaSetId patch = Some True then 1 else 0) + set_count (mp_AddCardId patch) +
           set_count (mp_RemoveCardId patch) + set_count (mp_Dvd patch) in
     if fieldsSet = 0 then fail BadRequest (New ''no valid fields to patch'')
     else if 1 < fieldsSet then fail BadRequest (New ''exactly one field must be set per patch'')
     else ret ()))))))"

definition PatchMedia :: "pg \<Rightarrow> uint32 \<Rightarrow> MediaPatch list option \<Rightarrow> Media prog" where
  "PatchMedia P i body =
     (if i = 0 then fail BadRequest (New ''non-zero id is required'')
      else
        with_tx P [] no_begin
          (case body of
             None \<Rightarrow> fail BadRequest (New ''no patches provided'')
           | Some patches \<Rightarrow>
               bind (getMedia P i) (\<lambda>currentMedia.
               bind (for_each (patch_media P i currentMedia) patches) (\<lambda>_.
               bind (getMedia P i) (\<lambda>media.
               bind (Commit P) (\<lambda>_. ret media))))))"

section \<open>Statements keep the invariant\<close>

lemma ingests_reliable [simp]: "ingests (reliable P) = ingests P"
  by (intro ext) (simp add: ingests_def)

lemma media_rows_reliable [simp]: "media_rows (reliable P) = media_rows P"
  by (intro ext) (simp add: media_rows_def media_joins_def [abs_def])

lemma media_select_keeps [stmt_ok]:
  "stmt_keeps good (list_media_stmt P v lim)" "stmt_keeps good (dvd_path_count path)" "stmt_keeps good (media_card_ids i)"
  "stmt_keeps good (select_media P i)" "stmt_keeps good (media_set_id_count i)" "stmt_keeps good (media_link_count i c)"
  "stmt_keeps good (other_dvd_path_count path i)"
  by (simp_all add: list_media_stmt_def dvd_path_count_def media_card_ids_def select_media_def media_set_id_count_def
      media_link_count_def other_dvd_path_count_def good.stmt_keeps_select good.stmt_keeps_int4)

lemma good_new_media:
  assumes "good d q" and "media_seq q < max_serial" and "m_id r = media_seq q + 1"
    and "set (opt_arg (m_media_set_id r)) \<subseteq> ms_id ` set (media_sets d)"
  shows "good (d\<lparr>media_tbl := media_tbl d @ [r]\<rparr>) (q\<lparr>media_seq := media_seq q + 1\<rparr>)"
proof -
  let ?d = "d\<lparr>media_tbl := media_tbl d @ [r]\<rparr>" and ?q = "q\<lparr>media_seq := media_seq q + 1\<rparr>"
  have "serial_ok m_id (media_seq q + 1) (media_tbl d @ [r])"
    using goodM(1) [OF assms(1)] assms(2,3) by (intro serial_ok_snoc) (simp_all add: media_ok_def)
  then have "media_ok ?d ?q" "links_ok ?d"
    using goodM [OF assms(1)] assms(4) by (auto simp: media_ok_def links_ok_def opt_arg_def)
  then show ?thesis
    using good_media [OF assms(1), where ss = "media_sets d" and ms = "media_tbl d @ [r]" and vs = "media_dvds d"
        and u = "media_set_seq q" and v = "media_seq q + 1"] by simp
qed

lemma insert_media_keeps [stmt_ok]: "stmt_keeps good (insert_media setId note)"
proof -
  have "seq_le q (q\<lparr>media_seq := media_seq q + 1\<rparr>)" if "media_seq q < max_serial" for q :: seqs
    using word_succ_greater [OF that] by (simp add: seq_le_def)
  then show ?thesis
    unfolding insert_media_def
    by (intro good.stmt_keeps_int4) (auto simp: stmt_keeps_def Let_def intro!: good_new_media)
qed

lemma good_new_dvd:
  assumes "good d q" and "path \<noteq> []" and "i \<notin> d_media_id ` set (media_dvds d)" and "i \<in> m_id ` set (media_tbl d)"
  shows "good (d\<lparr>media_dvds := media_dvds d @ [\<lparr>d_media_id = i, d_path = path\<rparr>]\<rparr>) q"
  using goodM(1) [OF assms(1)] assms by (intro good_dvds) (auto simp: media_ok_def keyed_def)

lemma insert_dvd_keeps [stmt_ok]: "stmt_keeps good (insert_dvd i path)"
  unfolding insert_dvd_def
  by (intro good.stmt_keeps_int4 good.stmt_keeps_modify) (auto intro: good_new_dvd split: if_split_asm)

lemma media_link_keeps [stmt_ok]:
  "stmt_keeps good (insert_media_link i c)" "stmt_keeps good (delete_media_link i c)"
proof -
  have "good (d\<lparr>media_x_cards := media_x_cards d @ [(i, c)]\<rparr>) q"
    if "good d q" "(i, c) \<notin> set (media_x_cards d)" "i \<in> m_id ` set (media_tbl d)" "c \<in> c_id ` set (catalog_cards d)"
    for d q
    using that linksD(4-6) [OF goodM(2) [OF that(1)]] by (intro good_media_links) auto
  then show "stmt_keeps good (insert_media_link i c)"
    unfolding insert_media_link_def
    by (intro good.stmt_keeps_int4 good.stmt_keeps_modify) (auto split: if_split_asm)
  have "good (d\<lparr>media_x_cards := filter R (media_x_cards d)\<rparr>) q" if "good d q" for d q R
    using that linksD(4-6) [OF goodM(2) [OF that]] by (intro good_media_links) auto
  then show "stmt_keeps good (delete_media_link i c)"
    unfolding delete_media_link_def by (intro good.stmt_keeps_int4 good.stmt_keeps_modify) auto
qed

lemma remove_media_good: "good d q \<Longrightarrow> good (remove_media i d) q"
proof -
  assume d: "good d q"
  have "details_ok (remove_media i d) = details_ok d"
    unfolding remove_media_def by (rule details_ok_cong) simp_all
  then show ?thesis using d by (simp add: good_def remove_media_schema_ok)
qed

lemma media_update_keeps [stmt_ok]: "stmt_keeps good (delete_media i)" "stmt_keeps good (update_media_note note i)"
  unfolding delete_media_def update_media_note_def
  by (intro good.stmt_keeps_int4 good.stmt_keeps_modify; auto intro: remove_media_good intro!: good_media_rows
      simp: media_ok_def dest: goodM(1) split: if_splits)+

section \<open>Handlers: atomic, clean\<close>

lemmas media_step_defs = getMedia_def getMediaCardIds_def link_media_card_def add_dvd_def verify_media_set_def patch_media_set_id_def
  patch_media_add_card_def patch_media_remove_card_def patch_dvd_def CreateDvdIngestionTask_def Create_def notify_def

lemma quiet_media_steps:
  "quiet (getMedia P i)" "quiet (patch_media P i m p)" "quiet (link_media_card P i c)" "quiet (add_dvd P i path)"
  "quiet (CreateDvdIngestionTask P Tx i)"
  unfolding patch_media_def media_step_defs link_step_defs Let_def by (intro quiet_intros)+

lemma select_media_reliable [simp]:
  "select_media (reliable P) i = select_media P i" "list_media_stmt (reliable P) = list_media_stmt P"
  by (intro ext, simp add: select_media_def list_media_stmt_def)+

lemma insert_task_reliable [simp]: "insert_task (reliable P) = insert_task P"
  by (intro ext) (simp add: insert_task_def)

lemma atomic_media_steps:
  "atomic P (\<lambda>P. getMedia P i)" "atomic P (\<lambda>P. patch_media P i m p)" "atomic P (\<lambda>P. link_media_card P i c)"
  "atomic P (\<lambda>P. add_dvd P i path)" "atomic P (\<lambda>P. CreateDvdIngestionTask P Tx i)"
  unfolding patch_media_def media_step_defs link_step_defs Let_def
  by (intro atomic_intros quiet_intros; simp)+

lemma atomic_media:
  "atomic P (\<lambda>P. PostMedia P body)" "atomic P (\<lambda>P. DeleteMedia P i)" "atomic P (\<lambda>P. PatchMedia P i patches)"
proof -
  show "atomic P (\<lambda>P. PostMedia P body)"
    unfolding PostMedia_def
    by (intro atomic_intros quiet_intros atomic_for_each quiet_for_each quiet_media_steps atomic_media_steps) simp_all
  show "atomic P (\<lambda>P. DeleteMedia P i)"
    unfolding DeleteMedia_def
    by (intro atomic_if atomic_fail atomic_check_pure atomic_Exec) (simp_all add: fail_def ret_def)
  show "atomic P (\<lambda>P. PatchMedia P i patches)"
    unfolding PatchMedia_def
    by (intro atomic_intros quiet_intros atomic_for_each quiet_for_each quiet_media_steps atomic_media_steps)
qed

lemma clean_media:
  "clean (PostMedia (reliable P) body)" "clean (PatchMedia (reliable P) i patches)" "clean (DeleteMedia (reliable P) i)"
proof -
  show "clean (PostMedia (reliable P) body)" "clean (PatchMedia (reliable P) i patches)"
    unfolding PostMedia_def PatchMedia_def
    by (intro clean_intros quiet_intros quiet_for_each quiet_media_steps)+
  have "d' = d" if "delete_media i now d q = (Inr (d', 0), q')" for now d q d' q'
    using that by (auto simp: delete_media_def int4_def modify_stmt_def count_where_def filter_empty_conv split: if_splits)
  then show "clean (DeleteMedia (reliable P) i)"
    unfolding DeleteMedia_def by (intro clean_intros clean_Exec_rows)
qed

section \<open>Listing and links\<close>

definition one_ingestion :: "pg \<Rightarrow> db \<Rightarrow> bool" where
  "one_ingestion P d = (\<forall>i. length (filter (ingests P i) (tasks d)) \<le> 1)"

definition first_of :: "'a list \<Rightarrow> 'a option" where
  "first_of xs = (case xs of [] \<Rightarrow> None | x # _ \<Rightarrow> Some x)"

lemma left_short: "length xs \<le> 1 \<Longrightarrow> left_join xs = [first_of xs]"
  by (cases xs) (auto simp: left_join_def first_of_def)

definition dvd_of :: "db \<Rightarrow> uint32 \<Rightarrow> dvd_row option" where
  "dvd_of d i = first_of (filter (\<lambda>v. d_media_id v = i) (media_dvds d))"

definition ingestion_task :: "pg \<Rightarrow> db \<Rightarrow> uint32 \<Rightarrow> Task option" where
  "ingestion_task P d i = first_of (filter (ingests P i) (tasks d))"

definition join_of :: "pg \<Rightarrow> db \<Rightarrow> media_row \<Rightarrow> media_join" where
  "join_of P d m = media_join_row m (dvd_of d (m_id m)) (ingestion_task P d (m_id m))"

definition media_view :: "pg \<Rightarrow> db \<Rightarrow> media_row \<Rightarrow> Media" where
  "media_view P d m = (media_of_row (join_of P d m))\<lparr>md_CardIds :=
     sort (map snd (filter (\<lambda>l. fst l = m_id m) (media_x_cards d)))\<rparr>"

lemma j_Id_join [simp]: "j_Id (join_of P d m) = m_id m" "md_Id (media_of_row r) = j_Id r"
  by (simp_all add: join_of_def media_join_row_def media_of_row_def)

lemma media_rows_eq:
  assumes "one_ingestion P d" and "keyed d_media_id (media_dvds d)"
  shows "media_rows P d = map (join_of P d) (media_tbl d)"
proof -
  have "length (filter (\<lambda>v. d_media_id v = i) (media_dvds d)) \<le> 1" for i
    using assms(2) count_where_key [of d_media_id "media_dvds d" i] by (simp add: count_where_def)
  then have "media_joins P d = (\<lambda>m. [join_of P d m])"
    using assms(1)
    by (intro ext) (simp add: media_joins_def left_short one_ingestion_def join_of_def dvd_of_def ingestion_task_def)
  then show ?thesis by (simp add: media_rows_def)
qed

interpretation media_links: link_table media_x_cards "\<lambda>ls d. d\<lparr>media_x_cards := ls\<rparr>"
    "\<lambda>d i. i \<in> m_id ` set (media_tbl d)" insert_media_link delete_media_link media_link_count media_card_ids
  by unfold_locales
    (simp_all add: insert_media_link_def delete_media_link_def media_link_count_def media_card_ids_def)

interpretation media_query: paged_query list_media_sql "media_rows P" j_Id "list_media_stmt P" list_media_cb media_of_row for P
proof
  show "contains list_media_sql ''@limit''" "contains list_media_sql ''@lastSeenId''" by code_simp+
qed (simp_all add: list_media_stmt_def list_media_cb_def)

lemma getMediaCardIds_tx:
  "i \<le> max_serial \<Longrightarrow>
     outcome (check (getMediaCardIds (reliable P) Tx i) w k) (in_tx s lvl t0 n d q) =
     outcome (k (sort (map snd (filter (\<lambda>l. fst l = i) (media_x_cards d))))) (in_tx s lvl t0 (Suc n) d q)"
  by (simp add: getMediaCardIds_def check_assoc check_ret media_links.card_ids_tx)

lemma fill_media_cards_tx:
  assumes "\<forall>r\<in>set ms. m_id r \<le> max_serial"
  shows "outcome (check (fill_media_cards (reliable P) (map (\<lambda>m. media_of_row (join_of P d m)) ms)) w k) (in_tx s lvl t0 n d q) =
    outcome (k (map (media_view P d) ms)) (in_tx s lvl t0 (n + length ms) d q)"
  using assms
proof (induction ms arbitrary: n k)
  case (Cons r rs)
  then show ?case by (simp add: check_assoc getMediaCardIds_tx wp_rules media_view_def)
qed (simp add: wp_rules)

definition media_consistent :: "pg \<Rightarrow> db \<Rightarrow> bool" where
  "media_consistent P d = (consistent d \<and> one_ingestion P d)"

lemma rows_above_map: "(\<And>x. k (f x) = k' x) \<Longrightarrow> rows_above k v (map f xs) = map f (rows_above k' v xs)"
  by (simp add: rows_above_def filter_map comp_def sort_key_map_key)

lemma next_token_map: "(\<And>x. k (f x) = k' x) \<Longrightarrow> next_token k n (map f rs) = next_token k' n rs"
proof -
  assume k: "\<And>x. k (f x) = k' x"
  have "k (last (take (unat n) (map f rs))) = k' (last (take (unat n) rs))" if "0 < unat n" "unat n < length rs"
  proof -
    have "take (unat n) rs \<noteq> []" using that by auto
    then show ?thesis using k by (simp add: take_map last_map)
  qed
  then show ?thesis by (auto simp: next_token_def unat_gt_0)
qed

interpretation media_pages: paged_listing "media_consistent P" media_tbl m_id "media_view P" "ListMedia (reliable P)" for P
proof
  show serial: "serial_ok m_id max_serial (media_tbl d)" if "media_consistent P d" for d
    using that by (auto simp: media_consistent_def consistent_def schema_ok_def media_ok_def serial_ok_def)
  fix s :: sess and tok v want
  assume ok: "media_consistent P (committed s)" and tok: "toLastSeenId tok = Ok v" "v \<le> max_serial"
  let ?d = "committed s"
  let ?rs = "rows_above m_id v (media_tbl ?d)" and ?n = "page_size want"
  have ids: "\<forall>r\<in>set (take (unat ?n) ?rs). m_id r \<le> max_serial"
    using serial [OF ok] by (auto simp: rows_above_def serial_ok_def dest!: in_set_takeD)
  have "keyed d_media_id (media_dvds ?d)"
    using ok by (auto simp: media_consistent_def consistent_def schema_ok_def media_ok_def)
  then have rows: "rows_above j_Id v (media_rows P ?d) = map (join_of P ?d) ?rs"
    using ok by (simp add: media_consistent_def media_rows_eq rows_above_map [where k' = m_id])
  have conv: "map media_of_row (take (unat ?n) (map (join_of P ?d) ?rs)) =
      map (\<lambda>m. media_of_row (join_of P ?d m)) (take (unat ?n) ?rs)" by (simp add: take_map)
  show "outcome (ListMedia (reliable P) want tok) s =
      (let rs = ?rs; n = ?n in
       (Ok (map (media_view P ?d) (take (unat n) rs), next_token m_id n rs), ?d, seqs_of s))"
    unfolding ListMedia_def outcome_with_tx
    by (subst media_query.ListPtr_tx [OF tok refl refl])
      (simp add: rows conv fill_media_cards_tx [OF ids] wp_rules Let_def next_token_map [where k' = m_id] del: take_map map_map)
qed

end
