(* ===== verification/VM_MediaOps.thy ===== *)
theory VM_MediaOps
  imports VM_Media
begin

text \<open>
  What the handlers of media do on a reliable session: reading, deleting, creating with the ingestion
  task, and patching.
\<close>

section \<open>What the handlers do\<close>

lemma media_rows_ok:
  assumes "good d q"
  shows "serial_ok m_id (media_seq q) (media_tbl d)" and "keyed m_id (media_tbl d)"
    and "m \<in> set (media_tbl d) \<Longrightarrow> m_id m \<le> max_serial" and "keyed d_media_id (media_dvds d)"
    and "v \<in> set (media_dvds d) \<Longrightarrow> d_media_id v \<in> m_id ` set (media_tbl d)"
  using goodM(1) [OF assms] by (auto simp: media_ok_def serial_ok_def)

lemma getMedia_tx:
  assumes "good d q0" and "one_ingestion P d" and "m \<in> set (media_tbl d)" and "m_id m = i"
  shows "outcome (check (getMedia (reliable P) i) w k) (in_tx s lvl t0 n d q) =
    outcome (k (media_view P d m)) (in_tx s lvl t0 (Suc (Suc n)) d q)"
proof -
  have "filter (\<lambda>r. j_Id r = i) (media_rows P d) = [join_of P d m]"
    using keyed_filter_eq [OF media_rows_ok(2) [OF assms(1)] assms(3)] assms(4)
    by (simp add: media_rows_eq [OF assms(2) media_rows_ok(4) [OF assms(1)]] filter_map comp_def)
  with media_rows_ok(3) [OF assms(1,3)] assms(4) show ?thesis
    by (simp add: getMedia_def check_assoc wp_rules getMediaCardIds_tx select_media_def select_stmt_def media_view_def)
qed

lemma getMedia_absent:
  assumes "good d q0" and "one_ingestion P d" and "i \<notin> m_id ` set (media_tbl d)" and "i \<le> max_serial"
  shows "outcome (check (getMedia (reliable P) i) w k) (in_tx s lvl t0 n d q) =
    (Err (w (HttpError ProblemNotFound 404 (errorf (media_not_found i)))), committed s, q)"
proof -
  have "filter (\<lambda>r. j_Id r = i) (media_rows P d) = []"
    using assms(3) by (auto simp: media_rows_eq [OF assms(2) media_rows_ok(4) [OF assms(1)]] filter_empty_conv)
  with assms(4) show ?thesis
    by (simp add: getMedia_def check_assoc wp_rules select_media_def select_stmt_def not_found_as_def)
qed

lemma GetMedia_outcome:
  assumes "good (committed s) q0" and "one_ingestion P (committed s)" and "i \<noteq> 0"
  shows "m \<in> set (media_tbl (committed s)) \<Longrightarrow> m_id m = i \<Longrightarrow>
      outcome (GetMedia (reliable P) i) s = (Ok (media_view P (committed s) m), committed s, seqs_of s)"
    and "i \<notin> m_id ` set (media_tbl (committed s)) \<Longrightarrow> i \<le> max_serial \<Longrightarrow>
      outcome (GetMedia (reliable P) i) s =
        (Err (HttpError ProblemNotFound 404 (errorf (media_not_found i))), committed s, seqs_of s)"
  using assms(3)
  by (simp_all add: GetMedia_def outcome_with_tx getMedia_tx [OF assms(1,2)] getMedia_absent [OF assms(1,2)] wp_rules)

lemma DeleteMedia_outcome:
  assumes "good (committed s) q0" and "i \<noteq> 0" and "i \<le> max_serial"
  shows "outcome (DeleteMedia (reliable P) i) s =
    (if i \<in> m_id ` set (media_tbl (committed s)) then (Ok (), remove_media i (committed s), seqs_of s)
     else (Err (HttpError ProblemNotFound 404 (errorf (media_not_found i))), committed s, seqs_of s))"
  using assms(2,3)
  by (simp add: DeleteMedia_def wp_rules delete_media_def modify_stmt_def count_where_key [OF media_rows_ok(2) [OF assms(1)]])

subsection \<open>A new media\<close>

definition post_media_ok :: "db \<Rightarrow> PostMediaBody \<Rightarrow> string \<Rightarrow> bool" where
  "post_media_ok d b path =
     (set (opt_arg (pm_MediaSetId b)) \<subseteq> ms_id ` set (media_sets d) \<and> path \<noteq> [] \<and>
      path \<notin> d_path ` set (media_dvds d) \<and> cards_ok d (pm_CardIds b))"

definition new_ingestion :: "pg \<Rightarrow> int \<Rightarrow> uint32 \<Rightarrow> int \<Rightarrow> Task" where
  "new_ingestion P k i now =
     \<lparr>t_Id = k, t_TaskType = TaskTypeDvdIngestion, t_State = the (jsonb_in P (marshal_ingestion \<lparr>MediaId = i\<rparr>)),
      t_Status = StatusPending, t_WorkerId = None, t_LeaseExpiresAt = None, t_Error = None, t_ParentId = None,
      t_CreatedAt = now, t_UpdatedAt = now\<rparr>"

definition add_media :: "uint32 \<Rightarrow> PostMediaBody \<Rightarrow> string \<Rightarrow> db \<Rightarrow> db" where
  "add_media i b path d = d\<lparr>
     media_tbl := media_tbl d @ [\<lparr>m_id = i, m_media_set_id = pm_MediaSetId b, m_note = pm_Note b\<rparr>],
     media_dvds := media_dvds d @ [\<lparr>d_media_id = i, d_path = path\<rparr>],
     media_x_cards := media_x_cards d @ map (Pair i) (pm_CardIds b)\<rparr>"

definition add_ingestion :: "Task \<Rightarrow> db \<Rightarrow> db" where
  "add_ingestion t d = d\<lparr>tasks := tasks d @ [t], notified := Suc (notified d)\<rparr>"

definition new_media_view :: "uint32 \<Rightarrow> PostMediaBody \<Rightarrow> string \<Rightarrow> Media" where
  "new_media_view i b path =
     \<lparr>md_Id = i, md_MediaSetId = pm_MediaSetId b, md_Note = pm_Note b,
      md_Details = Some \<lparr>det_Dvd = Some \<lparr>dvd_Path = path,
        dvd_Ingestion = \<lparr>ing_State = DVDIngestionStatePending, ing_ErrorMessage = None\<rparr>\<rparr>\<rparr>,
      md_CardIds = sort (pm_CardIds b)\<rparr>"

lemma fresh_media:
  assumes "good d q" and "media_seq q < max_serial"
  shows "media_seq q + 1 \<notin> m_id ` set (media_tbl d)" and "media_seq q + 1 \<le> max_serial"
    and "media_seq q + 1 \<notin> fst ` set (media_x_cards d)" and "media_seq q + 1 \<notin> d_media_id ` set (media_dvds d)"
proof -
  have "media_seq q < media_seq q + 1" using assms(2) by (rule word_succ_greater)
  then show fresh: "media_seq q + 1 \<notin> m_id ` set (media_tbl d)"
    using media_rows_ok(1) [OF assms(1)] by (auto simp: serial_ok_def)
  show "media_seq q + 1 \<le> max_serial" using assms(2) by (rule inc_le)
  show "media_seq q + 1 \<notin> fst ` set (media_x_cards d)"
    using fresh linksD(5) [OF goodM(2) [OF assms(1)]] by force
  show "media_seq q + 1 \<notin> d_media_id ` set (media_dvds d)"
    using fresh media_rows_ok(5) [OF assms(1)] by force
qed

lemma create_ingestion_tx:
  assumes "jsonb_ok P" and "task_seq q < max_task_id"
  shows "outcome (check (CreateDvdIngestionTask (reliable P) Tx i) w (\<lambda>_. k)) (in_tx s lvl t0 n d q) =
    outcome k (in_tx s lvl t0 (Suc (Suc n)) (add_ingestion (new_ingestion P (task_seq q + 1) i t0) d)
      (q\<lparr>task_seq := task_seq q + 1\<rparr>))"
proof -
  obtain v where "jsonb_in P (marshal_ingestion \<lparr>MediaId = i\<rparr>) = Some v" using assms(1) by (rule jsonb_okE)
  then show ?thesis
    using assms(2)
    by (simp add: CreateDvdIngestionTask_def Create_def notify_def check_assoc wp_rules insert_task_def Let_def notify_stmt_def
        modify_stmt_def new_ingestion_def add_ingestion_def TaskTypeDvdIngestion_def)
qed

lemma add_media_good:
  assumes "good d q" and "media_seq q < max_serial" and "post_media_ok d b path"
  shows "good (add_media (media_seq q + 1) b path d) (q\<lparr>media_seq := media_seq q + 1\<rparr>)"
proof -
  let ?i = "media_seq q + 1" and ?q = "q\<lparr>media_seq := media_seq q + 1\<rparr>"
  let ?r = "\<lparr>m_id = ?i, m_media_set_id = pm_MediaSetId b, m_note = pm_Note b\<rparr>"
  note fresh = fresh_media [OF assms(1,2)]
  have ok: "path \<noteq> []" "cards_ok d (pm_CardIds b)" "set (opt_arg (pm_MediaSetId b)) \<subseteq> ms_id ` set (media_sets d)"
    using assms(3) by (simp_all add: post_media_ok_def)
  have 1: "good (d\<lparr>media_tbl := media_tbl d @ [?r]\<rparr>) ?q" (is "good ?d1 _")
    using good_new_media [OF assms(1,2), of ?r] ok(3) by simp
  have 2: "good (?d1\<lparr>media_dvds := media_dvds ?d1 @ [\<lparr>d_media_id = ?i, d_path = path\<rparr>]\<rparr>) ?q" (is "good ?d2 _")
    using fresh ok(1) by (intro good_new_dvd [OF 1]) auto
  have "distinct (media_x_cards d @ map (Pair ?i) (pm_CardIds b))"
    using linksD(4) [OF goodM(2) [OF assms(1)]] fresh(3) ok(2)
    by (auto simp: cards_ok_def distinct_map inj_on_def) force
  then have "good (?d2\<lparr>media_x_cards := media_x_cards d @ map (Pair ?i) (pm_CardIds b)\<rparr>) ?q"
    using linksD(5,6) [OF goodM(2) [OF assms(1)]] ok(2) by (intro good_media_links [OF 2]) (auto simp: cards_ok_def)
  then show ?thesis by (simp add: add_media_def)
qed

lemma one_ingestion_frame: "tasks d' = tasks d \<Longrightarrow> one_ingestion P d' = one_ingestion P d"
  by (simp add: one_ingestion_def)

lemma first_of_filter_snoc: "filter R xs = [] \<Longrightarrow> R x \<Longrightarrow> first_of (filter R (xs @ [x])) = Some x"
  by (simp add: first_of_def)

lemma new_media_viewed:
  assumes "good d q" and "media_seq q < max_serial" and "i = media_seq q + 1" and "\<forall>t\<in>set (tasks d). \<not> ingests P i t"
  shows "media_view P (add_media i b path d) \<lparr>m_id = i, m_media_set_id = pm_MediaSetId b, m_note = pm_Note b\<rparr> =
    new_media_view i b path"
proof -
  note fresh = fresh_media [OF assms(1,2), folded assms(3)]
  have "filter (\<lambda>v. d_media_id v = i) (media_dvds d) = []" "filter (\<lambda>l. fst l = i) (media_x_cards d) = []"
    "filter (ingests P i) (tasks d) = []"
    using fresh assms(4) by (force simp: filter_empty_conv)+
  then show ?thesis
    by (simp add: media_view_def join_of_def dvd_of_def ingestion_task_def first_of_def add_media_def media_join_row_def
        media_of_row_def new_media_view_def taskStatusToDvdIngestion_def comp_def filter_map)
qed

lemma PostMedia_outcome:
  assumes good: "good (committed s) (seqs_of s)" and one: "one_ingestion P (committed s)" and json: "jsonb_ok P"
    and path: "pm_DvdInboxPath b = Some path"
    and seq: "media_seq (seqs_of s) < max_serial" and tseq: "task_seq (seqs_of s) < max_task_id"
    and i: "i = media_seq (seqs_of s) + 1" and k: "k = task_seq (seqs_of s) + 1"
    and fresh_task: "\<forall>t\<in>set (tasks (committed s)). \<not> ingests P i t"
  shows "post_media_ok (committed s) b path \<Longrightarrow>
      outcome (PostMedia (reliable P) (Some b)) s =
        (Ok (new_media_view i b path),
         add_ingestion (new_ingestion P k i (clock_at P (calls s))) (add_media i b path (committed s)),
         (seqs_of s)\<lparr>media_seq := i, task_seq := k\<rparr>)"
    and "\<not> post_media_ok (committed s) b path \<Longrightarrow>
      \<exists>e q. outcome (PostMedia (reliable P) (Some b)) s = (Err e, committed s, q)"
proof -
  let ?d = "committed s" and ?q = "(seqs_of s)\<lparr>media_seq := i\<rparr>" and ?now = "clock_at P (calls s)"
  let ?row = "\<lparr>m_id = i, m_media_set_id = pm_MediaSetId b, m_note = pm_Note b\<rparr>"
  let ?d1 = "?d\<lparr>media_tbl := media_tbl ?d @ [?row]\<rparr>"
  let ?d2 = "?d1\<lparr>media_dvds := media_dvds ?d @ [\<lparr>d_media_id = i, d_path = path\<rparr>]\<rparr>"
  let ?rest = "\<lambda>_. bind (getMedia (reliable P) i) (\<lambda>media.
      check (CreateDvdIngestionTask (reliable P) Tx i) (wrapf ''could not create DVD ingestion task: '') (\<lambda>_.
      check (Commit (reliable P)) no_commit (\<lambda>_. ret media)))"
  note fresh = fresh_media [OF good seq, folded i]
  have run: "outcome (PostMedia (reliable P) (Some b)) s =
      outcome (bind (for_each (link_media_card (reliable P) i) (pm_CardIds b)) ?rest)
        (in_tx s None ?now (Suc (Suc (Suc (Suc (calls s))))) ?d2 ?q)"
    if set: "set (opt_arg (pm_MediaSetId b)) \<subseteq> ms_id ` set (media_sets ?d)" and new: "path \<noteq> []" "path \<notin> d_path ` set (media_dvds ?d)"
  proof -
    have "list_all (\<lambda>x. x \<le> max_serial) (opt_arg (pm_MediaSetId b))"
      using set set_rows_ok(3) [OF good] by (auto simp: list_all_iff)
    moreover have "count_where (\<lambda>v. d_path v = path) (media_dvds ?d) = 0"
      using new(2) by (auto simp: count_where_def filter_empty_conv)
    ultimately show ?thesis
      using path seq set new(1) fresh(2,4)
      by (auto simp: PostMedia_def add_dvd_def wp_rules insert_media_def Let_def i [symmetric] dvd_path_count_def select_stmt_def
          insert_dvd_def modify_stmt_def count_where_pos)
  qed
  have cards: "serial_ok c_id (card_seq (seqs_of s)) (catalog_cards ?d2)" using good_cards [OF good] by simp
  have link: "media_links.linkable ?d2 i cs = cards_ok ?d cs" for cs
    using fresh(3) by (force simp: media_links.linkable_def cards_ok_def)
  have own: "i \<in> m_id ` set (media_tbl ?d2)" by simp
  note loop = media_links.link_loop [OF cards fresh(2) own, unfolded link]
    and fails = media_links.link_loop_fails [OF cards fresh(2) own, unfolded link]
  show "outcome (PostMedia (reliable P) (Some b)) s =
        (Ok (new_media_view i b path), add_ingestion (new_ingestion P k i ?now) (add_media i b path ?d),
         (seqs_of s)\<lparr>media_seq := i, task_seq := k\<rparr>)" if ok: "post_media_ok ?d b path"
  proof -
    let ?d3 = "add_media i b path ?d"
    have d3: "?d2\<lparr>media_x_cards := media_x_cards ?d2 @ map (Pair i) (pm_CardIds b)\<rparr> = ?d3" by (simp add: add_media_def)
    have g3: "good ?d3 ?q" using add_media_good [OF good seq ok] by (simp add: i)
    have one3: "one_ingestion P ?d3" using one by (simp add: one_ingestion_def add_media_def)
    have "?row \<in> set (media_tbl ?d3)" by (simp add: add_media_def)
    note get = getMedia_tx [OF g3 one3 this] and view = new_media_viewed [OF good seq i fresh_task, of b path]
    have cond: "cards_ok ?d (pm_CardIds b)" "set (opt_arg (pm_MediaSetId b)) \<subseteq> ms_id ` set (media_sets ?d)" "path \<noteq> []"
      "path \<notin> d_path ` set (media_dvds ?d)" using ok by (simp_all add: post_media_ok_def)
    have tq: "task_seq ?q < max_task_id" using tseq by simp
    show ?thesis
      unfolding run [OF cond(2-4)] link_media_card_def
      using loop [OF cond(1), of "''failed to link card to media: ''" P "\<lambda>e. e" ?rest s None ?now
          "Suc (Suc (Suc (Suc (calls s))))" ?q] unfolding d3
      by (auto simp: get view create_ingestion_tx [OF json tq] wp_rules k)
  qed
  assume bad: "\<not> post_media_ok ?d b path"
  show "\<exists>e q. outcome (PostMedia (reliable P) (Some b)) s = (Err e, ?d, q)"
  proof (cases "set (opt_arg (pm_MediaSetId b)) \<subseteq> ms_id ` set (media_sets ?d) \<and> path \<noteq> [] \<and> path \<notin> d_path ` set (media_dvds ?d)")
    case True
    then have "\<not> cards_ok ?d (pm_CardIds b)" using bad by (simp add: post_media_ok_def)
    from fails [OF this] have "\<exists>e. outcome (bind (for_each (link_media_card (reliable P) i) (pm_CardIds b)) ?rest)
        (in_tx s None ?now (Suc (Suc (Suc (Suc (calls s))))) ?d2 ?q) = (Err e, ?d, ?q)"
      unfolding link_media_card_def .
    with run True show ?thesis by metis
  next
    case False
    have "0 < count_where (\<lambda>v. d_path v = path) (media_dvds ?d)" if "path \<in> d_path ` set (media_dvds ?d)"
      using that by (auto simp: count_where_def filter_empty_conv)
    with False path seq show ?thesis
      by (auto simp: PostMedia_def add_dvd_def wp_rules insert_media_def Let_def int4_def dvd_path_count_def select_stmt_def path_taken_def)
  qed
qed

text \<open>The path that a request names, if it has a body that names one.\<close>

definition posted_path :: "PostMediaBody option \<Rightarrow> string option" where
  "posted_path body = (case body of None \<Rightarrow> None | Some b \<Rightarrow> pm_DvdInboxPath b)"

lemma PostMedia_no_path:
  assumes "posted_path body = None"
  shows "\<exists>e. outcome (PostMedia (reliable P) body) s = (Err (HttpError ProblemBadRequest 400 e), committed s, seqs_of s)"
  using assms by (auto simp: posted_path_def PostMedia_def wp_rules split: option.splits)

subsection \<open>Patches\<close>

definition media_patch_fields :: "MediaPatch \<Rightarrow> nat" where
  "media_patch_fields p = set_count (mp_Note p) + set_count (mp_MediaSetId p) + (if mp_ClearMediaSetId p = Some True then 1 else 0) +
     set_count (mp_AddCardId p) + set_count (mp_RemoveCardId p) + set_count (mp_Dvd p)"

definition media_patch_ok :: "db \<Rightarrow> uint32 \<Rightarrow> MediaPatch \<Rightarrow> bool" where
  "media_patch_ok d i p =
     (media_patch_fields p = 1 \<and>
      (case mp_MediaSetId p of None \<Rightarrow> True | Some m \<Rightarrow> m = 0 \<or> m \<in> ms_id ` set (media_sets d)) \<and>
      (case mp_AddCardId p of None \<Rightarrow> True | Some c \<Rightarrow> c \<in> c_id ` set (catalog_cards d) \<and> (i, c) \<notin> set (media_x_cards d)) \<and>
      (case mp_RemoveCardId p of None \<Rightarrow> True | Some c \<Rightarrow> (i, c) \<in> set (media_x_cards d)) \<and>
      (case mp_Dvd p of
         None \<Rightarrow> True
       | Some v \<Rightarrow>
           i \<in> d_media_id ` set (media_dvds d) \<and>
           (case dp_Path v of
              None \<Rightarrow> False
            | Some path \<Rightarrow> path \<noteq> [] \<and> (\<forall>u\<in>set (media_dvds d). d_path u = path \<longrightarrow> d_media_id u = i))))"

lemma media_patch_ok_iff:
  "media_patch_ok d i p =
     (media_patch_fields p = 1 \<and>
      (\<forall>m. mp_MediaSetId p = Some m \<longrightarrow> m = 0 \<or> m \<in> ms_id ` set (media_sets d)) \<and>
      (\<forall>c. mp_AddCardId p = Some c \<longrightarrow> c \<in> c_id ` set (catalog_cards d) \<and> (i, c) \<notin> set (media_x_cards d)) \<and>
      (\<forall>c. mp_RemoveCardId p = Some c \<longrightarrow> (i, c) \<in> set (media_x_cards d)) \<and>
      (\<forall>v. mp_Dvd p = Some v \<longrightarrow> i \<in> d_media_id ` set (media_dvds d) \<and>
         (\<exists>path. dp_Path v = Some path \<and> path \<noteq> [] \<and> (\<forall>u\<in>set (media_dvds d). d_path u = path \<longrightarrow> d_media_id u = i))))"
  by (auto simp: media_patch_ok_def split: option.splits)

definition edit_media :: "uint32 \<Rightarrow> (media_row \<Rightarrow> media_row) \<Rightarrow> db \<Rightarrow> db" where
  "edit_media i g d = d\<lparr>media_tbl := update_where (\<lambda>m. m_id m = i) g (media_tbl d)\<rparr>"

definition apply_media_patch :: "uint32 \<Rightarrow> MediaPatch \<Rightarrow> db \<Rightarrow> db" where
  "apply_media_patch i p d =
     (case mp_Note p of Some note \<Rightarrow> edit_media i (\<lambda>m. m\<lparr>m_note := Some note\<rparr>) d | None \<Rightarrow>
      case mp_MediaSetId p of Some m \<Rightarrow> move_media (if m \<noteq> 0 then Some m else None) i d | None \<Rightarrow>
      if mp_ClearMediaSetId p = Some True then move_media None i d else
      case mp_AddCardId p of Some c \<Rightarrow> d\<lparr>media_x_cards := media_x_cards d @ [(i, c)]\<rparr> | None \<Rightarrow>
      case mp_RemoveCardId p of Some c \<Rightarrow> d\<lparr>media_x_cards := filter (\<lambda>l. l \<noteq> (i, c)) (media_x_cards d)\<rparr> | None \<Rightarrow>
      case mp_Dvd p of Some v \<Rightarrow> set_path i (the (dp_Path v)) d | None \<Rightarrow> d)"

lemma media_patch_cases:
  assumes "media_patch_fields p = 1"
  obtains (noted) x where "mp_Note p = Some x" "mp_MediaSetId p = None" "mp_ClearMediaSetId p \<noteq> Some True" "mp_AddCardId p = None"
      "mp_RemoveCardId p = None" "mp_Dvd p = None"
  | (move) x where "mp_Note p = None" "mp_MediaSetId p = Some x" "mp_ClearMediaSetId p \<noteq> Some True" "mp_AddCardId p = None"
      "mp_RemoveCardId p = None" "mp_Dvd p = None"
  | (clear) "mp_Note p = None" "mp_MediaSetId p = None" "mp_ClearMediaSetId p = Some True" "mp_AddCardId p = None"
      "mp_RemoveCardId p = None" "mp_Dvd p = None"
  | (add) x where "mp_Note p = None" "mp_MediaSetId p = None" "mp_ClearMediaSetId p \<noteq> Some True" "mp_AddCardId p = Some x"
      "mp_RemoveCardId p = None" "mp_Dvd p = None"
  | (remove) x where "mp_Note p = None" "mp_MediaSetId p = None" "mp_ClearMediaSetId p \<noteq> Some True" "mp_AddCardId p = None"
      "mp_RemoveCardId p = Some x" "mp_Dvd p = None"
  | (dvd) x where "mp_Note p = None" "mp_MediaSetId p = None" "mp_ClearMediaSetId p \<noteq> Some True" "mp_AddCardId p = None"
      "mp_RemoveCardId p = None" "mp_Dvd p = Some x"
proof -
  have flag: "(if b then 1 else 0 :: nat) = 0 \<longleftrightarrow> \<not> b" "(if b then 1 else 0 :: nat) = Suc 0 \<longleftrightarrow> b" for b by auto
  from assms show ?thesis
    unfolding media_patch_fields_def One_nat_def add_is_1 add_is_0 set_count_simps not_None_eq flag [unfolded One_nat_def]
    by (elim disjE conjE exE) (rule that; assumption)+
qed

lemma edit_media_note_tx:
  assumes "good d q0" and "i \<in> m_id ` set (media_tbl d)"
  shows "update_media_note x i t0 d q = (Inr (edit_media i (\<lambda>m. m\<lparr>m_note := Some x\<rparr>) d, Suc 0), q)"
    and "good (edit_media i (\<lambda>m. m\<lparr>m_note := Some x\<rparr>) d) q0"
proof -
  have "i \<le> max_serial" using assms(2) media_rows_ok(3) [OF assms(1)] by auto
  then show "update_media_note x i t0 d q = (Inr (edit_media i (\<lambda>m. m\<lparr>m_note := Some x\<rparr>) d, Suc 0), q)" for q
    using assms(2) by (simp add: update_media_note_def modify_stmt_def edit_media_def count_where_key [OF media_rows_ok(2) [OF assms(1)]])
  from good.stmt_keepsD(2) [OF media_update_keeps(2) assms(1) this refl]
  show "good (edit_media i (\<lambda>m. m\<lparr>m_note := Some x\<rparr>) d) q0" .
qed

lemma verify_media_set_tx:
  assumes "good d q0" and "x \<noteq> 0 \<Longrightarrow> x \<in> ms_id ` set (media_sets d)"
  shows "\<exists>n'. outcome (check (verify_media_set (reliable P) x) w k) (in_tx s lvl t0 n d q) = outcome (k ()) (in_tx s lvl t0 n' d q)"
proof (cases "x = 0")
  case True
  then show ?thesis by (auto simp: verify_media_set_def wp_rules)
next
  case False
  then have "x \<in> ms_id ` set (media_sets d)" "x \<le> max_serial" using assms set_rows_ok(3) [OF assms(1)] by auto
  then have "outcome (check (verify_media_set (reliable P) x) w k) (in_tx s lvl t0 n d q) = outcome (k ()) (in_tx s lvl t0 (Suc n) d q)"
    using False by (simp add: verify_media_set_def wp_rules media_set_id_count_def select_stmt_def
        count_where_key [OF set_rows_ok(2) [OF assms(1)]])
  then show ?thesis ..
qed

lemma patch_dvd_tx:
  assumes "good d q0" and "has_dvd cm" and "i \<in> d_media_id ` set (media_dvds d)" and "dp_Path v = Some path" and "path \<noteq> []"
    and "\<forall>u\<in>set (media_dvds d). d_path u = path \<longrightarrow> d_media_id u = i"
  shows "outcome (check (patch_dvd (reliable P) i cm v) w k) (in_tx s lvl t0 n d q) =
    outcome (k ()) (in_tx s lvl t0 (Suc (Suc n)) (set_path i path d) q)"
proof -
  have le: "i \<le> max_serial" using assms(3) media_rows_ok(3,5) [OF assms(1)] by fastforce
  have "update_dvd_path i path t0 d q = (Inr (set_path i path d, Suc 0), q)" for q
    using assms(3) by (simp add: update_dvd_path_eval [OF assms(5) le] count_where_key [OF media_rows_ok(4) [OF assms(1)]])
  note found = exec_found_tx [where st = "update_dvd_path i path", OF this]
  have "count_where (\<lambda>u. d_path u = path \<and> d_media_id u \<noteq> i) (media_dvds d) = 0" using assms(6) by auto
  then have "\<not> (\<exists>u\<in>set (media_dvds d). d_path u = path \<and> d_media_id u \<noteq> i)" by auto
  with assms(2,4,5) le show ?thesis
    by (auto simp: patch_dvd_def check_assoc check_if wp_rules other_dvd_path_count_def select_stmt_def count_where_pos found)
qed

lemma patch_media_tx:
  assumes good: "good d q0" and i: "i \<in> m_id ` set (media_tbl d)" and ok: "media_patch_ok d i p"
    and cm: "has_dvd cm \<longleftrightarrow> i \<in> d_media_id ` set (media_dvds d)"
  shows "(\<exists>n'. outcome (check (patch_media (reliable P) i cm p) w k) (in_tx s lvl t0 n d q) =
      outcome (k ()) (in_tx s lvl t0 n' (apply_media_patch i p d) q)) \<and> good (apply_media_patch i p d) q0"
proof -
  have le: "i \<le> max_serial" using i media_rows_ok(3) [OF good] by auto
  have ser: "serial_ok c_id (card_seq q0) (catalog_cards d)" using good_cards [OF good] .
  note links = linksD(4-6) [OF goodM(2) [OF good]]
  note eval = patch_media_def check_assoc when_set_def wp_rules apply_media_patch_def set_count_def
  have fields: "media_patch_fields p = 1" using ok by (simp add: media_patch_ok_iff)
  show ?thesis
    using fields
  proof (cases rule: media_patch_cases)
    case (noted x)
    with edit_media_note_tx [OF good i, of x] show ?thesis by (auto simp: eval exec_found_tx)
  next
    case (move x)
    let ?x = "if x \<noteq> 0 then Some x else None"
    have x: "x \<noteq> 0 \<Longrightarrow> x \<in> ms_id ` set (media_sets d)" using ok move by (auto simp: media_patch_ok_iff)
    then have "set (opt_arg ?x) \<subseteq> ms_id ` set (media_sets d)" by (auto simp: opt_arg_def)
    note step = move_media_tx [OF good i this]
    note found = exec_found_tx [where st = "update_media_set_id ?x i", OF step(1)]
    obtain n' where "outcome (check (verify_media_set (reliable P) x) w (\<lambda>_. check (exec_found (reliable P)
          (update_media_set_id ?x i) ''could not update media_set_id: '' (media_not_found i)) w k)) (in_tx s lvl t0 n d q) =
        outcome (check (exec_found (reliable P) (update_media_set_id ?x i) ''could not update media_set_id: '' (media_not_found i)) w k)
          (in_tx s lvl t0 n' d q)"
      using verify_media_set_tx [OF good x] by blast
    then have "outcome (check (patch_media (reliable P) i cm p) w k) (in_tx s lvl t0 n d q) =
        outcome (k ()) (in_tx s lvl t0 (Suc n') (move_media ?x i d) q)"
      unfolding found using move by (simp add: eval patch_media_set_id_def)
    with step(2) move show ?thesis by (auto simp: apply_media_patch_def)
  next
    case clear
    have "set (opt_arg None) \<subseteq> ms_id ` set (media_sets d)" by (simp add: opt_arg_def)
    note step = move_media_tx [OF good i this]
    from clear step(2) show ?thesis by (auto simp: eval exec_found_tx [where st = "update_media_set_id None i", OF step(1)])
  next
    case (add x)
    with ok have x: "x \<in> c_id ` set (catalog_cards d)" "(i, x) \<notin> set (media_x_cards d)"
      by (auto simp: media_patch_ok_iff)
    have "good (d\<lparr>media_x_cards := media_x_cards d @ [(i, x)]\<rparr>) q0"
      using good x i links by (intro good_media_links) auto
    with add show ?thesis
      by (auto simp: eval patch_media_add_card_def media_links.add_link_tx [OF ser le i x])
  next
    case (remove x)
    with ok have x: "(i, x) \<in> set (media_x_cards d)" by (auto simp: media_patch_ok_iff)
    have xle: "x \<le> max_serial" using links(3) [OF x] ser by (auto simp: serial_ok_def)
    have "good (d\<lparr>media_x_cards := filter (\<lambda>l. l \<noteq> (i, x)) (media_x_cards d)\<rparr>) q0"
      using good links by (intro good_media_links) auto
    with remove show ?thesis
      by (auto simp: eval patch_media_remove_card_def media_links.remove_link_tx [OF le xle x])
  next
    case (dvd v)
    with ok obtain path where v: "dp_Path v = Some path" "path \<noteq> []" "i \<in> d_media_id ` set (media_dvds d)"
        "\<forall>u\<in>set (media_dvds d). d_path u = path \<longrightarrow> d_media_id u = i"
      by (auto simp: media_patch_ok_iff)
    then have "has_dvd cm" using cm by simp
    from dvd v(1) set_path_good [OF good v(2)] show ?thesis
      by (auto simp: eval patch_dvd_tx [OF good \<open>has_dvd cm\<close> v(3,1,2,4)])
  qed
qed

fun media_patches_ok :: "db \<Rightarrow> uint32 \<Rightarrow> MediaPatch list \<Rightarrow> bool" where
  "media_patches_ok d i [] = True"
| "media_patches_ok d i (p # ps) = (media_patch_ok d i p \<and> media_patches_ok (apply_media_patch i p d) i ps)"

lemma apply_media_patch_frame:
  "m_id ` set (media_tbl (apply_media_patch i p d)) = m_id ` set (media_tbl d)"
  "d_media_id ` set (media_dvds (apply_media_patch i p d)) = d_media_id ` set (media_dvds d)"
  "tasks (apply_media_patch i p d) = tasks d"
  by (simp_all add: apply_media_patch_def edit_media_def move_media_def set_path_def split: option.splits)

lemma patch_medias_tx:
  assumes "good d q0" and "i \<in> m_id ` set (media_tbl d)" and "media_patches_ok d i ps"
    and "has_dvd cm \<longleftrightarrow> i \<in> d_media_id ` set (media_dvds d)"
  shows "(\<exists>n'. outcome (check (for_each (patch_media (reliable P) i cm) ps) w k) (in_tx s lvl t0 n d q) =
      outcome (k ()) (in_tx s lvl t0 n' (fold (apply_media_patch i) ps d) q)) \<and>
    good (fold (apply_media_patch i) ps d) q0 \<and> i \<in> m_id ` set (media_tbl (fold (apply_media_patch i) ps d)) \<and>
    tasks (fold (apply_media_patch i) ps d) = tasks d"
  using assms
proof (induction ps arbitrary: d n)
  case Nil
  then show ?case by (auto simp: wp_rules)
next
  case (Cons p ps)
  let ?d = "apply_media_patch i p d" and ?f = "for_each (patch_media (reliable P) i cm)"
  have p: "media_patch_ok d i p" using Cons.prems(3) by simp
  obtain n1 where n1: "outcome (check (patch_media (reliable P) i cm p) w (\<lambda>_. check (?f ps) w k)) (in_tx s lvl t0 n d q) =
      outcome (check (?f ps) w k) (in_tx s lvl t0 n1 ?d q)" and good: "good ?d q0"
    using patch_media_tx [OF Cons.prems(1,2) p Cons.prems(4)] by blast
  from Cons.IH [OF good, of n1] Cons.prems(2-4) n1 show ?case
    by (simp add: check_assoc apply_media_patch_frame)
qed

lemma has_dvd_view: "has_dvd (media_view P d m) \<longleftrightarrow> m_id m \<in> d_media_id ` set (media_dvds d)"
proof -
  have "first_of xs = None \<longleftrightarrow> xs = []" for xs :: "dvd_row list" by (simp add: first_of_def split: list.splits)
  then have "dvd_of d (m_id m) = None \<longleftrightarrow> m_id m \<notin> d_media_id ` set (media_dvds d)"
    by (simp add: dvd_of_def filter_empty_conv image_iff) metis
  then show ?thesis
    by (auto simp: has_dvd_def media_view_def media_of_row_def join_of_def media_join_row_def split: option.splits)
qed

lemma PatchMedia_outcome:
  assumes "good (committed s) q0" and one: "one_ingestion P (committed s)" and "i \<noteq> 0" and "i \<in> m_id ` set (media_tbl (committed s))"
    and "media_patches_ok (committed s) i ps" and d': "d' = fold (apply_media_patch i) ps (committed s)"
  shows "\<exists>m\<in>set (media_tbl d'). m_id m = i \<and>
    outcome (PatchMedia (reliable P) i (Some ps)) s = (Ok (media_view P d' m), d', seqs_of s)"
proof -
  let ?rest = "\<lambda>_. bind (getMedia (reliable P) i) (\<lambda>media. bind (Commit (reliable P)) (\<lambda>_. ret media))"
  obtain m0 where m0: "m0 \<in> set (media_tbl (committed s))" "m_id m0 = i" using assms(4) by blast
  let ?cm = "media_view P (committed s) m0"
  note get0 = getMedia_tx [OF assms(1,2) m0]
  have cm: "has_dvd ?cm \<longleftrightarrow> i \<in> d_media_id ` set (media_dvds (committed s))" using m0(2) by (simp add: has_dvd_view)
  from patch_medias_tx [OF assms(1,4,5) cm, of P "\<lambda>e. e" ?rest s None "clock_at P (calls s)" "Suc (Suc (Suc (calls s)))" "seqs_of s"]
  obtain n' where n': "outcome (bind (for_each (patch_media (reliable P) i ?cm) ps) ?rest)
        (in_tx s None (clock_at P (calls s)) (Suc (Suc (Suc (calls s)))) (committed s) (seqs_of s)) =
      outcome (?rest ()) (in_tx s None (clock_at P (calls s)) n' d' (seqs_of s))"
    and good: "good d' q0" and "i \<in> m_id ` set (media_tbl d')" and "tasks d' = tasks (committed s)"
    unfolding d' by blast
  then obtain m where m: "m \<in> set (media_tbl d')" "m_id m = i" by blast
  have "one_ingestion P d'" using one \<open>tasks d' = _\<close> by (simp add: one_ingestion_def)
  note get = getMedia_tx [OF good this m]
  have "outcome (PatchMedia (reliable P) i (Some ps)) s = (Ok (media_view P d' m), d', seqs_of s)"
    using assms(3) n' by (simp add: PatchMedia_def outcome_with_tx get0 get wp_rules)
  with m show ?thesis by blast
qed

end
