(* ===== verification/VM_Frame.thy ===== *)
theory VM_Frame
  imports VM_MediaOps VM_CardOps
begin

text \<open>
  What the handlers of catalog and media leave alone: the table of tasks. The locale \<^verbatim>\<open>tasks_invariant\<close> states
  a property of the tasks and carries it through every handler.
\<close>

section \<open>Statements that leave the tasks alone\<close>

definition tasks_frame :: "'r stmt \<Rightarrow> bool" where
  "tasks_frame st =
     (\<forall>now d q. case st now d q of (r, q') \<Rightarrow>
        seq_le q q' \<and> (case r of Inl e \<Rightarrow> True | Inr (d', x) \<Rightarrow> tasks d' = tasks d))"

lemma tasks_frameD:
  assumes "tasks_frame st" and "st now d q = (Inr (d', x), q')"
  shows "tasks d' = tasks d"
proof -
  have "case st now d q of (r, q') \<Rightarrow> seq_le q q' \<and> (case r of Inl e \<Rightarrow> True | Inr (d', x) \<Rightarrow> tasks d' = tasks d)"
    by (rule assms(1) [unfolded tasks_frame_def, rule_format])
  with assms(2) show ?thesis by simp
qed

named_theorems framed "statements that leave the tasks alone"

lemma frame_select [framed]: "tasks_frame (select_stmt f)"
  by (simp add: tasks_frame_def select_stmt_def)

lemma frame_modify: "(\<And>d d' x. f d = Inr (d', x) \<Longrightarrow> tasks d' = tasks d) \<Longrightarrow> tasks_frame (modify_stmt f)"
  by (auto simp: tasks_frame_def modify_stmt_def split: sum.splits)

lemma frame_int4 [framed]: "tasks_frame st \<Longrightarrow> tasks_frame (int4 xs st)"
  by (simp add: tasks_frame_def int4_def)

lemma frame_const [framed]: "tasks_frame (\<lambda>now d q. (Inl e, q))"
  by (simp add: tasks_frame_def)

lemma seq_step [simp]:
  "card_seq q < max_serial \<Longrightarrow> seq_le q (q\<lparr>card_seq := card_seq q + 1\<rparr>)"
  "kind_seq q < max_serial \<Longrightarrow> seq_le q (q\<lparr>kind_seq := kind_seq q + 1\<rparr>)"
  "media_set_seq q < max_serial \<Longrightarrow> seq_le q (q\<lparr>media_set_seq := media_set_seq q + 1\<rparr>)"
  "media_seq q < max_serial \<Longrightarrow> seq_le q (q\<lparr>media_seq := media_seq q + 1\<rparr>)"
  by (auto simp: seq_le_def dest: word_succ_greater)

lemma frame_kinds [framed]:
  "tasks_frame (kind_name_count P name)" "tasks_frame (list_kinds_stmt v lim)" "tasks_frame (select_kind i)"
  "tasks_frame unset_default_kinds" "tasks_frame (delete_kind i)" "tasks_frame (update_kind_name name i)"
  "tasks_frame (update_kind_default b i)"
  unfolding kind_name_count_def list_kinds_stmt_def select_kind_def unset_default_kinds_def delete_kind_def
    update_kind_name_def update_kind_default_def
  by (intro framed frame_modify; auto simp: Let_def split: if_split_asm)+

lemma frame_insert_kind [framed]: "tasks_frame (insert_kind name b)"
  by (auto simp: tasks_frame_def insert_kind_def Let_def)

lemma frame_cards [framed]:
  "tasks_frame (list_cards_stmt v lim)" "tasks_frame (select_card i)" "tasks_frame (kind_id_count i)"
  "tasks_frame (movie_id_count i)" "tasks_frame (card_name_count P name)" "tasks_frame (delete_card i)"
  "tasks_frame (update_card i g)" "tasks_frame (update_movie i h)" "tasks_frame (update_edition_kind kind i)"
  "tasks_frame (insert_movie i t f)" "tasks_frame (insert_edition i kind movie)"
  unfolding list_cards_stmt_def select_card_def kind_id_count_def movie_id_count_def card_name_count_def delete_card_def
    update_card_def update_movie_def update_edition_kind_def insert_movie_def insert_edition_def
  by (intro framed frame_modify; auto simp: Let_def simp del: delete_cards.simps split: if_split_asm)+

lemma frame_card_updates [framed]:
  "tasks_frame (update_card_name name i)" "tasks_frame (update_card_note note i)" "tasks_frame (update_tmdb_id t i)"
  "tasks_frame (update_fanart_id f i)" "tasks_frame (update_release_year y i)"
  by (auto simp: update_card_name_def update_card_note_def update_tmdb_id_def update_fanart_id_def update_release_year_def
      intro!: framed)

lemma frame_insert_card [framed]: "tasks_frame (insert_card name note)"
  by (auto simp: tasks_frame_def insert_card_def Let_def)

lemma frame_sets [framed]:
  "tasks_frame (list_sets_stmt v lim)" "tasks_frame (set_card_ids i)" "tasks_frame (select_media_set i)"
  "tasks_frame (set_link_count i c)" "tasks_frame (media_id_count i)" "tasks_frame (select_media_set_id i)"
  "tasks_frame (insert_set_link i c)" "tasks_frame (delete_set_link i c)" "tasks_frame (delete_media_set i)"
  "tasks_frame (update_media_set i g)" "tasks_frame (update_media_set_id setId i)" "tasks_frame (card_id_count i)"
  unfolding list_sets_stmt_def set_card_ids_def select_media_set_def set_link_count_def media_id_count_def select_media_set_id_def
    insert_set_link_def delete_set_link_def delete_media_set_def update_media_set_def update_media_set_id_def card_id_count_def
  by (intro framed frame_modify; auto simp: Let_def remove_media_set_def split: if_split_asm)+

lemma frame_set_updates [framed]:
  "tasks_frame (update_set_name name i)" "tasks_frame (update_set_note note i)" "tasks_frame (clear_set_note i)"
  by (simp_all add: update_set_name_def update_set_note_def clear_set_note_def framed)

lemma frame_insert_set [framed]: "tasks_frame (insert_media_set name note)"
  by (auto simp: tasks_frame_def insert_media_set_def Let_def)

lemma frame_media [framed]:
  "tasks_frame (list_media_stmt P v lim)" "tasks_frame (dvd_path_count path)" "tasks_frame (insert_dvd i path)"
  "tasks_frame (insert_media_link i c)" "tasks_frame (delete_media i)" "tasks_frame (media_card_ids i)"
  "tasks_frame (select_media P i)" "tasks_frame (update_media_note note i)" "tasks_frame (media_set_id_count i)"
  "tasks_frame (media_link_count i c)" "tasks_frame (delete_media_link i c)" "tasks_frame (other_dvd_path_count path i)"
  "tasks_frame (select_dvd_path i)" "tasks_frame (update_dvd_path i path)"
  unfolding list_media_stmt_def dvd_path_count_def insert_dvd_def insert_media_link_def delete_media_def media_card_ids_def
    select_media_def update_media_note_def media_set_id_count_def media_link_count_def delete_media_link_def
    other_dvd_path_count_def select_dvd_path_def update_dvd_path_def
  by (intro framed frame_modify; auto simp: remove_media_def split: if_split_asm)+

lemma frame_insert_media [framed]: "tasks_frame (insert_media setId note)"
  unfolding insert_media_def by (intro framed) (auto simp: tasks_frame_def Let_def)

section \<open>Invariants of the tasks\<close>

text \<open>
  The locale \<^verbatim>\<open>tasks_invariant\<close>: a property of the table of tasks that survives a sequence moving on. Every
  handler that does not touch the tasks keeps it.
\<close>

lemma seq_le_trans: "seq_le q q' \<Longrightarrow> seq_le q' q'' \<Longrightarrow> seq_le q q''"
  by (auto simp: seq_le_def)

locale tasks_invariant =
  fixes B :: "Task list \<Rightarrow> seqs \<Rightarrow> bool"
  assumes B_mono: "seq_le q q' \<Longrightarrow> B ts q \<Longrightarrow> B ts q'"
begin

abbreviation I :: "db \<Rightarrow> seqs \<Rightarrow> bool" where
  "I d q \<equiv> B (tasks d) q"

sublocale inv: db_invariant I
  by unfold_locales (rule B_mono)

lemma stmt_framed: "tasks_frame st \<Longrightarrow> stmt_keeps I st"
  unfolding stmt_keeps_def
proof (intro allI impI)
  fix now d q assume st: "tasks_frame st" and B: "I d q"
  obtain r q' where r: "st now d q = (r, q')" by fastforce
  have "case st now d q of (r, q') \<Rightarrow> seq_le q q' \<and> (case r of Inl e \<Rightarrow> True | Inr (d', x) \<Rightarrow> tasks d' = tasks d)"
    by (rule st [unfolded tasks_frame_def, rule_format])
  then have "seq_le q q'" "case r of Inl e \<Rightarrow> True | Inr (d', x) \<Rightarrow> tasks d' = tasks d" by (simp_all add: r)
  then show "case st now d q of (r, q') \<Rightarrow> seq_le q q' \<and> (case r of Inl e \<Rightarrow> True | Inr (d', x) \<Rightarrow> I d' q')"
    using B_mono [OF _ B] by (auto simp: r split: sum.splits)
qed

lemma keeps_ListPtr: "(\<And>a b. tasks_frame (sql a b)) \<Longrightarrow> keeps (sess_inv I) (ListPtr P r query sql cb c)"
  unfolding ListPtr_def QueryPtr_Query
  by (intro keeps_check keeps_lift) (auto intro!: keeps_check keeps_lift inv.keeps_Query stmt_framed keeps_ret split: prod.splits)

lemmas ks = inv.keeps_intros stmt_framed keeps_for_each framed

lemma framed_kinds:
  "keeps (sess_inv I) (PostMovieEditionKind P body)" "keeps (sess_inv I) (DeleteMovieEditionKind P i)"
  "keeps (sess_inv I) (GetMovieEditionKind P i)" "keeps (sess_inv I) (PatchMovieEditionKind P i patches)"
  "keeps (sess_inv I) (ListMovieEditionKinds P want tok)"
proof -
  have get: "keeps (sess_inv I) (getMovieEditionKind P r i)" for r
    unfolding getMovieEditionKind_def by (intro ks)
  have "keeps (sess_inv I) (patch_kind P i patch)" for patch unfolding patch_kind_def Let_def by (intro ks)
  then have "keeps (sess_inv I) (patch_kinds P i ps)" for ps by (induction ps) (simp_all add: inv.keeps_intros)
  then show "keeps (sess_inv I) (PatchMovieEditionKind P i patches)" unfolding PatchMovieEditionKind_def by (intro ks get)
  show "keeps (sess_inv I) (PostMovieEditionKind P body)" "keeps (sess_inv I) (DeleteMovieEditionKind P i)"
    "keeps (sess_inv I) (GetMovieEditionKind P i)"
    unfolding PostMovieEditionKind_def DeleteMovieEditionKind_def GetMovieEditionKind_def Let_def by (intro ks get)+
  show "keeps (sess_inv I) (ListMovieEditionKinds P want tok)"
    unfolding ListMovieEditionKinds_def by (intro keeps_check keeps_ListPtr framed) (auto intro: keeps_ret split: prod.splits)
qed

lemma keeps_cards:
  "keeps (sess_inv I) (PostCard P body)" "keeps (sess_inv I) (DeleteCard P i)" "keeps (sess_inv I) (GetCard P i)"
  "keeps (sess_inv I) (PatchCard P i patches)" "keeps (sess_inv I) (ListCards P want tok)"
proof -
  have get: "keeps (sess_inv I) (getCard P r i)" for r i unfolding getCard_def by (intro ks)
  have "keeps (sess_inv I) (patch_card P i c p)" for c p
    unfolding patch_card_def patch_card_defs Let_def by (intro ks)
  then have "keeps (sess_inv I) (patch_cards P i c ps)" for c ps by (induction ps) (simp_all add: inv.keeps_intros)
  then show "keeps (sess_inv I) (PatchCard P i patches)" unfolding PatchCard_def by (intro ks get)
  show "keeps (sess_inv I) (PostCard P body)" "keeps (sess_inv I) (DeleteCard P i)" "keeps (sess_inv I) (GetCard P i)"
    unfolding PostCard_def DeleteCard_def GetCard_def post_details_def Let_def by (intro ks get)+
  show "keeps (sess_inv I) (ListCards P want tok)"
    unfolding ListCards_def by (intro keeps_check keeps_ListPtr framed) (auto intro: keeps_ret split: prod.splits)
qed

lemma keeps_media_sets:
  "keeps (sess_inv I) (PostMediaSet P body)" "keeps (sess_inv I) (DeleteMediaSet P i)" "keeps (sess_inv I) (GetMediaSet P i)"
  "keeps (sess_inv I) (PatchMediaSet P i patches)" "keeps (sess_inv I) (ListMediaSets P want tok)"
proof -
  have get: "keeps (sess_inv I) (getMediaSet P i)" for i unfolding set_handler_defs by (intro ks)
  have steps: "keeps (sess_inv I) (link_set_card P i c)" "keeps (sess_inv I) (patch_media_set P i p)" for i c p
    unfolding patch_media_set_def set_handler_defs link_step_defs Let_def by (intro ks)+
  show "keeps (sess_inv I) (PostMediaSet P body)" "keeps (sess_inv I) (DeleteMediaSet P i)" "keeps (sess_inv I) (GetMediaSet P i)"
    "keeps (sess_inv I) (PatchMediaSet P i patches)"
    unfolding PostMediaSet_def DeleteMediaSet_def GetMediaSet_def PatchMediaSet_def by (intro ks get steps)+
  have "keeps (sess_inv I) (fill_set_cards P es)" for es
    by (induction es) (simp_all add: getMediaSetCardIds_def ks)
  then show "keeps (sess_inv I) (ListMediaSets P want tok)"
    unfolding ListMediaSets_def
    by (intro inv.keeps_with_tx keeps_check keeps_ListPtr framed) (auto intro!: keeps_check keeps_ret split: prod.splits)
qed

lemma keeps_media_steps:
  "keeps (sess_inv I) (getMedia P i)" "keeps (sess_inv I) (link_media_card P i c)" "keeps (sess_inv I) (add_dvd P i path)"
  "keeps (sess_inv I) (patch_media P i m p)"
  unfolding getMedia_def getMediaCardIds_def link_media_card_def add_dvd_def patch_media_def verify_media_set_def
    patch_media_set_id_def patch_media_add_card_def patch_media_remove_card_def patch_dvd_def link_step_defs Let_def
  by (intro ks)+

lemma keeps_media:
  "keeps (sess_inv I) (DeleteMedia P i)" "keeps (sess_inv I) (GetMedia P i)"
  "keeps (sess_inv I) (PatchMedia P i patches)" "keeps (sess_inv I) (ListMedia P want tok)"
proof -
  show "keeps (sess_inv I) (DeleteMedia P i)" "keeps (sess_inv I) (GetMedia P i)" "keeps (sess_inv I) (PatchMedia P i patches)"
    unfolding DeleteMedia_def GetMedia_def PatchMedia_def by (intro ks keeps_media_steps)+
  have "keeps (sess_inv I) (fill_media_cards P es)" for es
    by (induction es) (simp_all add: getMediaCardIds_def ks)
  then show "keeps (sess_inv I) (ListMedia P want tok)"
    unfolding ListMedia_def
    by (intro inv.keeps_with_tx keeps_check keeps_ListPtr framed) (auto intro!: keeps_check keeps_ret split: prod.splits)
qed

end

end
