(* ===== verification/VM_System.thy ===== *)
theory VM_System
  imports VM_Frame
begin

text \<open>
  The whole program as a step relation on sessions: requests of the HTTP interface, scans, the work on
  assigned tasks and lease renewals, in any order and with any faults of the driver
  (src/main.go, src/combined\_service.go put these parts together). Each step is one operation. The
  transactions of concurrent operations are taken one after the other; how statements of two open
  transactions interleave is not modelled.
\<close>

section \<open>The invariant of the tables, for all handlers\<close>

lemma good_ListPtr: "(\<And>a b. stmt_keeps good (sql a b)) \<Longrightarrow> keeps (sess_inv good) (ListPtr P r query sql cb c)"
  unfolding ListPtr_def QueryPtr_Query
  by (intro keeps_check keeps_lift) (auto intro!: keeps_check keeps_lift good.keeps_Query keeps_ret split: prod.splits)

lemmas gk = good.keeps_intros keeps_for_each stmt_ok

lemma good_reads:
  "keeps (sess_inv good) (ListMovieEditionKinds P want tok)" "keeps (sess_inv good) (ListCards P want tok)"
  "keeps (sess_inv good) (GetMovieEditionKind P i)" "keeps (sess_inv good) (GetCard P i)"
  unfolding ListMovieEditionKinds_def ListCards_def GetMovieEditionKind_def GetCard_def
  by (intro keeps_check good_ListPtr stmt_ok; auto intro: keeps_ret split: prod.splits)+
    (intro gk keeps_kinds(3) keeps_getCard)+

lemma good_media_sets:
  "keeps (sess_inv good) (PostMediaSet P body)" "keeps (sess_inv good) (DeleteMediaSet P i)" "keeps (sess_inv good) (GetMediaSet P i)"
  "keeps (sess_inv good) (PatchMediaSet P i patches)" "keeps (sess_inv good) (ListMediaSets P want tok)"
proof -
  have get: "keeps (sess_inv good) (getMediaSet P i)" for i unfolding set_handler_defs by (intro gk)
  have steps: "keeps (sess_inv good) (link_set_card P i c)" "keeps (sess_inv good) (patch_media_set P i p)" for i c p
    unfolding patch_media_set_def set_handler_defs link_step_defs Let_def by (intro gk set_update_keeps)+
  show "keeps (sess_inv good) (PostMediaSet P body)" "keeps (sess_inv good) (DeleteMediaSet P i)" "keeps (sess_inv good) (GetMediaSet P i)"
    "keeps (sess_inv good) (PatchMediaSet P i patches)"
    unfolding PostMediaSet_def DeleteMediaSet_def GetMediaSet_def PatchMediaSet_def by (intro gk get steps)+
  have "keeps (sess_inv good) (fill_set_cards P es)" for es
    by (induction es) (simp_all add: getMediaSetCardIds_def gk)
  then show "keeps (sess_inv good) (ListMediaSets P want tok)"
    unfolding ListMediaSets_def
    by (intro good.keeps_with_tx keeps_check good_ListPtr stmt_ok) (auto intro!: keeps_check keeps_ret split: prod.splits)
qed

lemma good_Create: "keeps (sess_inv good) (CreateDvdIngestionTask P r i)"
  using keeps_api(1) [of "{}"] by (simp add: CreateDvdIngestionTask_def)

lemma good_media_handlers:
  "keeps (sess_inv good) (PostMedia P body)" "keeps (sess_inv good) (DeleteMedia P i)" "keeps (sess_inv good) (GetMedia P i)"
  "keeps (sess_inv good) (PatchMedia P i patches)" "keeps (sess_inv good) (ListMedia P want tok)"
proof -
  have steps: "keeps (sess_inv good) (getMedia P i)" "keeps (sess_inv good) (link_media_card P i c)"
    "keeps (sess_inv good) (add_dvd P i path)" "keeps (sess_inv good) (patch_media P i m p)" for i c path m p
    unfolding getMedia_def getMediaCardIds_def link_media_card_def add_dvd_def patch_media_def verify_media_set_def
      patch_media_set_id_def patch_media_add_card_def patch_media_remove_card_def patch_dvd_def link_step_defs Let_def
    by (intro gk)+
  show "keeps (sess_inv good) (PostMedia P body)" "keeps (sess_inv good) (DeleteMedia P i)" "keeps (sess_inv good) (GetMedia P i)"
    "keeps (sess_inv good) (PatchMedia P i patches)"
    unfolding PostMedia_def DeleteMedia_def GetMedia_def PatchMedia_def by (intro gk steps good_Create)+
  have "keeps (sess_inv good) (fill_media_cards P es)" for es
    by (induction es) (simp_all add: getMediaCardIds_def gk)
  then show "keeps (sess_inv good) (ListMedia P want tok)"
    unfolding ListMedia_def
    by (intro good.keeps_with_tx keeps_check good_ListPtr stmt_ok) (auto intro!: keeps_check keeps_ret split: prod.splits)
qed

section \<open>Requests\<close>

datatype request =
    ReqListCards "uint32 option" "string option" | ReqPostCard "PostCardBody option" | ReqDeleteCard uint32
  | ReqGetCard uint32 | ReqPatchCard uint32 "CardPatch list option"
  | ReqListKinds "uint32 option" "string option" | ReqPostKind "PostKindBody option" | ReqDeleteKind uint32
  | ReqGetKind uint32 | ReqPatchKind uint32 "KindPatch list option"
  | ReqListSets "uint32 option" "string option" | ReqPostSet "PostMediaSetBody option" | ReqDeleteSet uint32
  | ReqGetSet uint32 | ReqPatchSet uint32 "MediaSetPatch list option"
  | ReqListMedia "uint32 option" "string option" | ReqPostMedia "PostMediaBody option" | ReqDeleteMedia uint32
  | ReqGetMedia uint32 | ReqPatchMedia uint32 "MediaPatch list option"

text \<open>The session after a request was served; the answer does not matter here.\<close>

fun serve :: "pg \<Rightarrow> request \<Rightarrow> sess \<Rightarrow> sess" where
  "serve P (ReqListCards w t) s = snd (ListCards P w t s)"
| "serve P (ReqPostCard b) s = snd (PostCard P b s)"
| "serve P (ReqDeleteCard i) s = snd (DeleteCard P i s)"
| "serve P (ReqGetCard i) s = snd (GetCard P i s)"
| "serve P (ReqPatchCard i ps) s = snd (PatchCard P i ps s)"
| "serve P (ReqListKinds w t) s = snd (ListMovieEditionKinds P w t s)"
| "serve P (ReqPostKind b) s = snd (PostMovieEditionKind P b s)"
| "serve P (ReqDeleteKind i) s = snd (DeleteMovieEditionKind P i s)"
| "serve P (ReqGetKind i) s = snd (GetMovieEditionKind P i s)"
| "serve P (ReqPatchKind i ps) s = snd (PatchMovieEditionKind P i ps s)"
| "serve P (ReqListSets w t) s = snd (ListMediaSets P w t s)"
| "serve P (ReqPostSet b) s = snd (PostMediaSet P b s)"
| "serve P (ReqDeleteSet i) s = snd (DeleteMediaSet P i s)"
| "serve P (ReqGetSet i) s = snd (GetMediaSet P i s)"
| "serve P (ReqPatchSet i ps) s = snd (PatchMediaSet P i ps s)"
| "serve P (ReqListMedia w t) s = snd (ListMedia P w t s)"
| "serve P (ReqPostMedia b) s = snd (PostMedia P b s)"
| "serve P (ReqDeleteMedia i) s = snd (DeleteMedia P i s)"
| "serve P (ReqGetMedia i) s = snd (GetMedia P i s)"
| "serve P (ReqPatchMedia i ps) s = snd (PatchMedia P i ps s)"

lemma idle_ListPtr: "idle (ListPtr P Pool query sql cb c)"
  unfolding ListPtr_def QueryPtr_Query
  by (intro keeps_check keeps_lift) (auto intro!: keeps_check keeps_lift idle_Query keeps_ret split: prod.splits)

lemma serve_idle: "txn s = None \<Longrightarrow> txn (serve P req s) = None"
proof -
  have list: "idle (check (ListPtr P Pool query sql cb c) w (\<lambda>(next, entries). ret (entries, next)))" for query sql cb c w
    by (intro keeps_check idle_ListPtr) (auto intro: keeps_ret split: prod.splits)
  show "txn s = None \<Longrightarrow> txn (serve P req s) = None"
    by (cases req)
      (simp, rule keepsD, (unfold ListCards_def PostCard_def DeleteCard_def GetCard_def PatchCard_def
        ListMovieEditionKinds_def PostMovieEditionKind_def DeleteMovieEditionKind_def GetMovieEditionKind_def
        getMovieEditionKind_def getCard_def PatchMovieEditionKind_def ListMediaSets_def PostMediaSet_def DeleteMediaSet_def GetMediaSet_def
        PatchMediaSet_def ListMedia_def PostMedia_def DeleteMedia_def GetMedia_def PatchMedia_def Let_def)?,
       (intro idle_intros list)?, assumption)+
qed

lemma serve_good: "at_rest s \<Longrightarrow> at_rest (serve P req s)"
proof -
  assume rest: "at_rest s"
  then have s: "sess_inv good s" "txn s = None" by (simp_all add: at_rest_def sess_inv_def)
  have "good (committed (serve P req s)) (seqs_of (serve P req s))"
  proof (cases "\<exists>b. req = ReqPostCard b")
    case True
    then show ?thesis using PostCard_at_rest [OF rest] by (auto simp: at_rest_def)
  next
    case False
    then have "sess_inv good (serve P req s)"
      by (cases req)
        (use s(1) in \<open>simp_all add: keepsD [OF good_reads(1)] keepsD [OF good_reads(2)] keepsD [OF good_reads(3)] keepsD [OF good_reads(4)]
          keepsD [OF keeps_kinds(1)] keepsD [OF keeps_kinds(2)] keepsD [OF keeps_PatchMovieEditionKind]
          keepsD [OF keeps_DeleteCard] keepsD [OF keeps_PatchCard]
          keepsD [OF good_media_sets(1)] keepsD [OF good_media_sets(2)] keepsD [OF good_media_sets(3)]
          keepsD [OF good_media_sets(4)] keepsD [OF good_media_sets(5)]
          keepsD [OF good_media_handlers(1)] keepsD [OF good_media_handlers(2)] keepsD [OF good_media_handlers(3)]
          keepsD [OF good_media_handlers(4)] keepsD [OF good_media_handlers(5)]\<close>)
    then show ?thesis by (simp add: sess_inv_def)
  qed
  then show ?thesis using serve_idle [OF s(2)] by (simp add: at_rest_def)
qed

section \<open>One ingestion task per media\<close>

text \<open>
  No media has two ingestion tasks, and no task names a media that the sequence has not given out yet:
  media ids are not used twice, also after a media was deleted.
\<close>

definition ingest_ok :: "pg \<Rightarrow> Task list \<Rightarrow> seqs \<Rightarrow> bool" where
  "ingest_ok S ts q =
     ((\<forall>i. length (filter (ingests S i) ts) \<le> 1) \<and> (\<forall>t\<in>set ts. \<forall>i. ingests S i t \<longrightarrow> i \<le> media_seq q))"

lemma ingest_ok_one: "ingest_ok S (tasks d) q \<Longrightarrow> one_ingestion S d"
  by (simp add: ingest_ok_def one_ingestion_def)

definition failed_tasks :: "int set \<Rightarrow> Task list \<Rightarrow> bool" where
  "failed_tasks X ts = (\<forall>i\<in>X. \<exists>t\<in>set ts. t_Id t = i \<and> t_Status t = StatusFailed)"

definition sys_tasks :: "pg \<Rightarrow> int set \<Rightarrow> Task list \<Rightarrow> seqs \<Rightarrow> bool" where
  "sys_tasks S X ts q = (failed_tasks X ts \<and> ingest_ok S ts q)"

definition fresh_tasks :: "pg \<Rightarrow> int set \<Rightarrow> uint32 \<Rightarrow> Task list \<Rightarrow> seqs \<Rightarrow> bool" where
  "fresh_tasks S X i ts q = (sys_tasks S X ts q \<and> i \<le> media_seq q \<and> i \<le> max_serial \<and> (\<forall>t\<in>set ts. \<not> ingests S i t))"

interpretation ing: tasks_invariant "ingest_ok S" for S
  by unfold_locales (auto simp: ingest_ok_def seq_le_def intro: order_trans)

interpretation sys: tasks_invariant "sys_tasks S X" for S X
  by unfold_locales (auto simp: sys_tasks_def intro: ing.B_mono)

interpretation fresh: tasks_invariant "fresh_tasks S X i" for S X i
  by unfold_locales (auto simp: fresh_tasks_def seq_le_def intro: sys.B_mono [unfolded seq_le_def] order_trans)

text \<open>Programs that pass from one invariant to another; on the way out with an error the last one holds.\<close>

definition leads :: "(sess \<Rightarrow> bool) \<Rightarrow> 'a prog \<Rightarrow> ('a \<Rightarrow> sess \<Rightarrow> bool) \<Rightarrow> (sess \<Rightarrow> bool) \<Rightarrow> bool" where
  "leads J m Q E = (\<forall>s. J s \<longrightarrow> (case m s of (Ok a, s1) \<Rightarrow> Q a s1 | (_, s1) \<Rightarrow> E s1))"

lemma leads_check:
  "leads J m Q E \<Longrightarrow> (\<And>a. leads (Q a) (k a) R E) \<Longrightarrow> leads J (check m w k) R E"
  unfolding leads_def check_def by (fastforce split: prod.splits result.splits)

lemma leads_keeps: "keeps J m \<Longrightarrow> (\<And>s. J s \<Longrightarrow> E s) \<Longrightarrow> leads J m (\<lambda>_. J) E"
proof -
  assume m: "keeps J m" and E: "\<And>s. J s \<Longrightarrow> E s"
  have "case m s of (Ok a, s1) \<Rightarrow> J s1 | (_, s1) \<Rightarrow> E s1" if "J s" for s
  proof -
    obtain r s1 where r: "m s = (r, s1)" by fastforce
    then have "J s1" using keepsD [OF m that] by simp
    with E [of s1] show ?thesis by (cases r) (simp_all add: r)
  qed
  then show ?thesis by (simp add: leads_def)
qed

lemma leads_then:
  "keeps J m \<Longrightarrow> (\<And>s. J s \<Longrightarrow> E s) \<Longrightarrow> (\<And>a. leads J (k a) R E) \<Longrightarrow> leads J (check m w k) R E"
  by (rule leads_check [OF leads_keeps])

lemma keeps_leads: "leads J m (\<lambda>_. J) J \<Longrightarrow> keeps J m"
proof -
  assume m: "leads J m (\<lambda>_. J) J"
  have "J (snd (m s))" if "J s" for s
  proof -
    obtain r s1 where r: "m s = (r, s1)" by fastforce
    then show ?thesis using m that by (cases r) (force simp: leads_def)+
  qed
  then show ?thesis by (simp add: keeps_def)
qed

lemma fresh_sys: "sess_inv (fresh.I S X i) s \<Longrightarrow> sess_inv (sys.I S X) s"
  by (auto simp: sess_inv_def fresh_tasks_def split: option.splits)

lemma insert_media_fresh:
  assumes "sys_tasks S X ts q" and "insert_media setId note now d q = (Inr (d', x), q')"
  shows "x = [media_seq q + 1]" and "media_seq q' = media_seq q + 1" and "fresh_tasks S X (media_seq q + 1) ts q'"
    and "tasks d' = tasks d"
proof -
  from assms(2) have x: "x = [media_seq q + 1]" "q' = q\<lparr>media_seq := media_seq q + 1\<rparr>" "media_seq q < max_serial" "tasks d' = tasks d"
    by (auto simp: insert_media_def int4_def Let_def split: if_splits)
  then have less: "media_seq q < media_seq q + 1" by (intro word_succ_greater)
  have "\<not> ingests S (media_seq q + 1) t" if "t \<in> set ts" for t
    using that assms(1) less unfolding sys_tasks_def ingest_ok_def by (meson leD)
  moreover have "media_seq q + 1 \<le> max_serial" using x(3) by (rule inc_le)
  moreover have "sys_tasks S X ts q'" using assms(1) x(2,3) sys.B_mono seq_step(4) by blast
  ultimately show "x = [media_seq q + 1]" "media_seq q' = media_seq q + 1" "fresh_tasks S X (media_seq q + 1) ts q'" "tasks d' = tasks d"
    using x by (auto simp: fresh_tasks_def)
qed

lemma insert_media_leads:
  "leads (sess_inv (sys.I S X)) (QueryOne P Tx (insert_media setId note)) (\<lambda>i. sess_inv (fresh.I S X i)) (sess_inv (sys.I S X))"
  unfolding leads_def
proof (intro allI impI)
  fix s assume inv: "sess_inv (sys.I S X) s"
  let ?m = "QueryOne P Tx (insert_media setId note)"
  have keep: "sess_inv (sys.I S X) (snd (?m s))"
    using inv by (rule keepsD [OF sys.inv.keeps_QueryOne [OF sys.stmt_framed [OF frame_insert_media]]])
  have "sess_inv (fresh.I S X i) s1" if run: "?m s = (Ok i, s1)" for i s1
  proof -
    obtain r where pr: "pg_run P Tx (insert_media setId note) s = (r, s1)"
      and "rows_result (late_at P (calls s)) one_row r = Ok i"
      using run by (auto simp: QueryOne_reply reply_def split: prod.splits)
    then obtain x where x: "r = Inr x" "one_row x = Ok i"
      by (cases r) (auto simp: rows_result_def fail_with_def split: if_splits result.splits option.splits)
    then obtain t d' q' where t: "txn s = Some t" "insert_media setId note (began t) (work t) (seqs_of s) = (Inr (d', x), q')"
        "s1 = s\<lparr>calls := Suc (calls s), txn := Some (t\<lparr>work := d'\<rparr>), seqs_of := q'\<rparr>"
      using pr by (auto simp: pg_run.simps Let_def split: option.splits if_splits fault.splits prod.splits sum.splits)
    have "sys_tasks S X (tasks (committed s)) (seqs_of s)" "sys_tasks S X (tasks (work t)) (seqs_of s)"
      using inv t(1) by (simp_all add: sess_inv_def)
    note new = insert_media_fresh [OF this(1) t(2)] insert_media_fresh [OF this(2) t(2)]
    have "i = media_seq (seqs_of s) + 1" using x(2) new(1) by (simp add: one_row_def)
    with new t(3) show ?thesis by (simp add: sess_inv_def)
  qed
  with keep show "case ?m s of (Ok i, s1) \<Rightarrow> sess_inv (fresh.I S X i) s1 | (_, s1) \<Rightarrow> sess_inv (sys.I S X) s1"
    by (auto split: prod.splits result.splits)
qed

definition same_server :: "pg \<Rightarrow> pg \<Rightarrow> bool" where
  "same_server P S =
     (jsonb_in P = jsonb_in S \<and> jsonb_out P = jsonb_out S \<and> state_media_id P = state_media_id S \<and> sql_lower P = sql_lower S)"

lemma sys_tasks_add:
  assumes "fresh_tasks S X i ts q" and "\<And>j. ingests S j t \<Longrightarrow> j = i"
  shows "sys_tasks S X (ts @ [t]) q"
proof -
  have one: "length (filter (ingests S j) ts) \<le> 1" "\<And>t. t \<in> set ts \<Longrightarrow> ingests S j t \<Longrightarrow> j \<le> media_seq q" for j
    using assms(1) by (auto simp: fresh_tasks_def sys_tasks_def ingest_ok_def)
  have none: "filter (ingests S i) ts = []" and i: "i \<le> media_seq q"
    using assms(1) by (auto simp: fresh_tasks_def filter_empty_conv)
  have "length (filter (ingests S j) (ts @ [t])) \<le> 1" for j
    using one(1) [of j] none assms(2) by (cases "ingests S j t") auto
  moreover have "failed_tasks X (ts @ [t])"
    using assms(1) by (auto simp: fresh_tasks_def sys_tasks_def failed_tasks_def)
  ultimately show ?thesis
    using one(2) i assms(2) by (auto simp: sys_tasks_def ingest_ok_def)
qed

lemma insert_ingestion_to_sys:
  assumes "jsonb_ok S" and "same_server P S" and "fresh_tasks S X i (tasks d) q"
  shows "case insert_task P TaskTypeDvdIngestion (marshal_ingestion \<lparr>MediaId = i\<rparr>) None now d q of (r, q') \<Rightarrow>
    seq_le q q' \<and> (case r of Inl e \<Rightarrow> True | Inr (d', x) \<Rightarrow> sys_tasks S X (tasks d') q')"
proof -
  obtain v where v: "jsonb_in S (marshal_ingestion \<lparr>MediaId = i\<rparr>) = Some v" "state_media_id S v = Some (uint i)"
    using assms(1,3) unfolding fresh_tasks_def by (metis jsonb_okE)
  have seq: "seq_le q (q\<lparr>task_seq := task_seq q + 1\<rparr>)" by (simp add: seq_le_def)
  have "sys_tasks S X (tasks d @ [t]) q" if "t_State t = v" for t
    using that v(2) by (intro sys_tasks_add [OF assms(3)]) (auto simp: ingests_def word_uint_eq_iff)
  then show ?thesis
    using assms(2) v(1) seq sys.B_mono [OF seq]
    by (auto simp: insert_task_def task_arg_def same_server_def Let_def TaskTypeDvdIngestion_def)
qed

lemma create_leads:
  assumes "jsonb_ok S" and "same_server P S"
  shows "leads (sess_inv (fresh.I S X i)) (CreateDvdIngestionTask P Tx i) (\<lambda>_. sess_inv (sys.I S X)) (sess_inv (sys.I S X))"
proof -
  let ?st = "insert_task P TaskTypeDvdIngestion (marshal_ingestion \<lparr>MediaId = i\<rparr>) None"
  have run: "sess_inv (sys.I S X) (snd (pg_run P Tx ?st s))" if inv: "sess_inv (fresh.I S X i) s" for s
  proof -
    note sys = fresh_sys [OF inv]
    show ?thesis
    proof (cases "txn s")
      case None
      then show ?thesis using sys by (simp add: pg_run.simps Let_def sess_inv_def)
    next
      case (Some t)
      obtain r q' where r: "?st (began t) (work t) (seqs_of s) = (r, q')" by fastforce
      have "fresh_tasks S X i (tasks (work t)) (seqs_of s)" using inv Some by (simp add: sess_inv_def)
      from insert_ingestion_to_sys [OF assms this, of "began t"] r
      have "seq_le (seqs_of s) q'" "case r of Inl e \<Rightarrow> True | Inr (d', x) \<Rightarrow> sys_tasks S X (tasks d') q'" by simp_all
      then show ?thesis
        using sys Some r sys.B_mono [of "seqs_of s" q']
        by (auto simp: pg_run.simps Let_def sess_inv_def split: fault.splits sum.splits)
    qed
  qed
  have "leads (sess_inv (fresh.I S X i)) (QueryOne P Tx ?st) (\<lambda>_. sess_inv (sys.I S X)) (sess_inv (sys.I S X))"
    unfolding leads_def QueryOne_reply reply_def using run by (auto split: prod.splits result.splits) (metis snd_conv)+
  moreover have "keeps (sess_inv (sys.I S X)) (notify P Tx)"
  proof -
    have "tasks_frame notify_stmt" unfolding notify_stmt_def by (rule frame_modify) auto
    then show ?thesis unfolding notify_def by (intro sys.ks)
  qed
  ultimately show ?thesis
    unfolding CreateDvdIngestionTask_def Create_def Let_def option.case
    by (intro leads_check) (auto intro!: leads_check leads_keeps keeps_ret)
qed

lemma PostMedia_sys:
  assumes "jsonb_ok S" and "same_server P S"
  shows "keeps (sess_inv (sys.I S X)) (PostMedia P body)"
proof -
  have fin: "leads (sess_inv (sys.I S X)) (check (Commit P) no_commit (\<lambda>_. ret media)) (\<lambda>_. sess_inv (sys.I S X)) (sess_inv (sys.I S X))"
    for media :: Media
    by (intro leads_keeps sys.ks) simp
  have "leads (sess_inv (fresh.I S X i))
      (bind (add_dvd P i path) (\<lambda>_. bind (for_each (link_media_card P i) cards) (\<lambda>_. bind (getMedia P i) (\<lambda>media.
        check (CreateDvdIngestionTask P Tx i) w (\<lambda>_. check (Commit P) no_commit (\<lambda>_. ret media))))))
      (\<lambda>_. sess_inv (sys.I S X)) (sess_inv (sys.I S X))" for i path cards w
    by (intro leads_then [OF fresh.keeps_media_steps(3) fresh_sys]
        leads_then [OF keeps_for_each [OF fresh.keeps_media_steps(2)] fresh_sys]
        leads_then [OF fresh.keeps_media_steps(1) fresh_sys] leads_check [OF create_leads [OF assms]] fin)
  then show ?thesis
    unfolding PostMedia_def
    by (intro keeps_option keeps_fail sys.inv.keeps_with_tx keeps_leads leads_check [OF insert_media_leads])
qed

section \<open>Tasks keep their type and state\<close>

lemma ingest_ok_cong:
  assumes "map (\<lambda>t. (t_TaskType t, t_State t)) ts' = map (\<lambda>t. (t_TaskType t, t_State t)) ts"
  shows "ingest_ok S ts' q = ingest_ok S ts q"
proof -
  let ?f = "\<lambda>t. (t_TaskType t, t_State t)"
  let ?g = "\<lambda>i (ty, st). ty = TaskTypeDvdIngestion \<and> state_media_id S st = Some (uint (i :: uint32))"
  have g: "ingests S i = (\<lambda>t. ?g i (?f t))" for i by (rule ext) (simp add: ingests_def)
  have "ingest_ok S us q = ((\<forall>i. length (filter (?g i) (map ?f us)) \<le> 1) \<and>
      (\<forall>p\<in>set (map ?f us). \<forall>i. ?g i p \<longrightarrow> i \<le> media_seq q))" for us
    unfolding ingest_ok_def g by (simp add: filter_map comp_def)
  then show ?thesis by (simp only: assms)
qed

lemma ing_update_tasks:
  assumes "\<And>t. t_TaskType (g t) = t_TaskType t" and "\<And>t. t_State (g t) = t_State t"
  shows "stmt_keeps (ing.I S) (update_tasks R g)"
proof -
  have "map (\<lambda>t. (t_TaskType t, t_State t)) (update_where R (\<lambda>t. stamp now (g t)) ts) =
      map (\<lambda>t. (t_TaskType t, t_State t)) ts" for now ts
    using assms by (simp add: update_where_def)
  then have "ingest_ok S (update_where R (\<lambda>t. stamp now (g t)) ts) q = ingest_ok S ts q" for now ts q
    by (rule ingest_ok_cong)
  then show ?thesis by (simp add: stmt_keeps_def update_tasks_def)
qed

lemma ing_updates:
  "stmt_keeps (ing.I S) (resume_stmt i)" "stmt_keeps (ing.I S) (complete_stmt P i None)" "stmt_keeps (ing.I S) (fail_stmt i msg)"
  "stmt_keeps (ing.I S) (renew_stmt i w e)" "stmt_keeps (ing.I S) (select_parent i)" "stmt_keeps (ing.I S) notify_stmt"
  unfolding resume_stmt_def complete_stmt_def fail_stmt_def renew_stmt_def select_parent_def notify_stmt_def with_state_def
  by (auto intro!: stmt_keeps_task_arg ing_update_tasks ing.inv.stmt_keeps_select ing.inv.stmt_keeps_modify simp: set_state_def)

lemma ing_claim: "stmt_keeps (ing.I S) (claim_stmt locked tys w e)"
proof -
  have up: "stmt_keeps (ing.I S) (update_tasks R (claim_row w e))" for R
    by (rule ing_update_tasks) (simp_all add: claim_row_def)
  have "seq_le q q'' \<and> ing.I S d' q''"
    if "ing.I S d q" "update_tasks R (claim_row w e) now d q = (Inr (d', n), q'')" for R now d q d' n q''
    using ing.inv.stmt_keepsD [OF up that] by blast
  moreover have "seq_le q q''"
    if "ing.I S d q" "update_tasks R (claim_row w e) now d q = (Inl er, q'')" for R now d q er q''
    using ing.inv.stmt_keepsD(1) [OF up that] .
  ultimately show ?thesis
    by (auto simp: stmt_keeps_def claim_stmt_def split: option.splits prod.splits sum.splits)
qed

lemmas ing_ks = ing.inv.keeps_intros keeps_throw keeps_on_error ing_updates ing_claim

lemma ing_renewLease: "keeps (sess_inv (ing.I S)) (renewLease P w now i)"
  unfolding renewLease_def by (intro ing_ks)

lemma ing_scan: "keeps (sess_inv (ing.I S)) (scanAndAssign P reg tys locked ctx_done now w)"
proof -
  have "keeps (sess_inv (ing.I S)) (dispatch P reg ctx_done row)" for row
    unfolding dispatch_def failTaskDirect_def
    by (cases row) (simp only: prod.case, intro ing_ks keeps_lift)
  then show ?thesis unfolding scanAndAssign_def by (intro ing_ks)
qed

text \<open>The ingestion handler only completes or fails its task, without a new state.\<close>

definition gives :: "('a \<Rightarrow> bool) \<Rightarrow> 'a prog \<Rightarrow> bool" where
  "gives R m = (\<forall>s a s1. m s = (Ok a, s1) \<longrightarrow> R a)"

lemma gives_on_error: "(\<And>e. gives R (h e)) \<Longrightarrow> (\<And>a. gives R (k a)) \<Longrightarrow> gives R (on_error m h k)"
  unfolding gives_def on_error_def by (auto split: prod.splits result.splits)

definition plain_result :: "Result \<Rightarrow> bool" where
  "plain_result r = (NewState r = None \<and> (NewStatus r = StatusCompleted \<or> NewStatus r = StatusFailed))"

lemma Handle_gives: "gives plain_result (Handle p os_Rename P k ty bytes)"
proof -
  have "gives plain_result (fails_with msg e)" "gives plain_result (ret Completed)" for msg e
    by (auto simp: gives_def fails_with_def ret_def plain_result_def Failed_def Completed_def)
  then show ?thesis
    unfolding Handle_def Let_def by (auto intro!: gives_on_error split: option.splits)
qed

lemma keeps_check_gives: "keeps J m \<Longrightarrow> gives R m \<Longrightarrow> (\<And>a. R a \<Longrightarrow> keeps J (k a)) \<Longrightarrow> keeps J (check m w k)"
proof -
  assume m: "keeps J m" "gives R m" and k: "\<And>a. R a \<Longrightarrow> keeps J (k a)"
  have "J (snd (check m w k s))" if "J s" for s
  proof -
    obtain r s1 where r: "m s = (r, s1)" by fastforce
    then have "J s1" using keepsD [OF m(1) that] by simp
    moreover have "R a" if "r = Ok a" for a using m(2) r that by (auto simp: gives_def)
    ultimately show ?thesis using k by (cases r) (auto simp: check_def r keeps_def)
  qed
  then show ?thesis by (simp add: keeps_def)
qed

lemma keeps_Handle:
  assumes "\<And>i. stmt_keeps I (select_dvd_path i)" and "\<And>i path. stmt_keeps I (update_dvd_path i path)" and "db_invariant I"
  shows "keeps (sess_inv I) (Handle p os_Rename P k ty bytes)"
  unfolding Handle_def fails_with_def Let_def
  by (intro keeps_option keeps_ret keeps_on_error keeps_Rename db_invariant.keeps_QueryOne [OF assms(3)]
      db_invariant.keeps_Exec [OF assms(3)] assms)

lemma ing_processTask:
  assumes "a_handler a = Handle p os_Rename"
  shows "keeps (sess_inv (ing.I S)) (processTask P a)"
proof -
  have handle: "keeps (sess_inv (ing.I S)) (Handle p os_Rename P k ty bytes)" for k ty bytes
    by (intro keeps_Handle ing.stmt_framed framed ing.inv.db_invariant_axioms)
  have "keeps (sess_inv (ing.I S)) (applyResult P Tx i r)" if "plain_result r" for i r
    using that unfolding plain_result_def applyResult_def completeTask_def failTask_def maybeResumeParent_def notify_def
    by (auto intro!: ing_ks)
  then show ?thesis
    unfolding processTask_def assms
    by (intro ing.inv.keeps_with_tx keeps_check_gives [OF handle Handle_gives] ing_ks)
qed

lemma task_inv_processTask:
  assumes "a_handler a = Handle p os_Rename"
  shows "keeps (sess_inv (task_inv X)) (processTask P a)"
proof -
  have "stmt_keeps (task_inv X) (select_dvd_path i)" "stmt_keeps (task_inv X) (update_dvd_path i path)" for i path
    by (intro task_inv_frame stmt_ok, erule tasks_frameD [rotated], intro framed)+
  then show ?thesis
    unfolding assms [symmetric] by (intro keeps_processTask, unfold assms) (intro keeps_Handle tinv.db_invariant_axioms)
qed

section \<open>The step relation\<close>

text \<open>
  A step of the system, from one moment without open transaction to the next: a request, a scan, the work on an
  assigned ingestion task, or a lease renewal. Each step has its own driver, so its faults and clock are
  arbitrary; what the server computes is the same throughout. An assignment may be stale: nothing ties it to
  the current state of its task.
\<close>

inductive step :: "pg \<Rightarrow> Paths \<Rightarrow> sess \<Rightarrow> sess \<Rightarrow> bool" for S p where
  request: "same_server P S \<Longrightarrow> step S p s (serve P req s)"
| scan: "same_server P S \<Longrightarrow> step S p s (snd (scanAndAssign P reg tys locked ctx_done now w s))"
| work: "same_server P S \<Longrightarrow> a_handler a = Handle p os_Rename \<Longrightarrow> step S p s (snd (processTask P a s))"
| renew: "same_server P S \<Longrightarrow> step S p s (snd (renewLease P w now i s))"

inductive reachable :: "pg \<Rightarrow> Paths \<Rightarrow> sess \<Rightarrow> sess \<Rightarrow> bool" for S p s0 where
  start: "reachable S p s0 s0"
| next_step: "reachable S p s0 s \<Longrightarrow> step S p s s' \<Longrightarrow> reachable S p s0 s'"

text \<open>The invariant: the tables are consistent between steps, and each media has at most one ingestion task.\<close>

definition system_ok :: "pg \<Rightarrow> int set \<Rightarrow> sess \<Rightarrow> bool" where
  "system_ok S X s = (at_rest s \<and> sys_tasks S X (tasks (committed s)) (seqs_of s))"

lemma system_sess: "system_ok S X s \<Longrightarrow> sess_inv (sys.I S X) s"
  by (simp add: system_ok_def at_rest_def sess_inv_def)

lemma system_sess_task: "system_ok S X s \<Longrightarrow> sess_inv (task_inv X) s"
  by (auto simp: system_ok_def at_rest_def sess_inv_def sys_tasks_def failed_tasks_def task_inv_def failed_in_def)

lemma system_sess_ing: "system_ok S X s \<Longrightarrow> sess_inv (ing.I S) s"
  by (simp add: system_ok_def at_rest_def sess_inv_def sys_tasks_def)

lemma serve_sys:
  assumes "jsonb_ok S" and "same_server P S" and "sess_inv (sys.I S X) s"
  shows "sess_inv (sys.I S X) (serve P req s)"
  by (cases req)
    (use assms(3) in \<open>simp_all add: keepsD [OF sys.framed_kinds(1)] keepsD [OF sys.framed_kinds(2)] keepsD [OF sys.framed_kinds(3)]
      keepsD [OF sys.framed_kinds(4)] keepsD [OF sys.framed_kinds(5)]
      keepsD [OF sys.keeps_cards(1)] keepsD [OF sys.keeps_cards(2)] keepsD [OF sys.keeps_cards(3)]
      keepsD [OF sys.keeps_cards(4)] keepsD [OF sys.keeps_cards(5)]
      keepsD [OF sys.keeps_media_sets(1)] keepsD [OF sys.keeps_media_sets(2)] keepsD [OF sys.keeps_media_sets(3)]
      keepsD [OF sys.keeps_media_sets(4)] keepsD [OF sys.keeps_media_sets(5)]
      keepsD [OF sys.keeps_media(1)] keepsD [OF sys.keeps_media(2)] keepsD [OF sys.keeps_media(3)] keepsD [OF sys.keeps_media(4)]
      keepsD [OF PostMedia_sys [OF assms(1,2)]]\<close>)

lemma task_step:
  assumes "system_ok S X s" and "idle m" and "keeps (sess_inv (task_inv X)) m" and "keeps (sess_inv (ing.I S)) m"
  shows "system_ok S X (snd (m s))"
proof -
  have "txn (snd (m s)) = None" using keepsD [OF assms(2)] assms(1) by (simp add: system_ok_def at_rest_def)
  moreover have "sess_inv (task_inv X) (snd (m s))" using keepsD [OF assms(3)] system_sess_task [OF assms(1)] .
  moreover have "sess_inv (ing.I S) (snd (m s))" using keepsD [OF assms(4)] system_sess_ing [OF assms(1)] .
  ultimately show ?thesis
    by (auto simp: system_ok_def at_rest_def sess_inv_def sys_tasks_def failed_tasks_def task_inv_def failed_in_def)
qed

lemma step_system_ok:
  assumes "jsonb_ok S" and "step S p s s'" and ok: "system_ok S X s"
  shows "system_ok S X s'"
  using assms(2)
proof cases
  case (request P req)
  have "at_rest s" using ok by (simp add: system_ok_def)
  then have "at_rest s'" using request by (simp add: serve_good)
  moreover have "sess_inv (sys.I S X) s'" using serve_sys [OF assms(1)] request system_sess [OF ok] by simp
  ultimately show ?thesis by (simp add: system_ok_def at_rest_def sess_inv_def)
next
  case (scan P reg tys locked ctx_done now w)
  show ?thesis
    unfolding scan(1)
    by (intro task_step [OF ok] keeps_scanAndAssign ing_scan) (simp add: scanAndAssign_def idle_with_tx)
next
  case (work P a os_Rename)
  show ?thesis
    unfolding work(1)
    by (intro task_step [OF ok] task_inv_processTask [OF work(3)] ing_processTask [OF work(3)])
      (simp add: processTask_def idle_with_tx)
next
  case (renew P w now i)
  have "idle (renewLease P w now i)" unfolding renewLease_def by (intro idle_intros keeps_throw)
  then show ?thesis
    unfolding renew(1) by (intro task_step [OF ok] keeps_renewLease ing_renewLease)
qed

lemma reachable_system_ok:
  assumes "reachable S p s0 s" and "jsonb_ok S" and "system_ok S X s0"
  shows "system_ok S X s"
  using assms(1) by induction (use assms(2,3) step_system_ok in blast)+

text \<open>The session before the first request: empty tables.\<close>

definition initial_sess :: sess where
  "initial_sess = \<lparr>committed = empty_db, seqs_of = initial_seqs, txn = None, calls = 0, renames = []\<rparr>"

lemma initial_system_ok: "system_ok S {} initial_sess"
  using good_empty
  by (simp add: system_ok_def initial_sess_def at_rest_def sys_tasks_def failed_tasks_def ingest_ok_def empty_db_def)

end
