(* ===== verification/VM_EndToEnd.thy ===== *)
theory VM_EndToEnd
  imports VM_System
begin

text \<open>
  A DVD from its posting to its final place, through the services and the task system: the request that
  creates it, the scan that claims its task, the work of the handler, and what a client reads afterwards.
  \<^verbatim>\<open>main_registry\<close> is the registry that src/main.go builds.
\<close>

definition main_registry :: "Paths \<Rightarrow> os_rename \<Rightarrow> handler registry result" where
  "main_registry p os_Rename = MustRegister (Some None) TaskTypeDvdIngestion (Handle p os_Rename)"

lemma main_registry_eq: "main_registry p os_Rename = Ok (Some [(TaskTypeDvdIngestion, Handle p os_Rename)])"
  by (simp add: main_registry_def MustRegister_def Register_def)

lemma main_registry_uses:
  assumes "main_registry p os_Rename = Ok reg"
  shows "Types (Some reg) = Ok [TaskTypeDvdIngestion]"
    and "registry_Get (Some reg) TaskTypeDvdIngestion = Ok (Some (Handle p os_Rename))"
  using assms by (auto simp: main_registry_eq Types_def registry_Get_def)

section \<open>Nothing moves but by the handler\<close>

lemma still_media_steps:
  "still R (link_media_card P i c)" "still R (getMedia P i)" "still R (add_dvd P i path)" "still R (CreateDvdIngestionTask P r i)"
  unfolding link_media_card_def link_card_def card_exists_def getMedia_def getMediaCardIds_def add_dvd_def
    CreateDvdIngestionTask_def Create_def notify_def Let_def
  by (intro still_intros)+

lemma still_with_tx: "still R m \<Longrightarrow> still R (with_tx P opts w m)"
  unfolding with_tx_def by (intro still_intros)

lemma still_PostMedia: "still R (PostMedia P body)"
  unfolding PostMedia_def
  by (intro still_with_tx still_intros still_media_steps)

lemma still_scan: "still R (scanAndAssign P reg tys locked c now w)"
proof -
  have "still R (dispatch P reg c row)" for row
    unfolding dispatch_def failTaskDirect_def
    by (cases row) (simp only: prod.case, intro still_intros keeps_on_error keeps_lift)
  then show ?thesis unfolding scanAndAssign_def
    by (intro still_with_tx still_intros keeps_on_error)
qed


section \<open>Claiming the new task\<close>

lemma update_where_snoc:
  "\<forall>y\<in>set xs. \<not> R y \<Longrightarrow> R x \<Longrightarrow> update_where R g (xs @ [x]) = xs @ [g x]"
  by (auto simp: update_where_def intro!: map_idI)

text \<open>The tables after a DVD was posted, with its task in some later form.\<close>

abbreviation posted :: "uint32 \<Rightarrow> PostMediaBody \<Rightarrow> string \<Rightarrow> Task \<Rightarrow> db \<Rightarrow> db" where
  "posted i b path t d \<equiv> add_ingestion t (add_media i b path d)"

lemma posted_tasks [simp]:
  "tasks (posted i b path t d) = tasks d @ [t]" "media_tbl (posted i b path t d) =
     media_tbl d @ [\<lparr>m_id = i, m_media_set_id = pm_MediaSetId b, m_note = pm_Note b\<rparr>]"
  "media_dvds (posted i b path t d) = media_dvds d @ [\<lparr>d_media_id = i, d_path = path\<rparr>]"
  by (simp_all add: add_ingestion_def add_media_def)

lemma posted_update:
  assumes "\<forall>u\<in>set (tasks d). t_Id u \<noteq> k" and "t_Id t = k"
  shows "(posted i b path t d)\<lparr>tasks := update_where (\<lambda>u. t_Id u = k) g (tasks (posted i b path t d))\<rparr> =
    posted i b path (g t) d"
  using update_where_snoc [of "tasks d" "\<lambda>u. t_Id u = k" t g] assms
  by (intro db.equality) (simp_all add: add_ingestion_def add_media_def)

lemma posted_set_path:
  assumes "i \<notin> d_media_id ` set (media_dvds d)"
  shows "set_path i path' (posted i b path t d) = posted i b path' t d"
proof -
  have "update_where (\<lambda>v. d_media_id v = i) (\<lambda>v. v\<lparr>d_path := path'\<rparr>) (media_dvds d @ [\<lparr>d_media_id = i, d_path = path\<rparr>]) =
      media_dvds d @ [\<lparr>d_media_id = i, d_path = path'\<rparr>]"
    using assms by (subst update_where_snoc) auto
  then show ?thesis by (simp add: set_path_def add_ingestion_def add_media_def)
qed

text \<open>What a client reads of it.\<close>

definition ingested_view :: "uint32 \<Rightarrow> PostMediaBody \<Rightarrow> string \<Rightarrow> DVDIngestion \<Rightarrow> Media" where
  "ingested_view i b path ing =
     (new_media_view i b path)\<lparr>md_Details := Some \<lparr>det_Dvd = Some \<lparr>dvd_Path = path, dvd_Ingestion = ing\<rparr>\<rparr>\<rparr>"

lemma posted_viewed:
  assumes "good d q" and "media_seq q < max_serial" and "i = media_seq q + 1" and "\<forall>t\<in>set (tasks d). \<not> ingests P i t"
    and "ingests P i t"
  shows "media_view P (posted i b path t d) \<lparr>m_id = i, m_media_set_id = pm_MediaSetId b, m_note = pm_Note b\<rparr> =
    ingested_view i b path (taskStatusToDvdIngestion (Some (t_Status t)) (t_Error t))"
proof -
  note fresh = fresh_media [OF assms(1,2), folded assms(3)]
  have "filter (\<lambda>v. d_media_id v = i) (media_dvds d) = []" "filter (\<lambda>l. fst l = i) (media_x_cards d) = []"
    "filter (ingests P i) (tasks d) = []"
    using fresh assms(4) by (force simp: filter_empty_conv)+
  then show ?thesis
    using assms(5)
    by (simp add: media_view_def join_of_def dvd_of_def ingestion_task_def first_of_def add_ingestion_def add_media_def
        media_join_row_def media_of_row_def new_media_view_def ingested_view_def comp_def filter_map)
qed

lemma next_task_only:
  assumes "\<forall>u\<in>set us. t_TaskType u \<in> set tys \<longrightarrow> \<not> claimable now u" and "tasks d = us @ [t]"
    and "claimable now t" and "t_TaskType t \<in> set tys" and "\<not> locked (t_Id t)"
  shows "next_task locked tys now d = Some t"
proof -
  have "filter (\<lambda>t. claimable now t \<and> t_TaskType t \<in> set tys \<and> \<not> locked (t_Id t)) us = []"
    using assms(1) by (auto simp: filter_empty_conv)
  then show ?thesis using assms(2-5) by (simp add: next_task_def)
qed


section \<open>From the posting to the claim\<close>

lemma system_okD:
  assumes "system_ok P X s" and "media_seq (seqs_of s) < max_serial"
  shows "good (committed s) (seqs_of s)" and "one_ingestion P (committed s)"
    and "\<forall>t\<in>set (tasks (committed s)). \<not> ingests P (media_seq (seqs_of s) + 1) t"
proof -
  have ing: "ingest_ok P (tasks (committed s)) (seqs_of s)" using assms(1) by (simp add: system_ok_def sys_tasks_def)
  show "good (committed s) (seqs_of s)" using assms(1) by (simp add: system_ok_def at_rest_def)
  show "one_ingestion P (committed s)" using ing by (rule ingest_ok_one)
  have "\<not> media_seq (seqs_of s) + 1 \<le> media_seq (seqs_of s)"
    using word_succ_greater [OF assms(2)] by simp
  then show "\<forall>t\<in>set (tasks (committed s)). \<not> ingests P (media_seq (seqs_of s) + 1) t"
    using ing by (auto simp: ingest_ok_def)
qed

text \<open>
  The situation of the theorems: a system at rest with room in its sequences, an acceptable request, no
  other ingestion waiting for a worker, and the registry of the program.
\<close>

definition ready :: "pg \<Rightarrow> sess \<Rightarrow> PostMediaBody \<Rightarrow> string \<Rightarrow> bool" where
  "ready P s b path =
     (system_ok P {} s \<and> media_seq (seqs_of s) < max_serial \<and> task_seq (seqs_of s) < max_task_id \<and>
      pm_DvdInboxPath b = Some path \<and> post_media_ok (committed s) b path \<and>
      (\<forall>t\<in>set (tasks (committed s)). t_TaskType t = TaskTypeDvdIngestion \<longrightarrow>
         t_Status t \<notin> {StatusPending, StatusRunning}))"

definition claimed_ingestion :: "pg \<Rightarrow> int \<Rightarrow> uint32 \<Rightarrow> int \<Rightarrow> int \<Rightarrow> string \<Rightarrow> int \<Rightarrow> Task" where
  "claimed_ingestion P k i created claimed w leaseExpires =
     stamp claimed (claim_row w leaseExpires (new_ingestion P k i created))"

lemma posted_then_claimed:
  assumes "ready P s b path" and json: "jsonb_ok P" and reg: "main_registry p os_Rename = Ok reg"
    and i: "i = media_seq (seqs_of s) + 1" and k: "k = task_seq (seqs_of s) + 1" and free: "\<not> locked k"
    and post: "PostMedia (reliable P) (Some b) s = (r1, s1)"
    and scan: "scanAndAssign (reliable P) (Some reg) [TaskTypeDvdIngestion] locked False now w s1 = (r2, s2)"
  obtains a t where "r1 = Ok (new_media_view i b path)" and "r2 = Ok (Assigned a)" and "ingestion_of p os_Rename i a"
    and "a_taskId a = k" and "t_Id t = k" and "committed s2 = posted i b path t (committed s)"
    and "renames s2 = renames s" and "system_ok P {} s2" and "ingests P i t" and "t_Status t = StatusRunning"
    and "t_ParentId t = None" and "t_Error t = None"
proof -
  note rd = assms(1) [unfolded ready_def]
  let ?d = "committed s" and ?q = "seqs_of s" and ?t0 = "new_ingestion P k i (clock_at P (calls s))"
  have ok: "system_ok P {} s" "media_seq ?q < max_serial" "task_seq ?q < max_task_id" "pm_DvdInboxPath b = Some path"
    "post_media_ok ?d b path" using rd by simp_all
  note sys = system_okD [OF ok(1,2)]
  have out: "outcome (PostMedia (reliable P) (Some b)) s =
      (Ok (new_media_view i b path), posted i b path ?t0 ?d, ?q\<lparr>media_seq := i, task_seq := k\<rparr>)"
    using PostMedia_outcome(1) [OF sys(1,2) json ok(4,2,3) i k _ ok(5)] sys(3) i by simp
  then have s1: "r1 = Ok (new_media_view i b path)" "committed s1 = posted i b path ?t0 ?d"
    "seqs_of s1 = ?q\<lparr>media_seq := i, task_seq := k\<rparr>" using post by (simp_all add: outcome_def)
  have same: "same_server (reliable P) P" by (simp add: same_server_def)
  have sys1: "system_ok P {} s1"
    using step_system_ok [OF json step.request [OF same, of p s "ReqPostMedia (Some b)"] ok(1)] post by simp
  then have good1: "good (committed s1) (seqs_of s1)" by (simp add: system_ok_def at_rest_def)
  let ?now = "clock_at P (calls s1)"
  have nt: "next_task locked [TaskTypeDvdIngestion] ?now (committed s1) = Some ?t0"
    using rd free by (intro next_task_only [of "tasks ?d"]) (auto simp: s1(2) new_ingestion_def claimable_def)
  have get: "registry_Get (Some reg) (t_TaskType ?t0) = Ok (Some (Handle p os_Rename))"
    using main_registry_uses(2) [OF reg] by (simp add: new_ingestion_def)
  let ?a = "\<lparr>a_taskId = t_Id ?t0, a_taskType = t_TaskType ?t0, a_state = jsonb_out P (t_State ?t0), a_handler = Handle p os_Rename\<rparr>"
  let ?t = "claimed_ingestion P k i (clock_at P (calls s)) ?now w (now + LeaseDuration)"
  have "t_Id u \<noteq> k" if "u \<in> set (tasks ?d)" for u
    using good_tasks_ok [OF sys(1)] that k by (fastforce simp: tasks_ok_def)
  then have "claim_in (committed s1) k ?now w (now + LeaseDuration) = posted i b path ?t ?d"
    unfolding claim_in_def s1(2) by (subst posted_update) (auto simp: claimed_ingestion_def new_ingestion_def)
  with scanAndAssign_claims [OF good1 nt get, of now w] scan
  have s2: "r2 = Ok (Assigned ?a)" "committed s2 = posted i b path ?t ?d"
    by (simp_all add: outcome_def new_ingestion_def)
  have sys2: "system_ok P {} s2"
    using step_system_ok [OF json step.scan [OF same, of p s1 "Some reg" "[TaskTypeDvdIngestion]" locked False now w] sys1] scan by simp
  have moved: "renames s2 = renames s"
    using keepsD [OF still_PostMedia [where R = "renames s"] refl, of "reliable P" "Some b"] post
      keepsD [OF still_scan [where R = "renames s1"] refl, of "reliable P" "Some reg" "[TaskTypeDvdIngestion]" locked False now w] scan
    by simp
  obtain v where v: "jsonb_in P (marshal_ingestion \<lparr>MediaId = i\<rparr>) = Some v"
      "unmarshal_ingestion (jsonb_out P v) = Some \<lparr>MediaId = i\<rparr>" "i \<le> max_serial \<longrightarrow> state_media_id P v = Some (uint i)"
    using jsonb_okE [OF json, of i] by blast
  have "i \<le> max_serial" using fresh_media(2) [OF sys(1) ok(2)] i by simp
  then have "ingestion_of p os_Rename i ?a" "ingests P i ?t"
    using v by (simp_all add: ingestion_of_def new_ingestion_def ingests_def claimed_ingestion_def stamp_def claim_row_def)
  then show thesis
    by (intro that [OF s1(1) s2(1) _ _ _ s2(2) moved sys2])
      (simp_all add: new_ingestion_def claimed_ingestion_def stamp_def claim_row_def)
qed


section \<open>From the claim to the result\<close>

lemma ingestion_reads:
  assumes "ready P s b path" and "i = media_seq (seqs_of s) + 1" and "committed s3 = posted i b path' t (committed s)"
    and "system_ok P {} s3" and "ingests P i t"
  shows "fst (GetMedia (reliable P) i s3) =
    Ok (ingested_view i b path' (taskStatusToDvdIngestion (Some (t_Status t)) (t_Error t)))"
proof -
  have ok: "system_ok P {} s" "media_seq (seqs_of s) < max_serial" using assms(1) by (simp_all add: ready_def)
  note sys = system_okD [OF ok]
  have "good (committed s3) (seqs_of s3)" "one_ingestion P (committed s3)"
    using assms(4) ingest_ok_one by (auto simp: system_ok_def at_rest_def sys_tasks_def)
  moreover have "i \<noteq> 0" using word_succ_greater [OF ok(2)] assms(2) by (auto simp: word_gt_0)
  moreover have "\<lparr>m_id = i, m_media_set_id = pm_MediaSetId b, m_note = pm_Note b\<rparr> \<in> set (media_tbl (committed s3))"
    by (simp add: assms(3))
  ultimately have "outcome (GetMedia (reliable P) i) s3 =
      (Ok (media_view P (committed s3) \<lparr>m_id = i, m_media_set_id = pm_MediaSetId b, m_note = pm_Note b\<rparr>),
       committed s3, seqs_of s3)"
    by (intro GetMedia_outcome(1)) simp_all
  then show ?thesis
    using posted_viewed [OF sys(1) ok(2) assms(2) _ assms(5)] sys(3) assms(2,3) by (simp add: outcome_def)
qed

lemma new_ids_ok:
  assumes "system_ok P X s" and "task_seq (seqs_of s) < max_task_id" and "t_Id t = task_seq (seqs_of s) + 1"
  shows "\<forall>u\<in>set (tasks (posted i b path t (committed s))). task_id_ok (t_Id u)"
    and "\<forall>u\<in>set (tasks (committed s)). t_Id u \<noteq> t_Id t"
proof -
  have "tasks_ok (committed s) (seqs_of s)" using assms(1) good_tasks_ok by (simp add: system_ok_def at_rest_def)
  then show "\<forall>u\<in>set (tasks (posted i b path t (committed s))). task_id_ok (t_Id u)" "\<forall>u\<in>set (tasks (committed s)). t_Id u \<noteq> t_Id t"
    using assms(2,3) by (fastforce simp: tasks_ok_def task_id_ok_def)+
qed

lemma posted_dvd_ingested:
  assumes rd: "ready P s b path" and json: "jsonb_ok P" and reg: "main_registry p os_Rename = Ok reg"
    and i: "i = media_seq (seqs_of s) + 1" and k: "k = task_seq (seqs_of s) + 1" and free: "\<not> locked k"
    and post: "PostMedia (reliable P) (Some b) s = (r1, s1)"
    and scan: "scanAndAssign (reliable P) (Some reg) [TaskTypeDvdIngestion] locked False now w s1 = (r2, s2)"
  shows "r1 = Ok (new_media_view i b path) \<and>
    (\<exists>a. r2 = Ok (Assigned a) \<and>
      (let (r3, s3) = processTask (reliable P) a s2; target = MediaDvdId p PathKindAbsolute i in
       r3 = Ok () \<and>
       (case os_Rename (renames s) (Absolute p path) target of
          None \<Rightarrow>
            renames s3 = renames s @ [(Absolute p path, target)] \<and>
            fst (GetMedia (reliable P) i s3) =
              Ok (ingested_view i b (''media/dvd/'' @ decimal (unat i)) \<lparr>ing_State = DVDIngestionStateDone, ing_ErrorMessage = None\<rparr>)
        | Some e \<Rightarrow>
            renames s3 = renames s \<and>
            fst (GetMedia (reliable P) i s3) =
              Ok (ingested_view i b path \<lparr>ing_State = DVDIngestionStateError,
                ing_ErrorMessage = Some (''failed to rename DVD path: '' @ error_text e)\<rparr>))))"
proof -
  obtain a t where a: "r1 = Ok (new_media_view i b path)" "r2 = Ok (Assigned a)" "ingestion_of p os_Rename i a"
      "a_taskId a = k" and t: "t_Id t = k" "committed s2 = posted i b path t (committed s)" "renames s2 = renames s"
      "system_ok P {} s2" "ingests P i t" "t_Status t = StatusRunning" "t_ParentId t = None" "t_Error t = None"
    by (rule posted_then_claimed [OF rd json reg i k free post scan])
  have ok: "system_ok P {} s" "media_seq (seqs_of s) < max_serial" "task_seq (seqs_of s) < max_task_id"
    using rd by (simp_all add: ready_def)
  have tk: "t_Id t = task_seq (seqs_of s) + 1" using t(1) k by simp
  have good2: "good (committed s2) (seqs_of s2)" using t(4) by (simp add: system_ok_def at_rest_def)
  note ids = new_ids_ok(1) [OF ok(1,3) tk, of i b path, folded t(2)] and others = new_ids_ok(2) [OF ok(1,3) tk]
  note fresh = fresh_media [OF system_okD(1) [OF ok(1,2)] ok(2), folded i]
  have row: "t \<in> set (tasks (committed s2))" and dvd: "\<lparr>d_media_id = i, d_path = path\<rparr> \<in> set (media_dvds (committed s2))"
    by (simp_all add: t(2))
  obtain r3 s3 where proc: "processTask (reliable P) a s2 = (r3, s3)" by fastforce
  have same: "same_server (reliable P) P" by (simp add: same_server_def)
  have sys3: "system_ok P {} s3"
    using step_system_ok [OF json step.work [OF same, of a p os_Rename s2] t(4)] a(3) proc by (simp add: ingestion_of_def)
  let ?now = "clock_at P (calls s2)"
  have fin: "finished (posted i b path' t (committed s)) k ?now g = posted i b path' (stamp ?now (g t)) (committed s)" for path' g
    unfolding finished_def using others t(1) by (intro posted_update) auto
  have ing: "ingests P i (stamp ?now (done_row res None t))" for res
    using t(5) by (simp add: ingests_def stamp_def done_row_def release_def set_state_def)
  show ?thesis
  proof (cases "os_Rename (renames s) (Absolute p path) (MediaDvdId p PathKindAbsolute i)")
    case None
    let ?rel = "''media/dvd/'' @ decimal (unat i)"
    note run = ingest_completes [OF good2 ids row _ _ a(3) dvd _ _ refl, of P]
    have s3: "r3 = Ok ()" "committed s3 = posted i b ?rel (stamp ?now (done_row Completed None t)) (committed s)"
      "renames s3 = renames s @ [(Absolute p path, MediaDvdId p PathKindAbsolute i)]"
      using run None t(1,3,6,7) a(4) proc fresh(4) by (simp_all add: outcome_def resume_parent_def t(2) fin posted_set_path MediaDvdId_relative)
    from ingestion_reads [OF rd i s3(2) sys3 ing] s3 a None proc show ?thesis
      by (simp add: Let_def stamp_def done_row_def Completed_def release_def set_state_def taskStatusToDvdIngestion_def)
  next
    case (Some e)
    let ?msg = "''failed to rename DVD path: '' @ error_text e"
    have "\<exists>v e. v \<in> set (media_dvds (committed s2)) \<and> d_media_id v = i \<and> ?msg = ''failed to rename DVD path: '' @ error_text e \<and>
        os_Rename (renames s2) (Absolute p (d_path v)) (MediaDvdId p PathKindAbsolute i) = Some e"
      using dvd Some t(3) by (intro exI [of _ "\<lparr>d_media_id = i, d_path = path\<rparr>"] exI [of _ e]) simp
    note run = ingest_fails [where msg = ?msg, OF good2 ids row _ a(3) fresh(2) refl disjI2 [OF this], of P]
    have s3: "r3 = Ok ()" "committed s3 = posted i b path (stamp ?now (done_row (Failed ?msg) None t)) (committed s)"
      "renames s3 = renames s"
      using run t(1,3,7) a(4) proc by (simp_all add: outcome_def resume_parent_def t(2) fin)
    from ingestion_reads [OF rd i s3(2) sys3 ing] s3 a Some proc show ?thesis
      by (simp add: Let_def stamp_def done_row_def Failed_def release_def taskStatusToDvdIngestion_def)
  qed
qed

end
