(* ===== verification/VM_Crash.thy ===== *)
theory VM_Crash
  imports VM_EndToEnd
begin

text \<open>
  What becomes of an ingestion when the database fails between the move of the directory and the end of the
  transaction (src/internal/services/media/dvd\_ingestion\_task.go, src/internal/lib/vmtask/worker.go): the
  transaction is rolled back, the move is not, and the next attempt does not find the directory.
\<close>

section \<open>Statements without fault, under any driver\<close>

lemma pg_run_no_fault:
  "fault_at P n = NoFault \<Longrightarrow> pg_run P Tx st (in_tx s lvl t0 n d q) = pg_run (reliable P) Tx st (in_tx s lvl t0 n d q)"
  by (simp add: pg_run.simps in_tx_def Let_def)

lemma QueryOne_no_fault:
  assumes "fault_at P n = NoFault" and "st t0 d q = (Inr (d', [x]), q')"
  shows "QueryOne P Tx st (in_tx s lvl t0 n d q) = (Ok x, in_tx s lvl t0 (Suc n) d' q')"
  using assms by (simp add: QueryOne_reply reply_def pg_run_no_fault pg_run_in_tx rows_result_def one_row_def)

lemma Exec_no_fault:
  assumes "fault_at P n = NoFault" and "st t0 d q = (Inr (d', x), q')"
  shows "Exec P Tx st (in_tx s lvl t0 n d q) = (Ok x, in_tx s lvl t0 (Suc n) d' q')"
  using assms by (simp add: Exec_def pg_run_no_fault pg_run_in_tx)

lemma Handle_moves_any:
  assumes "unmarshal_ingestion bytes = Some \<lparr>MediaId = i\<rparr>" and "i \<le> max_serial"
    and "keyed d_media_id (media_dvds d)" and "v \<in> set (media_dvds d)" and "d_media_id v = i"
    and "os_Rename (renames s) (Absolute p (d_path v)) (MediaDvdId p PathKindAbsolute i) = None"
    and "fault_at P n = NoFault" and "fault_at P (Suc n) = NoFault"
  shows "Handle p os_Rename P k ty bytes (in_tx s lvl t0 n d q) =
    (Ok Completed,
     in_tx (s\<lparr>renames := renames s @ [(Absolute p (d_path v), MediaDvdId p PathKindAbsolute i)]\<rparr>) lvl t0
       (Suc (Suc n)) (set_path i (MediaDvdId p PathKindRelative i) d) q)"
proof -
  have step: "(in_tx s lvl t0 m d q)\<lparr>renames := r\<rparr> = in_tx (s\<lparr>renames := r\<rparr>) lvl t0 m d q" for m r
    by (simp add: in_tx_def)
  have "renames (in_tx s lvl t0 m d q) = renames s" for m by (simp add: in_tx_def)
  moreover have "MediaDvdId p PathKindRelative i \<noteq> []" by (simp add: MediaDvdId_relative)
  ultimately show ?thesis
    using assms
    by (simp add: Handle_def on_error_def
        QueryOne_no_fault [where st = "select_dvd_path i", OF _ select_dvd_path_eval(1)]
        Rename_def step Exec_no_fault [where st = "update_dvd_path i path" for path, OF _ update_dvd_path_eval] ret_def)
qed

section \<open>The update is lost, the move is not\<close>

lemma rolled_back_keeps_move:
  assumes "good (committed s) q0" and "ingestion_of p os_Rename i a"
    and "v \<in> set (media_dvds (committed s))" and "d_media_id v = i"
    and "os_Rename (renames s) (Absolute p (d_path v)) (MediaDvdId p PathKindAbsolute i) = None"
    and "fault_at P (calls s) = NoFault" and "fault_at P (Suc (calls s)) = NoFault" and "fault_at P (Suc (Suc (calls s))) = NoFault"
    and "fault_at P (Suc (Suc (Suc (calls s)))) = Refused e" and "fault_at P (Suc (Suc (Suc (Suc (calls s))))) = NoFault"
    and run: "processTask P a s = (r, s')"
  shows "r \<noteq> Ok ()" and "committed s' = committed s" and "seqs_of s' = seqs_of s"
    and "renames s' = renames s @ [(Absolute p (d_path v), MediaDvdId p PathKindAbsolute i)]"
proof -
  let ?mv = "(Absolute p (d_path v), MediaDvdId p PathKindAbsolute i)" and ?t0 = "clock_at P (calls s)"
  let ?s1 = "\<lambda>n d. in_tx (s\<lparr>renames := renames s @ [?mv]\<rparr>) (Some ReadCommitted) ?t0 n d (seqs_of s)"
  have ok: "keyed d_media_id (media_dvds (committed s))" "i \<le> max_serial"
    using goodM(1) [OF assms(1)] assms(3,4) by (auto simp: media_ok_def serial_ok_def)
  have a: "a_handler a = Handle p os_Rename" "unmarshal_ingestion (a_state a) = Some \<lparr>MediaId = i\<rparr>"
    using assms(2) by (simp_all add: ingestion_of_def)
  note handle = Handle_moves_any [where p = p and os_Rename = os_Rename and s = s,
      OF a(2) ok(2,1) assms(3,4,5) assms(7,8)]
  have begin_tx: "Begin P [ReadCommitted] s = (Ok (), in_tx s (Some ReadCommitted) ?t0 (Suc (calls s)) (committed s) (seqs_of s))"
    using assms(6) by (simp add: Begin_def Let_def in_tx_def)
  have exec: "Exec P Tx st (?s1 n d) = (driver_result (Inl e), (?s1 (Suc n) d)\<lparr>txn :=
      Some \<lparr>work = d, aborted = True, began = ?t0, iso = Some ReadCommitted\<rparr>\<rparr>)"
    if "n = Suc (Suc (Suc (calls s)))" for st n d
    using assms(9) that by (simp add: Exec_def pg_run.simps in_tx_def Let_def)
  have bad: "\<exists>y. driver_result (Inl e :: goerr + nat) = Err y \<or> driver_result (Inl e :: goerr + nat) = Panic y"
    using driver_result_Inl [of e, where 'a = nat] by (cases "driver_result (Inl e :: goerr + nat)") auto
  have roll: "Rollback P ((?s1 n d)\<lparr>txn := Some T\<rparr>) = (Ok (), s\<lparr>renames := renames s @ [?mv], calls := Suc n, txn := None\<rparr>)"
    if "n = Suc (Suc (Suc (Suc (calls s))))" for n d T
    using assms(10) that by (simp add: Rollback_def Let_def in_tx_def)
  have "\<exists>r1. r1 \<noteq> Ok () \<and> processTask P a s =
      (r1, s\<lparr>renames := renames s @ [?mv], calls := Suc (Suc (Suc (Suc (Suc (calls s))))), txn := None\<rparr>)"
    using bad
    by (elim exE disjE)
      (simp_all add: processTask_def with_tx_def check_def begin_tx defer_Rollback_def a(1) handle applyResult_def Completed_def
        completeTask_def exec roll)
  then show "r \<noteq> Ok ()" "committed s' = committed s" "seqs_of s' = seqs_of s" "renames s' = renames s @ [?mv]"
    using run by auto
qed

text \<open>
  A file system in which a directory can be moved once: afterwards it is not found at its old place.
\<close>

definition moves_once :: "goerr \<Rightarrow> os_rename" where
  "moves_once not_found moved oldPath newPath = (if oldPath \<in> fst ` set moved then Some not_found else None)"

lemma lost_ingestion:
  assumes good: "good (committed s) (seqs_of s)" and ids: "\<forall>u\<in>set (tasks (committed s)). task_id_ok (t_Id u)"
    and a: "ingestion_of p (moves_once enoent) i a" and t: "t \<in> set (tasks (committed s))" "t_Id t = a_taskId a"
    and v: "v \<in> set (media_dvds (committed s))" "d_media_id v = i" and first: "Absolute p (d_path v) \<notin> fst ` set (renames s)"
    and faults: "\<forall>n. fault_at P n = (if n = calls s + 3 then Refused e else NoFault)"
    and run: "processTask P a s = (r, s1)" and again: "processTask (reliable P') a s1 = (r', s2)"
  shows "r \<noteq> Ok () \<and> r' = Ok () \<and>
    renames s2 = renames s @ [(Absolute p (d_path v), MediaDvdId p PathKindAbsolute i)] \<and>
    media_dvds (committed s2) = media_dvds (committed s) \<and>
    (\<exists>u\<in>set (tasks (committed s2)). t_Id u = a_taskId a \<and> t_Status u = StatusFailed \<and>
       t_Error u = Some (''failed to rename DVD path: '' @ error_text enoent))"
proof -
  let ?mv = "(Absolute p (d_path v), MediaDvdId p PathKindAbsolute i)"
  have "moves_once enoent (renames s) (Absolute p (d_path v)) (MediaDvdId p PathKindAbsolute i) = None"
    using first by (simp add: moves_once_def)
  from rolled_back_keeps_move [OF good a v this _ _ _ _ _ run] faults
  have s1: "r \<noteq> Ok ()" "committed s1 = committed s" "seqs_of s1 = seqs_of s" "renames s1 = renames s @ [?mv]"
    by (simp_all add: numeral_3_eq_3)
  let ?msg = "''failed to rename DVD path: '' @ error_text enoent"
  have "moves_once enoent (renames s1) (Absolute p (d_path v)) (MediaDvdId p PathKindAbsolute i) = Some enoent"
    by (simp add: moves_once_def s1(4))
  then have why: "\<exists>v e. v \<in> set (media_dvds (committed s1)) \<and> d_media_id v = i \<and> ?msg = ''failed to rename DVD path: '' @ error_text e \<and>
      moves_once enoent (renames s1) (Absolute p (d_path v)) (MediaDvdId p PathKindAbsolute i) = Some e"
    using v s1(2) by (intro exI [of _ v] exI [of _ enoent]) simp
  have i: "i \<le> max_serial" using goodM(1) [OF good] v by (auto simp: media_ok_def serial_ok_def)
  note fails = ingest_fails [where msg = ?msg and s = s1 and P = P', unfolded s1(2), OF good ids t a i refl disjI2 [OF why [unfolded s1(2)]]]
  let ?row = "stamp (clock_at P' (calls s1)) (done_row (Failed ?msg) None t)"
  let ?fin = "finished (committed s) (a_taskId a) (clock_at P' (calls s1)) (done_row (Failed ?msg) None)"
  have s2: "r' = Ok ()" "committed s2 = resume_parent ?fin (t_ParentId t) (clock_at P' (calls s1))" "renames s2 = renames s1"
    using fails again by (simp_all add: outcome_def)
  have status: "t_Status ?row = StatusFailed" "t_Error ?row = Some ?msg" "t_Id ?row = a_taskId a"
    using t(2) by (simp_all add: stamp_def done_row_def Failed_def release_def)
  have "?row \<in> set (tasks ?fin)" using t by (auto simp: finished_def set_update_where)
  then have "?row \<in> set (tasks (committed s2))"
    unfolding s2(2) using status(1)
    by (auto simp: resume_parent_def resumed_def set_update_where image_iff split: option.splits)
  with status have "\<exists>u\<in>set (tasks (committed s2)). t_Id u = a_taskId a \<and> t_Status u = StatusFailed \<and> t_Error u = Some ?msg"
    by (intro bexI [of _ ?row] conjI)
  moreover have "media_dvds (committed s2) = media_dvds (committed s)"
    unfolding s2(2) by (simp add: resume_parent_def resumed_def finished_def split: option.splits)
  ultimately show ?thesis using s1 s2 by simp
qed

end
