(* ===== verification/VM_SetSpec.thy ===== *)
theory VM_SetSpec
  imports VM_MediaSets "HOL-Library.Multiset"
begin

text \<open>
  The abstract specification of the media sets: a map from ids to what a client reads. Posting is a map
  update, reading a lookup, deleting a removal, and patching edits the entry. The handlers of
  media\_set.go implement it, with the rows and links of the tables behind the map.
\<close>

section \<open>Tables as maps\<close>

definition store :: "('row \<Rightarrow> uint32) \<Rightarrow> ('row \<Rightarrow> 'v) \<Rightarrow> 'row list \<Rightarrow> uint32 \<Rightarrow> 'v option" where
  "store key view rows i = map_option view (find (\<lambda>r. key r = i) rows)"

lemma find_keyed:
  assumes "keyed key rows" and "r \<in> set rows" and "key r = i"
  shows "find (\<lambda>r. key r = i) rows = Some r"
  using assms
proof (induction rows)
  case (Cons x rows)
  then show ?case by (cases "key x = i") (auto simp: keyed_def image_iff)
qed simp

lemma store_Some: "keyed key rows \<Longrightarrow> r \<in> set rows \<Longrightarrow> key r = i \<Longrightarrow> store key view rows i = Some (view r)"
  by (simp add: store_def find_keyed)

lemma store_None: "i \<notin> key ` set rows \<Longrightarrow> store key view rows i = None"
  by (auto simp: store_def find_None_iff)

lemma store_eq_Some:
  "store key view rows i = Some v \<Longrightarrow> \<exists>r\<in>set rows. key r = i \<and> v = view r"
  by (auto simp: store_def find_Some_iff)

lemma dom_store: "dom (store key view rows) = key ` set rows"
proof (rule set_eqI)
  fix i show "i \<in> dom (store key view rows) \<longleftrightarrow> i \<in> key ` set rows"
    using store_None [of i key rows view] store_eq_Some [of key view rows i] by (auto simp: dom_def store_def find_None_iff)
qed

lemma store_Nil: "store key view [] = Map.empty"
  by (auto simp: store_def)

lemma store_Cons: "store key view (r # rows) = (store key view rows)(key r \<mapsto> view r)"
  by (auto simp: store_def)

lemmas store_rows = store_Nil store_Cons fun_upd_twist

lemma store_snoc:
  "i \<notin> key ` set rows \<Longrightarrow> key r = i \<Longrightarrow> (\<And>x. x \<in> set rows \<Longrightarrow> view' x = view x) \<Longrightarrow>
     store key view' (rows @ [r]) = (store key view rows)(i \<mapsto> view' r)"
  by (induction rows) (auto simp: store_rows)

lemma store_filter:
  "(\<And>x. x \<in> set rows \<Longrightarrow> key x \<noteq> i \<Longrightarrow> view' x = view x) \<Longrightarrow>
     store key view' (filter (\<lambda>r. key r \<noteq> i) rows) = (store key view rows)(i := None)"
  by (induction rows) (auto simp: store_rows)

lemma store_update:
  assumes "\<And>x. x \<in> set rows \<Longrightarrow> key x \<noteq> i \<Longrightarrow> view' x = view x"
    and "\<And>x. x \<in> set rows \<Longrightarrow> key x = i \<Longrightarrow> key (g x) = i \<and> view' (g x) = h (view x)"
  shows "store key view' (update_where (\<lambda>r. key r = i) g rows) = (store key view rows)(i := map_option h (store key view rows i))"
  using assms by (induction rows) (auto simp: store_rows update_where_def)

section \<open>The specification\<close>

type_synonym sets = "uint32 \<Rightarrow> MediaSet option"

definition post_spec :: "uint32 \<Rightarrow> PostMediaSetBody \<Rightarrow> sets \<Rightarrow> sets" where
  "post_spec i b m =
     m(i \<mapsto> \<lparr>mset_Id = i, mset_Name = ps_Name b, mset_Note = ps_Note b, mset_CardIds = sort (ps_CardIds b)\<rparr>)"

definition delete_spec :: "uint32 \<Rightarrow> sets \<Rightarrow> sets" where
  "delete_spec i m = m(i := None)"

definition patched :: "MediaSetPatch \<Rightarrow> MediaSet \<Rightarrow> MediaSet" where
  "patched p e =
     (case sp_Name p of Some name \<Rightarrow> e\<lparr>mset_Name := name\<rparr> | None \<Rightarrow>
      case sp_Note p of Some note \<Rightarrow> e\<lparr>mset_Note := Some note\<rparr> | None \<Rightarrow>
      if sp_ClearNote p = Some True then e\<lparr>mset_Note := None\<rparr> else
      case sp_AddCardId p of Some c \<Rightarrow> e\<lparr>mset_CardIds := insort c (mset_CardIds e)\<rparr> | None \<Rightarrow>
      case sp_RemoveCardId p of Some c \<Rightarrow> e\<lparr>mset_CardIds := remove1 c (mset_CardIds e)\<rparr> | None \<Rightarrow> e)"

definition patch_spec :: "uint32 \<Rightarrow> MediaSetPatch list \<Rightarrow> sets \<Rightarrow> sets" where
  "patch_spec i ps m = m(i := map_option (fold patched ps) (m i))"

text \<open>What the tables stand for.\<close>

definition sets_of :: "db \<Rightarrow> sets" where
  "sets_of d = store ms_id (set_view d) (media_sets d)"

section \<open>The tables implement it\<close>

lemma set_view_cong:
  assumes "filter (\<lambda>l. fst l = ms_id r) (media_sets_x_cards d') = filter (\<lambda>l. fst l = ms_id r) (media_sets_x_cards d)"
  shows "set_view d' r = set_view d r"
  using assms by (simp add: set_view_def)

lemma sets_of_post:
  assumes "good d q" and "media_set_seq q < max_serial" and "i = media_set_seq q + 1"
  shows "sets_of (add_media_set i b d) = post_spec i b (sets_of d)"
proof -
  let ?row = "\<lparr>ms_id = i, ms_name = ps_Name b, ms_note = ps_Note b\<rparr>" and ?d = "add_media_set i b d"
  note fresh = fresh_set [OF assms(1,2), folded assms(3)]
  have old: "set_view ?d r = set_view d r" if "r \<in> set (media_sets d)" for r
  proof -
    have "ms_id r \<noteq> i" using that fresh(1) by auto
    then show ?thesis by (intro set_view_cong) (auto simp: add_media_set_def filter_map comp_def)
  qed
  have "filter (\<lambda>l. fst l = i) (media_sets_x_cards d) = []" using fresh(3) by (force simp: filter_empty_conv)
  then have new: "set_view ?d ?row =
      \<lparr>mset_Id = i, mset_Name = ps_Name b, mset_Note = ps_Note b, mset_CardIds = sort (ps_CardIds b)\<rparr>"
    by (simp add: set_view_def set_of_row_def add_media_set_def comp_def filter_map)
  have rows: "media_sets ?d = media_sets d @ [?row]" by (simp add: add_media_set_def)
  show ?thesis
    unfolding sets_of_def rows post_spec_def new [symmetric] by (rule store_snoc) (use fresh(1) old in auto)
qed

lemma sets_of_delete: "sets_of (remove_media_set i d) = delete_spec i (sets_of d)"
proof -
  have rows: "media_sets (remove_media_set i d) = filter (\<lambda>r. ms_id r \<noteq> i) (media_sets d)"
    by (simp add: remove_media_set_def)
  have "set_view (remove_media_set i d) r = set_view d r" if "ms_id r \<noteq> i" for r
    using that by (intro set_view_cong) (auto simp: remove_media_set_def intro!: filter_cong)
  then show ?thesis
    unfolding sets_of_def delete_spec_def rows by (intro store_filter)
qed

lemma sort_snoc_insort: "sort (xs @ [x :: 'a :: linorder]) = insort x (sort xs)"
  by (rule properties_for_sort) (simp_all add: sorted_insort)

lemma sort_remove1: "sort (remove1 x xs) = remove1 x (sort (xs :: 'a :: linorder list))"
  by (rule properties_for_sort) (simp_all add: sorted_remove1)

lemma linked_remove:
  assumes "distinct ls"
  shows "map snd (filter (\<lambda>l. fst l = i \<and> l \<noteq> (i, c)) ls) = remove1 c (map snd (filter (\<lambda>l. fst l = i) ls))"
  using assms
proof (induction ls)
  case (Cons l ls)
  then show ?case
  proof (cases "l = (i, c)")
    case True
    then have "filter (\<lambda>l. fst l = i \<and> l \<noteq> (i, c)) ls = filter (\<lambda>l. fst l = i) ls"
      using Cons.prems by (intro filter_cong) auto
    then show ?thesis using True by simp
  qed (cases l, auto)
qed simp

lemma sets_of_patch:
  assumes "set_patch_ok d i p" and "distinct (media_sets_x_cards d)"
  shows "sets_of (apply_set_patch i p d) = (sets_of d)(i := map_option (patched p) (sets_of d i))"
proof -
  have edit: "sets_of (edit_set i g d) = (sets_of d)(i := map_option h (sets_of d i))"
    if "\<And>r. ms_id r = i \<Longrightarrow> ms_id (g r) = i \<and> set_view d (g r) = h (set_view d r)" for g h
  proof -
    have "set_view (edit_set i g d) = set_view d" by (intro ext set_view_cong) (simp add: edit_set_def)
    then show ?thesis unfolding sets_of_def using that by (simp add: edit_set_def) (rule store_update; simp)
  qed
  have link: "sets_of (d\<lparr>media_sets_x_cards := ls\<rparr>) = (sets_of d)(i := map_option h (sets_of d i))"
    if others: "\<And>j. j \<noteq> i \<Longrightarrow> filter (\<lambda>l. fst l = j) ls = filter (\<lambda>l. fst l = j) (media_sets_x_cards d)"
      and own: "\<And>r. ms_id r = i \<Longrightarrow> set_view (d\<lparr>media_sets_x_cards := ls\<rparr>) r = h (set_view d r)" for ls h
  proof -
    have "update_where (\<lambda>r. ms_id r = i) (\<lambda>r. r) (media_sets d) = media_sets d" by (simp add: update_where_def)
    moreover have "set_view (d\<lparr>media_sets_x_cards := ls\<rparr>) r = set_view d r" if "ms_id r \<noteq> i" for r
      using others [OF that] by (intro set_view_cong) simp
    ultimately show ?thesis
      unfolding sets_of_def
      using own store_update [of "media_sets d" ms_id i "set_view (d\<lparr>media_sets_x_cards := ls\<rparr>)" "set_view d" "\<lambda>r. r" h] by simp
  qed
  have media: "sets_of (move_media x m d) = sets_of d" for x m
  proof -
    have "set_view (move_media x m d) = set_view d" by (intro ext set_view_cong) (simp add: move_media_def)
    then show ?thesis by (simp add: sets_of_def move_media_def)
  qed
  have same: "(sets_of d)(i := map_option (\<lambda>e. e) (sets_of d i)) = sets_of d" by (simp add: option.map_ident)
  have "set_patch_fields p = 1" using assms(1) by (simp add: set_patch_ok_iff)
  then show ?thesis
  proof (cases rule: set_patch_cases)
    case (name x)
    then show ?thesis
      using edit [of "\<lambda>m. m\<lparr>ms_name := x\<rparr>" "patched p"]
      by (simp add: apply_set_patch_def patched_def set_view_def set_of_row_def)
  next
    case (noted x)
    then show ?thesis
      using edit [of "\<lambda>m. m\<lparr>ms_note := Some x\<rparr>" "patched p"]
      by (simp add: apply_set_patch_def patched_def set_view_def set_of_row_def)
  next
    case clear
    then show ?thesis
      using edit [of "\<lambda>m. m\<lparr>ms_note := None\<rparr>" "patched p"]
      by (simp add: apply_set_patch_def patched_def set_view_def set_of_row_def)
  next
    case (add x)
    then show ?thesis
      using link [of "media_sets_x_cards d @ [(i, x)]" "patched p"]
      by (simp add: apply_set_patch_def patched_def set_view_def sort_snoc_insort)
  next
    case (remove x)
    have "filter (\<lambda>l. fst l = j \<and> l \<noteq> (i, x)) (media_sets_x_cards d) = filter (\<lambda>l. fst l = j) (media_sets_x_cards d)"
      if "j \<noteq> i" for j using that by (intro filter_cong) auto
    with remove show ?thesis
      using link [of "filter (\<lambda>l. l \<noteq> (i, x)) (media_sets_x_cards d)" "patched p"] linked_remove [OF assms(2), of i x]
      by (auto simp: apply_set_patch_def patched_def set_view_def sort_remove1 conj_commute)
  next
    case (join x)
    then have "patched p = (\<lambda>e. e)" by (intro ext) (simp add: patched_def)
    with join show ?thesis by (simp add: apply_set_patch_def media same)
  next
    case (leave x)
    then have "patched p = (\<lambda>e. e)" by (intro ext) (simp add: patched_def)
    with leave show ?thesis by (simp add: apply_set_patch_def media same)
  qed
qed


lemma sets_of_patches:
  assumes "good d q0" and "i \<in> ms_id ` set (media_sets d)" and "set_patches_ok d i ps"
  shows "sets_of (fold (apply_set_patch i) ps d) = patch_spec i ps (sets_of d)"
  using assms
proof (induction ps arbitrary: d)
  case Nil
  then show ?case by (simp add: patch_spec_def option.map_id0 id_def option.map_ident)
next
  case (Cons p ps)
  let ?d = "apply_set_patch i p d"
  have p: "set_patch_ok d i p" using Cons.prems(3) by simp
  have "good ?d q0" using patch_media_set_tx [OF Cons.prems(1,2) p] by blast
  then have "sets_of (fold (apply_set_patch i) ps ?d) = patch_spec i ps (sets_of ?d)"
    using Cons.prems(2,3) by (intro Cons.IH) (simp_all add: apply_set_patch_ids)
  moreover have "sets_of ?d = (sets_of d)(i := map_option (patched p) (sets_of d i))"
    using linksD(1) [OF goodM(2) [OF Cons.prems(1)]] by (intro sets_of_patch p)
  ultimately show ?case by (simp add: patch_spec_def option.map_comp comp_def)
qed

section \<open>The handlers implement it\<close>

lemma sets_ofD:
  assumes "good d q"
  shows "r \<in> set (media_sets d) \<Longrightarrow> ms_id r = i \<Longrightarrow> sets_of d i = Some (set_view d r)"
    and "i \<in> ms_id ` set (media_sets d) \<longleftrightarrow> sets_of d i \<noteq> None"
  using store_Some [OF set_rows_ok(2) [OF assms]] dom_store [of ms_id "set_view d" "media_sets d"]
  by (auto simp: sets_of_def dom_def)

lemma GetMediaSet_refines:
  assumes "good (committed s) q0" and "i \<noteq> 0" and "i \<le> max_serial"
  shows "outcome (GetMediaSet (reliable P) i) s =
    (case sets_of (committed s) i of
       Some e \<Rightarrow> Ok e | None \<Rightarrow> Err (HttpError ProblemNotFound 404 (errorf (set_not_found i))),
     committed s, seqs_of s)"
proof (cases "i \<in> ms_id ` set (media_sets (committed s))")
  case True
  then obtain r where "r \<in> set (media_sets (committed s))" "ms_id r = i" by blast
  with GetMediaSet_outcome(1) [OF assms] sets_ofD(1) [OF assms(1)] show ?thesis by simp
next
  case False
  with GetMediaSet_outcome(2) [OF assms] sets_ofD(2) [OF assms(1), of i] show ?thesis by simp
qed

lemma PostMediaSet_refines:
  assumes good: "good (committed s) (seqs_of s)" and "media_set_seq (seqs_of s) < max_serial"
    and "i = media_set_seq (seqs_of s) + 1" and "ps_Name b \<noteq> []" and "cards_ok (committed s) (ps_CardIds b)"
    and run: "PostMediaSet (reliable P) (Some b) s = (r, s')"
  shows "sets_of (committed s') = post_spec i b (sets_of (committed s))" and "r = Ok (the (sets_of (committed s') i))"
    and "sets_of (committed s) i = None"
proof -
  have "i \<notin> ms_id ` set (media_sets (committed s))" using fresh_set(1) [OF good assms(2)] assms(3) by simp
  then show "sets_of (committed s) i = None" using sets_ofD(2) [OF good] by blast
  from PostMediaSet_outcome(1) [OF good assms(4,2,3,5), of P] run
  have s': "committed s' = add_media_set i b (committed s)"
      "r = Ok \<lparr>mset_Id = i, mset_Name = ps_Name b, mset_Note = ps_Note b, mset_CardIds = sort (ps_CardIds b)\<rparr>"
    by (simp_all add: outcome_def)
  with sets_of_post [OF good assms(2,3), of b]
  show "sets_of (committed s') = post_spec i b (sets_of (committed s))" "r = Ok (the (sets_of (committed s') i))"
    by (simp_all add: post_spec_def)
qed

lemma DeleteMediaSet_refines:
  assumes good: "good (committed s) q0" and "i \<noteq> 0" and "i \<le> max_serial"
    and run: "DeleteMediaSet (reliable P) i s = (r, s')"
  shows "(\<exists>u. r = Ok u) \<longleftrightarrow>
      sets_of (committed s) i \<noteq> None \<and> (\<forall>m\<in>set (media_tbl (committed s)). m_media_set_id m \<noteq> Some i)"
    and "sets_of (committed s') = (if \<exists>u. r = Ok u then delete_spec i (sets_of (committed s)) else sets_of (committed s))"
  using DeleteMediaSet_outcome [OF assms(1-3), of P] run sets_ofD(2) [OF good, of i]
  by (auto simp: outcome_def sets_of_delete split: if_splits)

lemma PatchMediaSet_refines:
  assumes good: "good (committed s) q0" and "i \<noteq> 0" and "sets_of (committed s) i \<noteq> None" and "set_patches_ok (committed s) i ps"
    and run: "PatchMediaSet (reliable P) i (Some ps) s = (r, s')"
  shows "sets_of (committed s') = patch_spec i ps (sets_of (committed s))" and "r = Ok (the (sets_of (committed s') i))"
proof -
  have i: "i \<in> ms_id ` set (media_sets (committed s))" using assms(3) sets_ofD(2) [OF good] by simp
  let ?d = "fold (apply_set_patch i) ps (committed s)"
  obtain r' where r': "r' \<in> set (media_sets ?d)" "ms_id r' = i"
      "outcome (PatchMediaSet (reliable P) i (Some ps)) s = (Ok (set_view ?d r'), ?d, seqs_of s)"
    using PatchMediaSet_outcome [OF good assms(2) i assms(4) refl, of P] by blast
  then have s': "r = Ok (set_view ?d r')" "committed s' = ?d" using run by (simp_all add: outcome_def)
  show "sets_of (committed s') = patch_spec i ps (sets_of (committed s))"
    using sets_of_patches [OF good i assms(4)] s' by simp
  have "good ?d q0"
    using patch_sets_tx [OF good i assms(4)] by blast
  from sets_ofD(1) [OF this r'(1,2)] s' show "r = Ok (the (sets_of (committed s') i))" by simp
qed

end
