(* ===== verification/VM_Resource.thy ===== *)
theory VM_Resource
  imports VM_System VM_SetSpec
begin

text \<open>
  The contract that the four kinds of resources share (cards and movie edition kinds of the catalog, media,
  media sets): a read looks up a map, and a delete takes entries out of it. The client's facts, that a deleted
  resource is not found afterwards and that all other reads are unchanged, are proved once.
\<close>

section \<open>The contract\<close>

locale resource =
  fixes ok :: "sess \<Rightarrow> bool"
    and entries :: "db \<Rightarrow> uint32 \<Rightarrow> 'v option"
    and gone :: "db \<Rightarrow> uint32 \<Rightarrow> uint32 set"
    and Read :: "uint32 \<Rightarrow> 'v prog"
    and Remove :: "uint32 \<Rightarrow> unit prog"
    and missing :: "uint32 \<Rightarrow> goerr"
  assumes Read: "ok s \<Longrightarrow> i \<noteq> 0 \<Longrightarrow> i \<le> max_serial \<Longrightarrow>
      fst (Read i s) = (case entries (committed s) i of Some v \<Rightarrow> Ok v | None \<Rightarrow> Err (missing i))"
    and Remove: "ok s \<Longrightarrow> i \<noteq> 0 \<Longrightarrow> i \<le> max_serial \<Longrightarrow> Remove i s = (Ok u, s') \<Longrightarrow>
      entries (committed s') = entries (committed s) |` (- gone (committed s) i)"
    and Remove_ok: "ok s \<Longrightarrow> ok (snd (Remove i s))"
    and gone_self: "i \<in> gone d i"
begin

lemma read_after_remove:
  assumes "ok s" and "i \<noteq> 0" and "i \<le> max_serial" and "Remove i s = (Ok u, s')" and "j \<noteq> 0" and "j \<le> max_serial"
  shows "fst (Read j s') = (if j \<in> gone (committed s) i then Err (missing j) else fst (Read j s))"
proof -
  have "ok s'" using Remove_ok [OF assms(1), of i] assms(4) by simp
  then show ?thesis
    using Read [OF assms(1,5,6)] Read [OF _ assms(5,6)] Remove [OF assms(1-4)] by simp
qed

lemma removed_is_missing:
  assumes "ok s" and "i \<noteq> 0" and "i \<le> max_serial" and "Remove i s = (Ok u, s')"
  shows "fst (Read i s') = Err (missing i)"
  using read_after_remove [OF assms assms(2,3)] gone_self by simp

end

section \<open>Tables as maps\<close>

definition kinds_of :: "db \<Rightarrow> uint32 \<Rightarrow> MovieEditionKind option" where
  "kinds_of d = store k_id kind_of_row (movie_edition_kinds d)"

definition cards_of :: "db \<Rightarrow> uint32 \<Rightarrow> Card option" where
  "cards_of d = store c_id (card_view d) (catalog_cards d)"

definition medias_of :: "pg \<Rightarrow> db \<Rightarrow> uint32 \<Rightarrow> Media option" where
  "medias_of P d = store m_id (media_view P d) (media_tbl d)"

lemma restrict_upd: "m(i := None) = m |` (- {i})"
  by (auto simp: restrict_map_def)

lemma store_drop:
  "(\<And>x. x \<in> set rows \<Longrightarrow> key x \<notin> X \<Longrightarrow> view' x = view x) \<Longrightarrow>
     store key view' (filter (\<lambda>r. key r \<notin> X) rows) = store key view rows |` (- X)"
  by (induction rows) (auto simp: store_rows)

lemma find_filter: "(\<And>x. R x \<Longrightarrow> Q x) \<Longrightarrow> find R (filter Q xs) = find R xs"
  by (induction xs) auto

section \<open>The resources fulfil it\<close>

interpretation kind_resource: resource at_rest kinds_of "\<lambda>d i. {i}" "GetMovieEditionKind (reliable P)"
    "DeleteMovieEditionKind (reliable P)"
    "\<lambda>i. HttpError ProblemNotFound 404 (errorf (''movie_edition_kind with id '' @ decimal (unat i) @ '' not found''))" for P
proof
  fix s s' :: sess and i :: uint32 and u :: unit
  show "at_rest (snd (DeleteMovieEditionKind (reliable P) i s))" if "at_rest s"
    using serve_good [OF that, of "reliable P" "ReqDeleteKind i"] by simp
  assume s: "at_rest s" and i: "i \<noteq> 0" "i \<le> max_serial"
  then have good: "good (committed s) (seqs_of s)" by (simp add: at_rest_def)
  let ?k = "movie_edition_kinds (committed s)"
  have keyed: "keyed k_id ?k" using goodD(1) [OF good] by (simp add: serial_ok_def)
  show "fst (GetMovieEditionKind (reliable P) i s) = (case kinds_of (committed s) i of Some v \<Rightarrow> Ok v
      | None \<Rightarrow> Err (HttpError ProblemNotFound 404 (errorf (''movie_edition_kind with id '' @ decimal (unat i) @ '' not found''))))"
  proof (cases "i \<in> k_id ` set ?k")
    case True
    then obtain k where k: "k \<in> set ?k" "k_id k = i" by blast
    with GetMovieEditionKind_outcome(1) [OF good i] show ?thesis
      by (simp add: outcome_def kinds_of_def store_Some [OF keyed k])
  next
    case False
    with GetMovieEditionKind_outcome(2) [OF good i] show ?thesis by (simp add: outcome_def kinds_of_def store_None)
  qed
  assume run: "DeleteMovieEditionKind (reliable P) i s = (Ok u, s')"
  have k: "i \<in> k_id ` set ?k"
    by (rule ccontr) (use run DeleteMovieEditionKind_absent [OF i, of s P] in \<open>simp add: outcome_def\<close>)
  have "i \<notin> e_kind_id ` set (catalog_movie_editions (committed s))"
    using run DeleteMovieEditionKind_used [OF good i, of P] by (auto simp: outcome_def)
  from DeleteMovieEditionKind_removes [OF good i k this, of P] run
  show "kinds_of (committed s') = kinds_of (committed s) |` (- {i})"
    by (simp add: outcome_def kinds_of_def store_filter restrict_upd [symmetric])
qed simp

interpretation set_resource: resource at_rest sets_of "\<lambda>d i. {i}" "GetMediaSet (reliable P)"
    "DeleteMediaSet (reliable P)" "\<lambda>i. HttpError ProblemNotFound 404 (errorf (set_not_found i))" for P
proof
  fix s s' :: sess and i :: uint32 and u :: unit
  show "at_rest (snd (DeleteMediaSet (reliable P) i s))" if "at_rest s"
    using serve_good [OF that, of "reliable P" "ReqDeleteSet i"] by simp
  assume s: "at_rest s" and i: "i \<noteq> 0" "i \<le> max_serial"
  then have good: "good (committed s) (seqs_of s)" by (simp add: at_rest_def)
  show "fst (GetMediaSet (reliable P) i s) = (case sets_of (committed s) i of Some v \<Rightarrow> Ok v
      | None \<Rightarrow> Err (HttpError ProblemNotFound 404 (errorf (set_not_found i))))"
    using GetMediaSet_refines [OF good i, of P] by (simp add: outcome_def)
  assume "DeleteMediaSet (reliable P) i s = (Ok u, s')"
  from DeleteMediaSet_refines(2) [OF good i this] show "sets_of (committed s') = sets_of (committed s) |` (- {i})"
    by (simp add: delete_spec_def restrict_upd)
qed simp

interpretation card_resource: resource at_rest cards_of doomed "GetCard (reliable P)" "DeleteCard (reliable P)"
    "\<lambda>i. HttpError ProblemNotFound 404 (errorf (card_not_found i))" for P
proof
  fix s s' :: sess and i :: uint32 and u :: unit and d :: db
  show "i \<in> doomed d i" by (simp add: doomed_def)
  show "at_rest (snd (DeleteCard (reliable P) i s))" if "at_rest s"
    using serve_good [OF that, of "reliable P" "ReqDeleteCard i"] by simp
  assume s: "at_rest s" and i: "i \<noteq> 0" "i \<le> max_serial"
  then have good: "good (committed s) (seqs_of s)" by (simp add: at_rest_def)
  let ?c = "catalog_cards (committed s)"
  have keyed: "keyed c_id ?c" using good_cards [OF good] by (simp add: serial_ok_def)
  show "fst (GetCard (reliable P) i s) = (case cards_of (committed s) i of Some v \<Rightarrow> Ok v
      | None \<Rightarrow> Err (HttpError ProblemNotFound 404 (errorf (card_not_found i))))"
  proof (cases "i \<in> c_id ` set ?c")
    case True
    then obtain c where c: "c \<in> set ?c" "c_id c = i" by blast
    with GetCard_found [OF good i] show ?thesis by (simp add: outcome_def cards_of_def store_Some [OF keyed c])
  next
    case False
    with GetCard_absent [OF i] show ?thesis by (simp add: outcome_def cards_of_def store_None)
  qed
  assume run: "DeleteCard (reliable P) i s = (Ok u, s')"
  let ?X = "doomed (committed s) i"
  have "i \<in> c_id ` set ?c" by (rule ccontr) (use run DeleteCard_absent [OF i, of s P] in \<open>simp add: outcome_def\<close>)
  with DeleteCard_cascade [OF good i, of P] run have d: "committed s' = drop_cards ?X (committed s)" by (simp add: outcome_def)
  have rows: "catalog_cards (drop_cards ?X (committed s)) = filter (\<lambda>c. c_id c \<notin> ?X) ?c" by (simp add: drop_cards_def)
  have "card_view (drop_cards ?X (committed s)) c = card_view (committed s) c" if "c_id c \<notin> ?X" for c
  proof -
    have "movie_of (drop_cards ?X (committed s)) (c_id c) = movie_of (committed s) (c_id c)"
      "edition_of (drop_cards ?X (committed s)) (c_id c) = edition_of (committed s) (c_id c)"
      using that by (auto simp: movie_of_def edition_of_def drop_cards_def intro!: find_filter)
    then show ?thesis by (simp add: card_view_def)
  qed
  then show "cards_of (committed s') = cards_of (committed s) |` (- ?X)"
    unfolding cards_of_def d rows by (intro store_drop)
qed


text \<open>Media are read with their ingestion task, so that no media may have two.\<close>

definition media_rest :: "pg \<Rightarrow> sess \<Rightarrow> bool" where
  "media_rest P s = (at_rest s \<and> one_ingestion P (committed s))"

lemma media_rest_system: "system_ok P X s \<Longrightarrow> media_rest P s"
  by (auto simp: media_rest_def system_ok_def sys_tasks_def intro: ingest_ok_one)

lemma DeleteMedia_tasks: "tasks (committed (snd (DeleteMedia (reliable P) i s))) = tasks (committed s)"
proof -
  have "tasks (remove_media i d) = tasks d" for d by (simp add: remove_media_def)
  then have "tasks (fst (snd (outcome (DeleteMedia (reliable P) i) s))) = tasks (committed s)"
    by (auto simp: DeleteMedia_def wp_rules delete_media_def modify_stmt_def int4_def)
  then show ?thesis by (simp add: outcome_def)
qed

interpretation media_resource: resource "media_rest P" "medias_of P" "\<lambda>d i. {i}" "GetMedia (reliable P)" "DeleteMedia (reliable P)"
    "\<lambda>i. HttpError ProblemNotFound 404 (errorf (media_not_found i))" for P
proof
  fix s s' :: sess and i :: uint32 and u :: unit
  show "media_rest P (snd (DeleteMedia (reliable P) i s))" if "media_rest P s"
    using that serve_good [of s "reliable P" "ReqDeleteMedia i"] DeleteMedia_tasks [of P i s]
    by (simp add: media_rest_def one_ingestion_def)
  assume s: "media_rest P s" and i: "i \<noteq> 0" "i \<le> max_serial"
  then have good: "good (committed s) (seqs_of s)" and one: "one_ingestion P (committed s)"
    by (simp_all add: media_rest_def at_rest_def)
  let ?m = "media_tbl (committed s)"
  show "fst (GetMedia (reliable P) i s) = (case medias_of P (committed s) i of Some v \<Rightarrow> Ok v
      | None \<Rightarrow> Err (HttpError ProblemNotFound 404 (errorf (media_not_found i))))"
  proof (cases "i \<in> m_id ` set ?m")
    case True
    then obtain m where m: "m \<in> set ?m" "m_id m = i" by blast
    with GetMedia_outcome(1) [OF good one i(1)] show ?thesis
      by (simp add: outcome_def medias_of_def store_Some [OF media_rows_ok(2) [OF good] m])
  next
    case False
    with GetMedia_outcome(2) [OF good one i(1) _ i(2)] show ?thesis by (simp add: outcome_def medias_of_def store_None)
  qed
  assume "DeleteMedia (reliable P) i s = (Ok u, s')"
  with DeleteMedia_outcome [OF good i, of P] have d: "committed s' = remove_media i (committed s)"
    by (simp add: outcome_def split: if_splits)
  have rows: "media_tbl (remove_media i (committed s)) = filter (\<lambda>m. m_id m \<noteq> i) ?m" by (simp add: remove_media_def)
  have "media_view P (remove_media i (committed s)) m = media_view P (committed s) m" if "m_id m \<noteq> i" for m
  proof -
    have "filter (\<lambda>v. d_media_id v = m_id m) (filter (\<lambda>v. d_media_id v \<noteq> i) vs) = filter (\<lambda>v. d_media_id v = m_id m) vs"
      for vs :: "dvd_row list"
      using that by (auto intro: filter_cong)
    moreover have "filter (\<lambda>l. fst l = m_id m) (filter (\<lambda>l. fst l \<noteq> i) ls) = filter (\<lambda>l. fst l = m_id m) ls"
      for ls :: "(uint32 \<times> uint32) list" using that by (auto intro: filter_cong)
    ultimately show ?thesis
      by (simp add: media_view_def join_of_def dvd_of_def ingestion_task_def remove_media_def del: filter_filter)
  qed
  then show "medias_of P (committed s') = medias_of P (committed s) |` (- {i})"
    unfolding medias_of_def d rows restrict_upd [symmetric] by (intro store_filter)
qed simp

section \<open>Well-formed answers\<close>

definition media_wf :: "uint32 \<Rightarrow> Media \<Rightarrow> bool" where
  "media_wf i m =
     (md_Id m = i \<and> sorted (md_CardIds m) \<and> distinct (md_CardIds m) \<and>
      (case md_Details m of
         None \<Rightarrow> True
       | Some details \<Rightarrow>
           (case det_Dvd details of
              None \<Rightarrow> False
            | Some disc \<Rightarrow>
                dvd_Path disc \<noteq> [] \<and>
                (ing_ErrorMessage (dvd_Ingestion disc) \<noteq> None \<longleftrightarrow> ing_State (dvd_Ingestion disc) = DVDIngestionStateError))))"

lemma first_of_SomeD: "first_of (filter R xs) = Some x \<Longrightarrow> x \<in> set xs \<and> R x"
  by (auto simp: first_of_def split: list.splits dest: arg_cong [of _ _ set] filter_eq_ConsD)

lemma ingestion_wf:
  assumes "\<And>t. T = Some t \<Longrightarrow> task_row_ok t"
  shows "ing_ErrorMessage (taskStatusToDvdIngestion (map_option t_Status T) (Option.bind T t_Error)) \<noteq> None \<longleftrightarrow>
    ing_State (taskStatusToDvdIngestion (map_option t_Status T) (Option.bind T t_Error)) = DVDIngestionStateError"
  using assms
  by (cases T) (auto simp: taskStatusToDvdIngestion_def task_row_ok_def task_error_check_def split: Status.splits)

lemma media_view_wf:
  assumes "good d q"
  shows "media_wf (m_id m) (media_view P d m)"
proof -
  have row: "task_row_ok t" if "ingestion_task P d (m_id m) = Some t" for t
    using that good_tasks_ok [OF assms] first_of_SomeD by (fastforce simp: ingestion_task_def tasks_ok_def)
  have path: "d_path v \<noteq> []" if "dvd_of d (m_id m) = Some v" for v
    using that goodM(1) [OF assms] first_of_SomeD by (fastforce simp: dvd_of_def media_ok_def)
  have "distinct (map snd (filter (\<lambda>l. fst l = m_id m) (media_x_cards d)))"
    using linksD(4) [OF goodM(2) [OF assms]] by (auto simp: distinct_map inj_on_def)
  then show ?thesis
    using ingestion_wf [OF row] path
    by (auto simp: media_wf_def media_view_def media_of_row_def join_of_def media_join_row_def split: option.splits)
qed

lemma GetMedia_wf:
  assumes "system_ok P X s" and "i \<le> max_serial" and "GetMedia (reliable P) i s = (Ok m, s')"
  shows "media_wf i m"
proof -
  have ok: "good (committed s) (seqs_of s)" "one_ingestion P (committed s)"
    using assms(1) ingest_ok_one by (auto simp: system_ok_def at_rest_def sys_tasks_def)
  have "i \<noteq> 0" using assms(3) by (auto simp: GetMedia_def fail_def fail_with_def BadRequest_def httpWrap_def split: result.splits option.splits)
  note get = GetMedia_outcome [OF ok this]
  have "i \<in> m_id ` set (media_tbl (committed s))"
    by (rule ccontr) (use get(2) assms(2,3) in \<open>simp add: outcome_def\<close>)
  then obtain r where "r \<in> set (media_tbl (committed s))" "m_id r = i" by blast
  with get(1) assms(3) media_view_wf [OF ok(1)] show ?thesis by (auto simp: outcome_def)
qed

end
