(* ===== verification/VM_Inbox.thy ===== *)
theory VM_Inbox
  imports VM_Page VM_Config
begin

text \<open>
  The inbox (src/internal/services/inbox/rpc.go): the directories below the DVD inbox, listed page by page.
  \<^verbatim>\<open>os.ReadDir\<close> is a parameter: an error or the entries of a directory.
\<close>

record DirEntry =
  de_Name :: string
  de_IsDir :: bool

text \<open>The loop that collects the directories.\<close>

fun inbox_dirs :: "string \<Rightarrow> DirEntry list \<Rightarrow> string list" where
  "inbox_dirs dir [] = []"
| "inbox_dirs dir (d # ds) =
     (if \<not> de_IsDir d then inbox_dirs dir ds else filepath_Join [dir, de_Name d] # inbox_dirs dir ds)"

definition ListInboxDVDs ::
  "(string \<Rightarrow> goerr + DirEntry list) \<Rightarrow> Paths \<Rightarrow> uint32 option \<Rightarrow> string option \<Rightarrow> (string list \<times> string option) result" where
  "ListInboxDVDs os_ReadDir p pageSize pageToken =
     (case os_ReadDir (InboxDvd p PathKindAbsolute) of
        Inl err \<Rightarrow> fail_with InternalError (wrapf ''could not read DVD inbox dir: '' err)
      | Inr files \<Rightarrow>
          ListFromStrings (inbox_dirs (InboxDvd p PathKindAbsolute) files)
            \<lparr>l_Want = pageSize, l_Default = 50, l_Max = 100\<rparr> pageToken)"

section \<open>The paths of the inbox\<close>

lemma clean_comps_plain:
  assumes "\<forall>c\<in>set cs. plain c"
  shows "clean_comps (CHR ''/'' # strings_Join cs ''/'') = cs"
proof (cases "cs = []")
  case False
  have "split_slash (strings_Join cs ''/'') = cs"
    using assms False by (intro split_join) (auto simp: plain_def)
  then show ?thesis
    using assms by (simp add: clean_comps_def is_rooted_def clean_step_def fold_clean_plain plain_def filter_id_conv)
qed (simp add: clean_comps_def is_rooted_def clean_step_def)

lemma split_slash_no_slash: "c \<in> set (split_slash s) \<Longrightarrow> CHR ''/'' \<notin> set c"
  by (induction s arbitrary: c) (auto split: list.splits if_splits)

lemma clean_comps_are_plain:
  assumes "is_rooted path" and "c \<in> set (clean_comps path)"
  shows "plain c"
proof -
  have step: "\<forall>c\<in>set (clean_step True x st). plain c" if "\<forall>c\<in>set st. plain c" "CHR ''/'' \<notin> set x" for x st
  proof (cases "x = [] \<or> x = ''.'' \<or> x = ''..''")
    case True
    with that(1) show ?thesis by (cases st) (auto simp: clean_step_def plain_def [of "''..''"])
  next
    case False
    with that have "plain x" by (simp add: plain_def)
    with False that(1) show ?thesis by (simp add: clean_step_def)
  qed
  have "\<forall>c\<in>set (fold (clean_step True) xs st). plain c"
    if "\<forall>c\<in>set st. plain c" "\<forall>x\<in>set xs. CHR ''/'' \<notin> set x" for xs st
    using that by (induction xs arbitrary: st) (auto dest: step)
  from this [of "[]" "split_slash path"] assms show ?thesis
    by (auto simp: clean_comps_def dest: split_slash_no_slash)
qed

definition rooted_path :: "string list \<Rightarrow> string" where
  "rooted_path cs = CHR ''/'' # strings_Join cs ''/''"

lemma rooted_path_inj:
  assumes "\<forall>c\<in>set cs. plain c" and "\<forall>c\<in>set ds. plain c" and "rooted_path cs = rooted_path ds"
  shows "cs = ds"
proof -
  have "cs = clean_comps (rooted_path cs)" unfolding rooted_path_def by (rule clean_comps_plain [OF assms(1), symmetric])
  also have "\<dots> = clean_comps (rooted_path ds)" by (rule arg_cong [OF assms(3)])
  also have "\<dots> = ds" unfolding rooted_path_def by (rule clean_comps_plain [OF assms(2)])
  finally show ?thesis .
qed

lemma Absolute_rooted:
  assumes "is_rooted (RootDir p)" and "rel = strings_Join cs ''/''" and "cs \<noteq> []" and "\<forall>c\<in>set cs. plain c"
  shows "Absolute p rel = rooted_path (clean_comps (RootDir p) @ cs)"
proof -
  have split: "split_slash rel = cs" unfolding assms(2) using assms(3,4) by (intro split_join) (auto simp: plain_def)
  then have "''..'' \<notin> set (split_slash rel)" using assms(4) by (auto simp: plain_def)
  from Absolute_below [OF assms(1) this] split assms(4) show ?thesis
    by (simp add: rooted_path_def filter_id_conv plain_def)
qed

lemma InboxDvd_rooted:
  assumes "is_rooted (RootDir p)"
  shows "InboxDvd p PathKindAbsolute = rooted_path (clean_comps (RootDir p) @ [''inbox'', ''dvd''])"
proof -
  have pl: "list_all plain [''inbox'', ''dvd'']" by (simp add: plain_def)
  then have "InboxDvd p PathKindAbsolute = Absolute p (makePath p PathKindRelative [''inbox'', ''dvd''])"
    by (simp add: InboxDvd_def Absolute_relative)
  also have "makePath p PathKindRelative [''inbox'', ''dvd''] = strings_Join [''inbox'', ''dvd''] ''/''"
    using pl by (simp add: makePath_def Join_relative)
  also have "Absolute p \<dots> = rooted_path (clean_comps (RootDir p) @ [''inbox'', ''dvd''])"
    using assms pl by (intro Absolute_rooted) (simp_all add: list_all_iff)
  finally show ?thesis .
qed

lemma inbox_entry:
  assumes "is_rooted (RootDir p)" and "plain name"
  shows "filepath_Join [InboxDvd p PathKindAbsolute, name] = rooted_path (clean_comps (RootDir p) @ [''inbox'', ''dvd'', name])"
proof -
  let ?cs = "clean_comps (RootDir p) @ [''inbox'', ''dvd'']"
  let ?p = "\<lparr>RootDir = InboxDvd p PathKindAbsolute\<rparr>"
  have pl: "\<forall>c\<in>set ?cs. plain c" using clean_comps_are_plain [OF assms(1)] by (auto simp: plain_def)
  have root: "RootDir ?p = rooted_path ?cs" using InboxDvd_rooted [OF assms(1)] by simp
  have "filepath_Join [InboxDvd p PathKindAbsolute, name] = Absolute ?p name" by (simp add: Absolute_def makePath_def)
  also have "\<dots> = rooted_path (clean_comps (RootDir ?p) @ [name])"
    using assms(2) root by (intro Absolute_rooted) (simp_all add: rooted_path_def is_rooted_def)
  also have "clean_comps (RootDir ?p) = ?cs" unfolding root rooted_path_def using pl by (rule clean_comps_plain)
  finally show ?thesis by simp
qed

lemma inbox_dirs_map: "inbox_dirs dir files = map (\<lambda>d. filepath_Join [dir, de_Name d]) (filter de_IsDir files)"
  by (induction files) simp_all

lemma inbox_dirs_distinct:
  assumes "is_rooted (RootDir p)" and "\<forall>d\<in>set files. plain (de_Name d)" and "distinct (map de_Name files)"
  shows "distinct (inbox_dirs (InboxDvd p PathKindAbsolute) files)"
proof -
  have "inj_on (\<lambda>d. filepath_Join [InboxDvd p PathKindAbsolute, de_Name d]) (set files)"
  proof (rule inj_onI)
    fix a b assume ab: "a \<in> set files" "b \<in> set files"
      and eq: "filepath_Join [InboxDvd p PathKindAbsolute, de_Name a] = filepath_Join [InboxDvd p PathKindAbsolute, de_Name b]"
    have "\<forall>c\<in>set (clean_comps (RootDir p) @ [''inbox'', ''dvd'', de_Name x]). plain c" if "x \<in> set files" for x
      using that assms(2) clean_comps_are_plain [OF assms(1)] by (auto simp: plain_def)
    from rooted_path_inj [OF this [OF ab(1)] this [OF ab(2)]] eq ab assms(1,2)
    have "de_Name a = de_Name b" by (simp add: inbox_entry)
    with ab assms(3) show "a = b" by (auto simp: distinct_map dest: inj_onD)
  qed
  moreover have "distinct files" using assms(3) by (simp add: distinct_map)
  ultimately show ?thesis
    by (simp add: inbox_dirs_map distinct_map inj_on_subset)
qed

text \<open>A client that follows the tokens of the inbox, for at most \<^verbatim>\<open>fuel\<close> pages.\<close>

fun walk_inbox ::
  "nat \<Rightarrow> (string \<Rightarrow> goerr + DirEntry list) \<Rightarrow> Paths \<Rightarrow> uint32 option \<Rightarrow> string option \<Rightarrow> string list option" where
  "walk_inbox 0 os_ReadDir p want tok = None"
| "walk_inbox (Suc fuel) os_ReadDir p want tok =
     (case ListInboxDVDs os_ReadDir p want tok of
        Ok (page, None) \<Rightarrow> Some page
      | Ok (page, Some t) \<Rightarrow> map_option (\<lambda>more. page @ more) (walk_inbox fuel os_ReadDir p want (Some t))
      | _ \<Rightarrow> None)"

lemma walk_inbox_strings:
  assumes "os_ReadDir (InboxDvd p PathKindAbsolute) = Inr files"
  shows "walk_inbox fuel os_ReadDir p want tok =
    walk_strings fuel (inbox_dirs (InboxDvd p PathKindAbsolute) files) \<lparr>l_Want = want, l_Default = 50, l_Max = 100\<rparr> tok"
  by (induction fuel arbitrary: tok) (simp_all add: ListInboxDVDs_def assms split: result.splits option.splits prod.splits)

lemma walk_inbox_all:
  assumes "os_ReadDir (InboxDvd p PathKindAbsolute) = Inr files" and "is_rooted (RootDir p)"
    and "\<forall>d\<in>set files. plain (de_Name d)" and "distinct (map de_Name files)" and "length files < 2 ^ 32"
    and utf8: "\<forall>t\<in>set (inbox_dirs (InboxDvd p PathKindAbsolute) files). to_valid_utf8 t = t"
    and "want \<noteq> Some 0" and "length files < fuel"
  shows "walk_inbox fuel os_ReadDir p want None = Some (sort (inbox_dirs (InboxDvd p PathKindAbsolute) files))"
proof -
  let ?dirs = "inbox_dirs (InboxDvd p PathKindAbsolute) files" and ?l = "\<lparr>l_Want = want, l_Default = 50, l_Max = 100\<rparr>"
  have lim: "Limit_Limit ?l = Ok (page_size want)" by (simp add: Limit_Limit_def page_size_def split: option.splits)
  have "0 < page_size want" using page_size_pos [OF assms(7)] by (simp add: unat_gt_0 word_gt_0)
  have len: "length ?dirs \<le> length files" by (simp add: inbox_dirs_map)
  have "[] < t" if "t \<in> set ?dirs" for t
    using that inbox_entry [OF assms(2)] assms(3) by (auto simp: inbox_dirs_map rooted_path_def)
  then have all: "rows_above (\<lambda>s. s) [] ?dirs = sort ?dirs" by (simp add: rows_above_def filter_True)
  have tok: "toLastSeenString None = Ok []" by (simp add: toLastSeenString_def)
  have "length (rows_above (\<lambda>s. s) [] ?dirs) < fuel" using len assms(8) unfolding all by simp
  from walk_strings_above [OF lim \<open>0 < page_size want\<close> _ inbox_dirs_distinct [OF assms(2-4)] utf8 tok this] len assms(5)
  show ?thesis by (simp add: walk_inbox_strings [where os_ReadDir = os_ReadDir and p = p, OF assms(1)] all)
qed

lemma walk_inbox_repeats:
  assumes "os_ReadDir (InboxDvd p PathKindAbsolute) = Inr files" and "length files < 2 ^ 32"
    and "sort (inbox_dirs (InboxDvd p PathKindAbsolute) files) = t # rest" and "to_valid_utf8 t < t"
  shows "walk_inbox fuel os_ReadDir p (Some 1) None = None"
proof -
  let ?dirs = "inbox_dirs (InboxDvd p PathKindAbsolute) files" and ?l = "\<lparr>l_Want = Some 1, l_Default = 50, l_Max = 100\<rparr>"
  have lim: "Limit_Limit ?l = Ok 1" by (simp add: Limit_Limit_def min_def)
  have len: "length ?dirs \<le> length files" by (simp add: inbox_dirs_map)
  have tok: "toLastSeenString None = Ok []" by (simp add: toLastSeenString_def)
  have "[] < t" using assms(4) by (cases t) simp_all
  from walk_strings_repeats [OF lim _ assms(3,4) tok this] len assms(2)
  show ?thesis by (simp add: walk_inbox_strings [where os_ReadDir = os_ReadDir and p = p, OF assms(1)])
qed

text \<open>
  The listed paths are absolute, while a posted path is read relative to the root directory
  (dvd\_ingestion\_task.go): joined once more, the root appears twice.
\<close>

lemma inbox_entry_doubled:
  assumes "is_rooted (RootDir p)" and "plain name" and "clean_comps (RootDir p) \<noteq> []"
  shows "Absolute p (filepath_Join [InboxDvd p PathKindAbsolute, name]) =
      rooted_path (clean_comps (RootDir p) @ clean_comps (RootDir p) @ [''inbox'', ''dvd'', name])" (is ?double)
    and "Absolute p (filepath_Join [InboxDvd p PathKindAbsolute, name]) \<noteq> filepath_Join [InboxDvd p PathKindAbsolute, name]"
proof -
  let ?cs = "clean_comps (RootDir p)" and ?ds = "clean_comps (RootDir p) @ [''inbox'', ''dvd'', name]"
  have pl: "\<forall>c\<in>set ?cs. plain c" "\<forall>c\<in>set ?ds. plain c"
    using clean_comps_are_plain [OF assms(1)] assms(2) by (auto simp: plain_def)
  have split: "split_slash (rooted_path ?ds) = [] # ?ds"
  proof -
    have "CHR ''/'' \<notin> set c" if "c \<in> set ?ds" for c using pl(2) that by (metis plain_def)
    moreover have "?ds \<noteq> []" by simp
    ultimately have "split_slash (strings_Join ?ds ''/'') = ?ds" using split_join by blast
    then show ?thesis unfolding rooted_path_def by (simp only: split_slash.simps refl if_True)
  qed
  have nodots: "''..'' \<notin> set (split_slash (rooted_path ?ds))" 
    unfolding split using pl(2) by (metis list.distinct(1) plain_def set_ConsD)
  show double: ?double
    unfolding inbox_entry [OF assms(1,2)] Absolute_below [OF assms(1) nodots] split
    using pl(2) by (simp add: rooted_path_def filter_id_conv plain_def)
  show "Absolute p (filepath_Join [InboxDvd p PathKindAbsolute, name]) \<noteq> filepath_Join [InboxDvd p PathKindAbsolute, name]"
  proof
    assume "Absolute p (filepath_Join [InboxDvd p PathKindAbsolute, name]) = filepath_Join [InboxDvd p PathKindAbsolute, name]"
    then have "rooted_path (?cs @ ?ds) = rooted_path ?ds" using double inbox_entry [OF assms(1,2)] by simp
    moreover have "\<forall>c\<in>set (?cs @ ?ds). plain c" using pl by auto
    ultimately have "?cs @ ?ds = ?ds" using pl(2) by (intro rooted_path_inj)
    then show False using assms(3) by simp
  qed
qed

end
