(* ===== verification/VM_Heartbeat.thy ===== *)
theory VM_Heartbeat
  imports VM_TaskOps
begin

text \<open>
  The heartbeat of a worker (src/internal/lib/vmtask/worker.go, \<^verbatim>\<open>heartbeat\<close>): while a task is processed, its lease is
  renewed at every tick, and a renewal that fails is logged and tried again at the next tick.
\<close>

text \<open>\<^verbatim>\<open>ticks\<close> are the times of the worker's clock at the ticks before the context of the heartbeat is done.\<close>

fun heartbeat :: "pg \<Rightarrow> string \<Rightarrow> int \<Rightarrow> int list \<Rightarrow> goerr list prog" where
  "heartbeat P workerId taskId [] s = (Ok [], s)"
| "heartbeat P workerId taskId (now # ticks) s =
     (case renewLease P workerId now taskId s of
        (Ok _, s1) \<Rightarrow> heartbeat P workerId taskId ticks s1
      | (Err e, s1) \<Rightarrow>
          (case heartbeat P workerId taskId ticks s1 of
             (Ok log, s2) \<Rightarrow> (Ok (task_log ''failed to renew lease for'' taskId e # log), s2)
           | r \<Rightarrow> r)
      | (Panic p, s1) \<Rightarrow> (Panic p, s1))"

section \<open>The lease after some ticks\<close>

text \<open>The errors of the driver are not errors of the services.\<close>

definition driver_errors :: "pg \<Rightarrow> bool" where
  "driver_errors P = (\<forall>n e. fault_at P n = Refused e \<or> fault_at P n = Lost e \<longrightarrow> as_HttpError e = None)"

definition refused_at :: "pg \<Rightarrow> nat \<Rightarrow> bool" where
  "refused_at P n = (case fault_at P n of Refused e \<Rightarrow> True | _ \<Rightarrow> False)"

definition leased :: "string \<Rightarrow> int \<Rightarrow> int \<Rightarrow> db \<Rightarrow> bool" where
  "leased w i e d =
     (\<exists>t\<in>set (tasks d). t_Id t = i \<and> t_Status t = StatusRunning \<and> t_WorkerId t = Some w \<and> t_LeaseExpiresAt t = Some e)"

lemma renewed:
  assumes "tasks_ok d q0" and "leased w i e d" and "task_id_ok i"
  shows "\<exists>d'. renew_stmt i w e' now d q = (Inr (d', 1), q) \<and> tasks_ok d' q0 \<and> leased w i e' d'"
proof -
  obtain t where t: "t \<in> set (tasks d)" "t_Id t = i" "t_Status t = StatusRunning" "t_WorkerId t = Some w"
    using assms(2) by (auto simp: leased_def)
  let ?R = "\<lambda>t. t_Id t = i \<and> t_WorkerId t = Some w \<and> t_Status t = StatusRunning"
  let ?g = "\<lambda>t. t\<lparr>t_LeaseExpiresAt := Some e'\<rparr>"
  let ?d = "d\<lparr>tasks := update_where ?R (\<lambda>t. stamp now (?g t)) (tasks d)\<rparr>"
  have "task_row_ok t" using assms(1) t(1) by (simp add: tasks_ok_def)
  then have row: "task_row_ok (?g t)" using t(3,4) by (simp add: task_row_ok_def task_lease_check_def task_error_check_def)
  have "keyed t_Id (tasks d)" using assms(1) by (simp add: tasks_ok_def)
  with row t have "list_all (\<lambda>t. ?R t \<longrightarrow> task_row_ok (?g t)) (tasks d)" by (auto simp: list_all_iff dest: keyed_inj)
  then have "tasks_ok ?d q0" using assms(1) by (intro update_tasks_ok) auto
  moreover have "leased w i e' ?d"
    unfolding leased_def
  proof
    show "stamp now (?g t) \<in> set (tasks ?d)" using t by (simp add: update_where_def image_iff) (rule bexI [of _ t], simp_all)
  qed (use t in \<open>simp add: stamp_def\<close>)
  moreover have "renew_stmt i w e' now d q = (Inr (?d, 1), q)"
    using update_tasks_key [OF assms(1) t(1), of ?R ?g now q] row t assms(3) by (simp add: renew_stmt_def)
  ultimately show ?thesis by blast
qed

lemma tick:
  assumes "tasks_ok (committed s) q0" and "leased w i e (committed s)" and "task_id_ok i" and "driver_errors P"
    and "renewLease P w now i s = (r, s1)"
  shows "(\<forall>p. r \<noteq> Panic p) \<and> calls s1 = Suc (calls s) \<and> tasks_ok (committed s1) q0 \<and>
    leased w i (if refused_at P (calls s) then e else now + LeaseDuration) (committed s1)"
proof -
  obtain d' where d': "renew_stmt i w (now + LeaseDuration) (clock_at P (calls s)) (committed s) (seqs_of s) = (Inr (d', 1), seqs_of s)"
      "tasks_ok d' q0" "leased w i (now + LeaseDuration) d'"
    using renewed [OF assms(1-3)] by blast
  have err: "\<exists>x. driver_result (Inl e) = Err x" if "as_HttpError e = None" for e :: goerr
    using that by (simp add: driver_result_def fail_with_def handleError_def InternalError_def DbSerialization_def httpWrap_def
        checkAlreadyWrapped_def split: option.splits)
  show ?thesis
  proof (cases "fault_at P (calls s)")
    case NoFault
    then show ?thesis
      using assms d' by (auto simp: renewLease_def check_def Exec_def pg_run.simps Let_def refused_at_def ret_def)
  next
    case (Refused x)
    then obtain y where "driver_result (Inl x) = (Err y :: nat result)" using assms(4) err unfolding driver_errors_def by blast
    then show ?thesis
      using assms Refused by (auto simp: renewLease_def check_def Exec_def pg_run.simps Let_def refused_at_def)
  next
    case (Lost x)
    then obtain y where "driver_result (Inl x) = (Err y :: nat result)" using assms(4) err unfolding driver_errors_def by blast
    then show ?thesis
      using assms d' Lost by (auto simp: renewLease_def check_def Exec_def pg_run.simps Let_def refused_at_def)
  qed
qed

fun lease_after :: "pg \<Rightarrow> nat \<Rightarrow> int list \<Rightarrow> int \<Rightarrow> int" where
  "lease_after P n [] e = e"
| "lease_after P n (now # ticks) e = lease_after P (Suc n) ticks (if refused_at P n then e else now + LeaseDuration)"

lemma heartbeat_lease:
  assumes "task_id_ok i" and "driver_errors P"
  shows "tasks_ok (committed s) q0 \<Longrightarrow> leased w i e (committed s) \<Longrightarrow>
    \<exists>log s1. heartbeat P w i ticks s = (Ok log, s1) \<and> tasks_ok (committed s1) q0 \<and>
      leased w i (lease_after P (calls s) ticks e) (committed s1)"
proof (induction ticks arbitrary: s e)
  case (Cons now ticks)
  obtain r s1 where r: "renewLease P w now i s = (r, s1)" by fastforce
  note t = tick [OF Cons.prems assms r]
  with Cons.IH [of s1 "if refused_at P (calls s) then e else now + LeaseDuration"] obtain log s2 where
    "heartbeat P w i ticks s1 = (Ok log, s2)" "tasks_ok (committed s2) q0"
    "leased w i (lease_after P (calls s) (now # ticks) e) (committed s2)" by auto
  with r t show ?case by (cases r) auto
qed simp

section \<open>Missed renewals\<close>

text \<open>
  A lease lasts five intervals. Ticks come at every interval from the time \<^verbatim>\<open>t\<close> of the claim; the lease reaches
  beyond the next tick as long as no five renewals in a row are refused.
\<close>

definition beats :: "int \<Rightarrow> nat \<Rightarrow> int list" where
  "beats t n = map (\<lambda>k. t + (int k + 1) * HeartbeatInterval) [0..<n]"

lemma lease_after_snoc:
  "lease_after P n (ticks @ [now]) e =
     (if refused_at P (n + length ticks) then lease_after P n ticks e else now + LeaseDuration)"
  by (induction ticks arbitrary: n e) auto

fun last_renewal :: "pg \<Rightarrow> nat \<Rightarrow> nat \<Rightarrow> nat" where
  "last_renewal P c 0 = 0"
| "last_renewal P c (Suc n) = (if refused_at P (c + n) then last_renewal P c n else Suc n)"

lemma last_renewal_refused: "last_renewal P c n \<le> j \<Longrightarrow> j < n \<Longrightarrow> refused_at P (c + j)"
  by (induction n) (auto simp: less_Suc_eq split: if_splits)

lemma lease_after_beats:
  "lease_after P c (beats t n) (t + LeaseDuration) = t + int (last_renewal P c n) * HeartbeatInterval + LeaseDuration"
proof (induction n)
  case (Suc n)
  then show ?case by (simp add: beats_def lease_after_snoc algebra_simps)
qed (simp add: beats_def)

lemma lease_outlasts:
  assumes "\<And>k. k + 5 \<le> n \<Longrightarrow> \<exists>j<5. \<not> refused_at P (c + k + j)"
  shows "t + (int n + 1) * HeartbeatInterval \<le> lease_after P c (beats t n) (t + LeaseDuration)"
proof -
  have "n < last_renewal P c n + 5"
  proof (rule ccontr)
    assume "\<not> n < last_renewal P c n + 5"
    then obtain j where "j < 5" "\<not> refused_at P (c + (last_renewal P c n + j))" "last_renewal P c n + j < n"
      using assms [of "last_renewal P c n"] by (auto simp: add.assoc)
    then show False using last_renewal_refused [of P c n "last_renewal P c n + j"] by simp
  qed
  then have "int n + 1 \<le> int (last_renewal P c n) + 5" by simp
  then show ?thesis unfolding lease_after_beats by (simp add: HeartbeatInterval_def LeaseDuration_def)
qed

lemma leased_row:
  assumes "tasks_ok d q" and "leased w i e d" and "t \<in> set (tasks d)" and "t_Id t = i"
  shows "t_Status t = StatusRunning \<and> t_WorkerId t = Some w \<and> t_LeaseExpiresAt t = Some e"
proof -
  obtain u where u: "u \<in> set (tasks d)" "t_Id u = i" "t_Status u = StatusRunning" "t_WorkerId u = Some w" "t_LeaseExpiresAt u = Some e"
    using assms(2) by (auto simp: leased_def)
  have "keyed t_Id (tasks d)" using assms(1) by (simp add: tasks_ok_def)
  then have "t = u" using keyed_inj u(1,2) assms(3,4) by metis
  with u show ?thesis by simp
qed

lemma leased_not_claimable:
  assumes "tasks_ok d q" and "leased w i e d" and "t \<in> set (tasks d)" and "t_Id t = i" and "now \<le> e"
  shows "\<not> claimable now t"
  using leased_row [OF assms(1-4)] assms(5) by (simp add: claimable_def)

end
