(* ===== verification/VM_Progress.thy ===== *)
theory VM_Progress
  imports VM_Prelude
begin

text \<open>
  Liveness of a step relation. \<^verbatim>\<open>inevitable step exit s\<close>: from \<open>s\<close> every run of steps is finite, and it can stop only
  where \<open>exit\<close> holds. The locale \<^verbatim>\<open>progress\<close> is what a component shows to have it: a measure that every step
  lowers, and a step wherever \<open>exit\<close> does not hold.
\<close>

inductive inevitable :: "('s \<Rightarrow> 's \<Rightarrow> bool) \<Rightarrow> ('s \<Rightarrow> bool) \<Rightarrow> 's \<Rightarrow> bool" for step exit where
  "exit s \<or> (\<exists>s'. step s s') \<Longrightarrow> (\<And>s'. step s s' \<Longrightarrow> inevitable step exit s') \<Longrightarrow> inevitable step exit s"

inductive_simps inevitable_iff: "inevitable step exit s"

locale progress =
  fixes step :: "'s \<Rightarrow> 's \<Rightarrow> bool"
    and exit :: "'s \<Rightarrow> bool"
    and inv :: "'s \<Rightarrow> bool"
    and weight :: "'s \<Rightarrow> nat"
  assumes inv_step: "inv s \<Longrightarrow> step s s' \<Longrightarrow> inv s'"
    and weight_step: "inv s \<Longrightarrow> step s s' \<Longrightarrow> weight s' < weight s"
    and can_step: "inv s \<Longrightarrow> exit s \<or> (\<exists>s'. step s s')"
begin

lemma reaches_exit: "inv s \<Longrightarrow> inevitable step exit s"
proof (induction "weight s" arbitrary: s rule: less_induct)
  case less
  show ?case
  proof (rule inevitable.intros)
    show "exit s \<or> (\<exists>s'. step s s')" using can_step less.prems .
    show "inevitable step exit s'" if "step s s'" for s'
      using less.hyps [OF weight_step [OF less.prems that] inv_step [OF less.prems that]] .
  qed
qed

text \<open>No run is longer than the weight of its first state.\<close>

lemma run_bounded: "inv s \<Longrightarrow> (step ^^ n) s s' \<Longrightarrow> n + weight s' \<le> weight s \<and> inv s'"
proof (induction n arbitrary: s')
  case (Suc n)
  then obtain s1 where "(step ^^ n) s s1" "step s1 s'" by auto
  with Suc inv_step [of s1 s'] weight_step [of s1 s'] show ?case by fastforce
qed simp

end

end
