(* ===== verification/VM_Pool.thy ===== *)
theory VM_Pool
  imports VM_Worker VM_Progress
begin

text \<open>
  The goroutines of the task system (src/internal/lib/vmtask: \<^verbatim>\<open>StartHandlers\<close> and \<^verbatim>\<open>scanner.run\<close> in
  notify.go, \<^verbatim>\<open>worker.run\<close> in worker.go) as a state machine: the scanner, the workers, the goroutine that
  waits for notifications, and the channels between them. A worker is its index; \<^verbatim>\<open>todo\<close> abstracts the
  database to the tasks that can be claimed. The relation \<^verbatim>\<open>internal\<close> is a move of one goroutine or a
  rendezvous of two; \<^verbatim>\<open>environment\<close> is what others do to the table of tasks.

  The errors of a scan are moves of their own: nothing is claimed, or a task is claimed and the scan does not hear of the
  commit, so that the task waits for the end of its lease. The moves are those before the context is cancelled; VM\_Shutdown adds
  the others.
\<close>

datatype scanner_at = WantWorker | Scanning nat | BackingOff | WaitingEvent

datatype worker_at = Announcing | AwaitingWork | Processing int

record pool =
  scan_at :: scanner_at
  backoff :: int
  available :: "nat list"
  returning :: "nat list"
  workers :: "worker_at list"
  queued :: nat
  event_held :: bool
  listening :: bool
  todo :: "int list"

text \<open>
  \<^verbatim>\<open>available\<close> is the buffered channel of workers, \<^verbatim>\<open>returning\<close> the goroutines that put a worker back into it,
  \<^verbatim>\<open>queued\<close> the notifications that the connection has received, and \<^verbatim>\<open>event_held\<close> says that the dispatching
  goroutine has one to hand over on the unbuffered channel \<^verbatim>\<open>events\<close>.
\<close>

definition StartHandlers :: "int \<Rightarrow> int list \<Rightarrow> pool" where
  "StartHandlers workerGoroutines pending =
     (let n = (if workerGoroutines < 1 then 1 else nat workerGoroutines) in
      \<lparr>scan_at = WantWorker, backoff = initialBackoff, available = [], returning = [], workers = replicate n Announcing,
       queued = 0, event_held = False, listening = False, todo = pending\<rparr>)"

text \<open>A channel with room for all workers takes a send at once while it is not full.\<close>

definition room :: "pool \<Rightarrow> bool" where
  "room s = (length (available s) < length (workers s))"

inductive internal :: "pool \<Rightarrow> pool \<Rightarrow> bool" where
  announce: "i < length (workers s) \<Longrightarrow> workers s ! i = Announcing \<Longrightarrow> room s \<Longrightarrow>
    internal s (s\<lparr>available := available s @ [i], workers := (workers s)[i := AwaitingWork]\<rparr>)"
| take_worker: "scan_at s = WantWorker \<Longrightarrow> available s = i # rest \<Longrightarrow>
    internal s (s\<lparr>scan_at := Scanning i, available := rest\<rparr>)"
| no_task: "scan_at s = Scanning i \<Longrightarrow> todo s = [] \<Longrightarrow>
    internal s (s\<lparr>scan_at := WaitingEvent, returning := i # returning s, backoff := initialBackoff\<rparr>)"
| wake_up: "scan_at s = BackingOff \<Longrightarrow>
    internal s (s\<lparr>scan_at := WantWorker, backoff := next_backoff (backoff s)\<rparr>)"
| give_back: "i \<in> set (returning s) \<Longrightarrow> room s \<Longrightarrow>
    internal s (s\<lparr>available := available s @ [i], returning := remove1 i (returning s)\<rparr>)"
| finish: "i < length (workers s) \<Longrightarrow> workers s ! i = Processing t \<Longrightarrow>
    internal s (s\<lparr>workers := (workers s)[i := Announcing]\<rparr>)"
| receive: "queued s = Suc n \<Longrightarrow> \<not> event_held s \<Longrightarrow> internal s (s\<lparr>queued := n, event_held := True\<rparr>)"
| deliver: "event_held s \<Longrightarrow> scan_at s = WaitingEvent \<Longrightarrow>
    internal s (s\<lparr>event_held := False, scan_at := WantWorker\<rparr>)"

text \<open>
  A scan that finds a task: the worker takes it, or it is failed for want of a handler and the worker goes
  back. Both count as an assignment, and the scanner goes on scanning.
\<close>

inductive claims :: "pool \<Rightarrow> pool \<Rightarrow> bool" where
  assign: "scan_at s = Scanning i \<Longrightarrow> t \<in> set (todo s) \<Longrightarrow> workers s ! i = AwaitingWork \<Longrightarrow>
    claims s (s\<lparr>scan_at := WantWorker, todo := remove1 t (todo s), workers := (workers s)[i := Processing t],
      backoff := initialBackoff\<rparr>)"
| unhandled: "scan_at s = Scanning i \<Longrightarrow> t \<in> set (todo s) \<Longrightarrow>
    claims s (s\<lparr>scan_at := WantWorker, todo := remove1 t (todo s), returning := i # returning s,
      backoff := initialBackoff\<rparr>)"

inductive scan_error :: "pool \<Rightarrow> pool \<Rightarrow> bool" where
  backs_off: "scan_at s = Scanning i \<Longrightarrow> scan_error s (s\<lparr>scan_at := BackingOff, returning := i # returning s\<rparr>)"
| claim_lost: "scan_at s = Scanning i \<Longrightarrow> t \<in> set (todo s) \<Longrightarrow>
    scan_error s (s\<lparr>scan_at := BackingOff, returning := i # returning s, todo := remove1 t (todo s)\<rparr>)"

text \<open>
  The environment: a task is created, and its notification reaches the connection only if it listens; a task
  becomes claimable without notification (a handler's pending result, an expired lease); LISTEN takes effect.
\<close>

inductive environment :: "pool \<Rightarrow> pool \<Rightarrow> bool" where
  create: "environment s (s\<lparr>todo := todo s @ [t], queued := (if listening s then Suc (queued s) else queued s)\<rparr>)"
| silent: "environment s (s\<lparr>todo := todo s @ [t]\<rparr>)"
| listen: "environment s (s\<lparr>listening := True\<rparr>)"

definition any_step :: "pool \<Rightarrow> pool \<Rightarrow> bool" where
  "any_step s s' = (internal s s' \<or> claims s s' \<or> scan_error s s' \<or> environment s s')"

inductive_cases internalE: "internal s s'"
inductive_cases claimsE: "claims s s'"
inductive_cases scan_errorE: "scan_error s s'"
inductive_cases environmentE: "environment s s'"

lemmas step_cases = internalE claimsE scan_errorE environmentE

section \<open>Every worker is in one place\<close>

definition held :: "pool \<Rightarrow> nat list" where
  "held s = available s @ returning s @ (case scan_at s of Scanning i \<Rightarrow> [i] | _ \<Rightarrow> [])"

definition workers_ok :: "pool \<Rightarrow> bool" where
  "workers_ok s =
     (distinct (held s) \<and> (\<forall>i. i \<in> set (held s) \<longleftrightarrow> i < length (workers s) \<and> workers s ! i = AwaitingWork))"

lemma workers_okD:
  assumes "workers_ok s"
  shows "distinct (held s)" and "i \<in> set (held s) \<longleftrightarrow> i < length (workers s) \<and> workers s ! i = AwaitingWork"
  using assms by (simp_all add: workers_ok_def)

lemma start_workers_ok: "workers_ok (StartHandlers n pending)"
  by (auto simp: workers_ok_def StartHandlers_def held_def Let_def)

lemma held_length:
  assumes "workers_ok s"
  shows "length (held s) \<le> length (workers s)"
proof -
  have "set (held s) \<subseteq> {..<length (workers s)}" using assms by (auto simp: workers_ok_def)
  then have "card (set (held s)) \<le> length (workers s)" using card_mono [of "{..<length (workers s)}"] by simp
  then show ?thesis using assms by (simp add: workers_ok_def distinct_card)
qed

lemma room_for:
  assumes "workers_ok s"
  shows "i \<in> set (returning s) \<Longrightarrow> room s" and "i < length (workers s) \<Longrightarrow> workers s ! i = Announcing \<Longrightarrow> room s"
proof -
  show "room s" if ret: "i \<in> set (returning s)"
  proof -
    obtain k where "length (returning s) = Suc k" using ret by (cases "returning s") auto
    then show ?thesis using held_length [OF assms] by (simp add: room_def held_def)
  qed
  show "room s" if "i < length (workers s)" "workers s ! i = Announcing"
  proof -
    have "j < length (workers s) \<and> j \<noteq> i" if "j \<in> set (available s)" for j
    proof -
      have "j \<in> set (held s)" using that by (simp add: held_def)
      then show ?thesis using workers_okD(2) [OF assms, of j] \<open>workers s ! i = Announcing\<close> by auto
    qed
    then have "set (available s) \<subseteq> {..<length (workers s)} - {i}" by auto
    then have "card (set (available s)) \<le> card ({..<length (workers s)} - {i})" by (intro card_mono) auto
    moreover have "distinct (available s)" using assms by (simp add: workers_ok_def held_def)
    moreover have "card ({..<length (workers s)} - {i}) = length (workers s) - 1" using that(1) by simp
    ultimately show ?thesis using that(1) by (simp add: room_def distinct_card)
  qed
qed

lemma workers_okI:
  assumes "distinct (held s')" and "\<And>i. i \<in> set (held s') \<longleftrightarrow> i < length (workers s') \<and> workers s' ! i = AwaitingWork"
  shows "workers_ok s'"
  using assms by (simp add: workers_ok_def)

lemma internal_workers_ok: "internal s s' \<Longrightarrow> workers_ok s \<Longrightarrow> workers_ok s'"
proof (induction rule: internal.induct)
  case (announce i s)
  let ?s = "s\<lparr>available := available s @ [i], workers := (workers s)[i := AwaitingWork]\<rparr>"
  have new: "i \<notin> set (held s)" "distinct (held s)"
    and old: "\<And>j. j \<in> set (held s) \<longleftrightarrow> j < length (workers s) \<and> workers s ! j = AwaitingWork"
    using announce by (simp_all add: workers_ok_def)
  have held: "set (held ?s) = insert i (set (held s))" by (simp add: held_def)
  show ?case
  proof (rule workers_okI)
    show "distinct (held ?s)" using new by (auto simp: held_def)
    show "j \<in> set (held ?s) \<longleftrightarrow> j < length (workers ?s) \<and> workers ?s ! j = AwaitingWork" for j
      unfolding held using old [of j] announce(1) by (cases "j = i") (simp_all add: nth_list_update)
  qed
next
  case (finish i s t)
  let ?s = "s\<lparr>workers := (workers s)[i := Announcing]\<rparr>"
  have new: "i \<notin> set (held s)" "distinct (held s)"
    and old: "\<And>j. j \<in> set (held s) \<longleftrightarrow> j < length (workers s) \<and> workers s ! j = AwaitingWork"
    using finish by (simp_all add: workers_ok_def)
  have held: "held ?s = held s" by (simp add: held_def)
  show ?case
  proof (rule workers_okI)
    show "distinct (held ?s)" using new held by simp
    show "j \<in> set (held ?s) \<longleftrightarrow> j < length (workers ?s) \<and> workers ?s ! j = AwaitingWork" for j
      unfolding held using old [of j] finish(1,2) by (cases "j = i") (simp_all add: nth_list_update)
  qed
next
  case (give_back i s)
  then have "set (remove1 i (returning s)) = set (returning s) - {i}" "distinct (remove1 i (returning s))"
    by (auto simp: workers_ok_def held_def)
  with give_back show ?case
    by (intro workers_okI) (auto simp: workers_ok_def held_def split: scanner_at.splits)
qed (auto simp: workers_ok_def held_def split: scanner_at.splits)

lemma claims_workers_ok: "claims s s' \<Longrightarrow> workers_ok s \<Longrightarrow> workers_ok s'"
proof (induction rule: claims.induct)
  case (assign s i t)
  then have "i < length (workers s)" "i \<notin> set (available s)" "i \<notin> set (returning s)" by (auto simp: workers_ok_def held_def)
  with assign show ?case
    by (intro workers_okI) (auto simp: workers_ok_def held_def nth_list_update)
qed (auto simp: workers_ok_def held_def)

lemma any_step_workers_ok: "any_step s s' \<Longrightarrow> workers_ok s \<Longrightarrow> workers_ok s'"
  unfolding any_step_def
proof (elim disjE)
  show "scan_error s s' \<Longrightarrow> workers_ok s \<Longrightarrow> workers_ok s'"
    by (induction rule: scan_error.induct) (auto simp: workers_ok_def held_def)
  show "environment s s' \<Longrightarrow> workers_ok s \<Longrightarrow> workers_ok s'"
    by (induction rule: environment.induct) (auto simp: workers_ok_def held_def)
qed (auto intro: internal_workers_ok claims_workers_ok)

section \<open>Wake-ups\<close>

text \<open>A scanner that waits for events while there is something to claim has a notification on its way.\<close>

definition awake :: "pool \<Rightarrow> bool" where
  "awake s = (scan_at s = WaitingEvent \<and> todo s \<noteq> [] \<longrightarrow> event_held s \<or> 0 < queued s)"

definition pool_ok :: "pool \<Rightarrow> bool" where
  "pool_ok s = (workers_ok s \<and> awake s \<and> workers s \<noteq> [])"

lemma start_pool_ok: "pool_ok (StartHandlers n pending)"
  using start_workers_ok by (simp add: pool_ok_def awake_def StartHandlers_def Let_def)

lemma internal_awake: "internal s s' \<Longrightarrow> awake s \<Longrightarrow> awake s'"
  by (induction rule: internal.induct) (auto simp: awake_def)

lemma internal_workers: "internal s s' \<Longrightarrow> length (workers s') = length (workers s)"
  by (induction rule: internal.induct) simp_all

lemma internal_pool_ok: "internal s s' \<Longrightarrow> pool_ok s \<Longrightarrow> pool_ok s'"
  unfolding pool_ok_def using internal_workers_ok internal_awake internal_workers
  by (metis length_greater_0_conv)

text \<open>Every step but a silent one or an unheard creation keeps the pool awake.\<close>

inductive heard_step :: "pool \<Rightarrow> pool \<Rightarrow> bool" where
  inner: "internal s s' \<Longrightarrow> heard_step s s'"
| claim: "claims s s' \<Longrightarrow> heard_step s s'"
| err: "scan_error s s' \<Longrightarrow> heard_step s s'"
| heard: "listening s \<Longrightarrow> heard_step s (s\<lparr>todo := todo s @ [t], queued := Suc (queued s)\<rparr>)"
| listens: "heard_step s (s\<lparr>listening := True\<rparr>)"

lemma heard_step_pool_ok: "heard_step s s' \<Longrightarrow> pool_ok s \<Longrightarrow> pool_ok s'"
proof (induction rule: heard_step.induct)
  case (claim s s')
  then have "workers_ok s'" using claims_workers_ok by (simp add: pool_ok_def)
  moreover have "awake s' \<and> workers s' \<noteq> []" using claim by cases (auto simp: pool_ok_def awake_def)
  ultimately show ?case by (simp add: pool_ok_def)
next
  case (err s s')
  then have "workers_ok s'" using any_step_workers_ok by (auto simp: pool_ok_def any_step_def)
  moreover have "awake s' \<and> workers s' \<noteq> []" using err by cases (auto simp: pool_ok_def awake_def)
  ultimately show ?case by (simp add: pool_ok_def)
next
  case (heard s t)
  then show ?case by (auto simp: pool_ok_def awake_def workers_ok_def held_def)
next
  case (listens s)
  then show ?case by (auto simp: pool_ok_def awake_def workers_ok_def held_def)
qed (rule internal_pool_ok)

lemma heard_steps_pool_ok: "heard_step\<^sup>*\<^sup>* s s' \<Longrightarrow> pool_ok s \<Longrightarrow> pool_ok s'"
  by (induction rule: rtranclp_induct) (auto intro: heard_step_pool_ok)

lemma any_steps_workers_ok: "any_step\<^sup>*\<^sup>* s s' \<Longrightarrow> workers_ok s \<Longrightarrow> workers_ok s'"
  by (induction rule: rtranclp_induct) (auto intro: any_step_workers_ok)

lemma any_step_length: "any_step s s' \<Longrightarrow> length (workers s') = length (workers s)"
  unfolding any_step_def
  by (elim disjE step_cases) auto

lemma any_steps_length: "any_step\<^sup>*\<^sup>* s s' \<Longrightarrow> length (workers s') = length (workers s)"
  by (induction rule: rtranclp_induct) (auto dest: any_step_length)

section \<open>A claimable task is claimed\<close>

text \<open>
  \<^verbatim>\<open>will_claim s\<close>: from \<open>s\<close>, whatever the goroutines do, a task is claimed after finitely many of their moves,
  and until then there is always a move to make.
\<close>

definition will_claim :: "pool \<Rightarrow> bool" where
  "will_claim = inevitable internal (\<lambda>s. \<exists>s'. claims s s')"

fun worker_weight :: "worker_at \<Rightarrow> nat" where
  "worker_weight (Processing t) = 4"
| "worker_weight Announcing = 3"
| "worker_weight AwaitingWork = 0"

fun scanner_weight :: "scanner_at \<Rightarrow> nat" where
  "scanner_weight WaitingEvent = 3"
| "scanner_weight BackingOff = 2"
| "scanner_weight WantWorker = 1"
| "scanner_weight (Scanning i) = 0"

definition pool_measure :: "pool \<Rightarrow> nat" where
  "pool_measure s =
     sum_list (map worker_weight (workers s)) + 2 * length (returning s) + length (available s) +
     scanner_weight (scan_at s) + 2 * queued s + (if event_held s then 1 else 0)"

lemma sum_list_update:
  assumes "i < length ws"
  shows "sum_list (map f (ws[i := w])) + f (ws ! i) = sum_list (map f ws) + (f w :: nat)"
  using assms
proof (induction ws arbitrary: i)
  case (Cons x ws)
  then show ?case by (cases i) (auto simp: add.commute add.left_commute)
qed simp

lemma internal_decreases: "internal s s' \<Longrightarrow> todo s \<noteq> [] \<Longrightarrow> pool_measure s' < pool_measure s \<and> todo s' = todo s"
proof (induction rule: internal.induct)
  case (announce i s)
  then show ?case using sum_list_update [of i "workers s" worker_weight AwaitingWork] by (simp add: pool_measure_def)
next
  case (finish i s t)
  then show ?case using sum_list_update [of i "workers s" worker_weight Announcing] by (simp add: pool_measure_def)
next
  case (give_back i s)
  then obtain k where "length (returning s) = Suc k" by (cases "returning s") auto
  with give_back show ?case by (simp add: pool_measure_def length_remove1)
qed (simp_all add: pool_measure_def)

lemma can_move:
  assumes "pool_ok s" and "todo s \<noteq> []"
  shows "\<exists>s'. internal s s' \<or> claims s s'"
proof (cases "scan_at s")
  case (Scanning i)
  obtain t where "t \<in> set (todo s)" using assms(2) by (cases "todo s") auto
  then show ?thesis using Scanning claims.unhandled by blast
next
  case BackingOff
  then show ?thesis using internal.wake_up by blast
next
  case WaitingEvent
  then have "event_held s \<or> (\<exists>n. queued s = Suc n)" using assms by (auto simp: pool_ok_def awake_def gr0_conv_Suc)
  then show ?thesis using WaitingEvent internal.deliver internal.receive by blast
next
  case WantWorker
  have ok: "workers_ok s" using assms(1) by (simp add: pool_ok_def)
  have n: "0 < length (workers s)" using assms(1) by (simp add: pool_ok_def)
  show ?thesis
  proof (cases "workers s ! 0")
    case Announcing
    then show ?thesis using room_for(2) [OF ok n] internal.announce [OF n] by blast
  next
    case AwaitingWork
    then have "0 \<in> set (available s) \<or> 0 \<in> set (returning s)"
      using ok n WantWorker by (auto simp: workers_ok_def held_def)
    then show ?thesis
      using room_for(1) [OF ok] internal.give_back internal.take_worker [OF WantWorker]
      by (metis list.exhaust list.set(1) empty_iff)
  next
    case (Processing t)
    then show ?thesis using internal.finish [OF n] by blast
  qed
qed

interpretation claiming: progress internal "\<lambda>s. \<exists>s'. claims s s'" "\<lambda>s. pool_ok s \<and> todo s \<noteq> []" pool_measure
proof
  fix s s' assume "pool_ok s \<and> todo s \<noteq> []"
  then show "(\<exists>s'. claims s s') \<or> (\<exists>s'. internal s s')" using can_move by blast
  show "pool_ok s' \<and> todo s' \<noteq> []" "pool_measure s' < pool_measure s" if "internal s s'"
    using internal_decreases [OF that] internal_pool_ok [OF that] \<open>pool_ok s \<and> todo s \<noteq> []\<close> by simp_all
qed

lemma pool_will_claim: "pool_ok s \<Longrightarrow> todo s \<noteq> [] \<Longrightarrow> will_claim s"
  unfolding will_claim_def by (intro claiming.reaches_exit) simp

lemma will_claim_reaches: "will_claim s \<Longrightarrow> \<exists>s' s''. internal\<^sup>*\<^sup>* s s' \<and> claims s' s''"
  unfolding will_claim_def
proof (induction rule: inevitable.induct)
  case (1 s)
  then show ?case by (metis converse_rtranclp_into_rtranclp rtranclp.rtrancl_refl)
qed

section \<open>The wake-up that is lost\<close>

text \<open>
  Steps with announced tasks only: a created task is notified, but the notification reaches the connection only after
  LISTEN. No task becomes claimable silently.
\<close>

inductive announced_step :: "pool \<Rightarrow> pool \<Rightarrow> bool" where
  inner: "internal s s' \<Longrightarrow> announced_step s s'"
| claim: "claims s s' \<Longrightarrow> announced_step s s'"
| err: "scan_error s s' \<Longrightarrow> announced_step s s'"
| created: "announced_step s (s\<lparr>todo := todo s @ [t], queued := (if listening s then Suc (queued s) else queued s)\<rparr>)"
| listens: "announced_step s (s\<lparr>listening := True\<rparr>)"

lemma announced_any: "announced_step s s' \<Longrightarrow> any_step s s'"
proof (induction rule: announced_step.induct)
  case (created s t)
  then show ?case using environment.create [of s t] by (simp add: any_step_def)
qed (simp_all add: any_step_def environment.listen)

lemma any_step_listening: "any_step s s' \<Longrightarrow> listening s \<Longrightarrow> listening s'"
  unfolding any_step_def by (elim disjE step_cases) auto

text \<open>Where the connection listens from the start, every creation is heard.\<close>

lemma announced_heard: "announced_step s s' \<Longrightarrow> listening s \<Longrightarrow> heard_step s s'"
  by (induction rule: announced_step.induct) (auto intro: heard_step.intros)

lemma announced_steps_heard:
  assumes "announced_step\<^sup>*\<^sup>* s s'" and "listening s"
  shows "heard_step\<^sup>*\<^sup>* s s' \<and> listening s'"
  using assms(1)
proof (induction rule: rtranclp_induct)
  case (step s1 s2)
  then show ?case using announced_heard any_step_listening [OF announced_any] by (meson rtranclp.rtrancl_into_rtrancl)
qed (simp add: assms(2))

lemma listening_will_claim:
  assumes "announced_step\<^sup>*\<^sup>* ((StartHandlers n pending)\<lparr>listening := True\<rparr>) s" and "todo s \<noteq> []"
  shows "will_claim s"
proof -
  let ?p = "(StartHandlers n pending)\<lparr>listening := True\<rparr>"
  have "pool_ok ?p" using heard_step_pool_ok [OF heard_step.listens start_pool_ok] .
  moreover have "heard_step\<^sup>*\<^sup>* ?p s" using announced_steps_heard [OF assms(1)] by simp
  ultimately show ?thesis using heard_steps_pool_ok assms(2) by (intro pool_will_claim)
qed

text \<open>
  A task created after the first scan and before LISTEN: the scanner waits, nothing is on its way, and the task
  is not claimed until some other event.
\<close>

definition stuck :: "pool \<Rightarrow> bool" where
  "stuck s = (scan_at s = WaitingEvent \<and> todo s \<noteq> [] \<and> \<not> event_held s \<and> queued s = 0)"

lemma stuck_stays: "stuck s \<Longrightarrow> internal s s' \<Longrightarrow> stuck s'"
  by (erule internalE) (auto simp: stuck_def)

lemma stuck_no_claim: "stuck s \<Longrightarrow> \<not> claims s s'"
  by (auto simp: stuck_def elim: claimsE)

lemma stuck_never_claims:
  assumes "stuck s" and "internal\<^sup>*\<^sup>* s s'"
  shows "\<not> claims s' s''"
proof -
  from assms(2) have "stuck s'" by (induction rule: rtranclp_induct) (auto intro: assms(1) stuck_stays)
  then show ?thesis by (rule stuck_no_claim)
qed

definition lost_state :: "int \<Rightarrow> int \<Rightarrow> pool" where
  "lost_state n t = (StartHandlers n [])\<lparr>workers := (workers (StartHandlers n []))[0 := AwaitingWork], scan_at := WaitingEvent,
     returning := [0], todo := [t], listening := True\<rparr>"

lemma lost_reachable: "announced_step\<^sup>*\<^sup>* (StartHandlers n []) (lost_state n t)"
proof -
  let ?s0 = "StartHandlers n []"
  let ?s1 = "?s0\<lparr>available := [0], workers := (workers ?s0)[0 := AwaitingWork]\<rparr>"
  let ?s2 = "?s1\<lparr>scan_at := Scanning 0, available := []\<rparr>"
  let ?s3 = "?s2\<lparr>scan_at := WaitingEvent, returning := [0]\<rparr>"
  let ?s4 = "?s3\<lparr>todo := [t]\<rparr>"
  have "internal ?s0 ?s1"
    using internal.announce [of 0 ?s0] by (simp add: StartHandlers_def Let_def room_def)
  moreover have "internal ?s1 ?s2"
    using internal.take_worker [of ?s1 0 "[]"] by (simp add: StartHandlers_def Let_def)
  moreover have "internal ?s2 ?s3"
    using internal.no_task [of ?s2 0] by (simp add: StartHandlers_def Let_def)
  moreover have "announced_step ?s3 ?s4"
    using announced_step.created [of ?s3 t] by (simp add: StartHandlers_def Let_def)
  moreover have "announced_step ?s4 (lost_state n t)"
    using announced_step.listens [of ?s4] by (simp add: StartHandlers_def Let_def lost_state_def)
  ultimately show ?thesis by (meson announced_step.inner converse_rtranclp_into_rtranclp rtranclp.rtrancl_refl)
qed

lemma lost_stuck: "stuck (lost_state n t)"
  by (simp add: stuck_def lost_state_def StartHandlers_def Let_def)

lemma announced_steps_any: "announced_step\<^sup>*\<^sup>* s s' \<Longrightarrow> any_step\<^sup>*\<^sup>* s s'"
  by (induction rule: rtranclp_induct) (auto intro: announced_any rtranclp.rtrancl_into_rtrancl)

end
