(* ===== verification/VM_Scan.thy ===== *)
theory VM_Scan
  imports VM_Process VM_Heartbeat VM_Pool
begin

text \<open>
  The scanner of the goroutine model is the scanner of the database model: whatever \<^verbatim>\<open>scanAndAssign\<close>
  (src/internal/lib/vmtask/notify.go) returns, under any faults of the driver, the pool has a move of its scanner that ends at
  the same place of \<^verbatim>\<open>scanner.run\<close> and whose tasks to be claimed are those of the table.
\<close>

definition plain_faults :: "pg \<Rightarrow> bool" where
  "plain_faults P = (\<forall>n e. fault_at P n = Refused e \<or> fault_at P n = Lost e \<longrightarrow> \<not> errors_Is e ErrNotFound)"

definition eligible_ids :: "(int \<Rightarrow> bool) \<Rightarrow> string list \<Rightarrow> int \<Rightarrow> db \<Rightarrow> int set" where
  "eligible_ids locked tys now d = set (map t_Id (filter (eligible locked tys now) (tasks d)))"

text \<open>Where \<^verbatim>\<open>scanner.run\<close> goes after a scan for the worker \<open>i\<close>.\<close>

definition after_scan :: "nat \<Rightarrow> scan result \<Rightarrow> pool \<Rightarrow> bool" where
  "after_scan i r p =
     (case r of
        Ok NoTask \<Rightarrow> scan_at p = WaitingEvent \<and> i \<in> set (returning p) \<and> backoff p = initialBackoff
      | Ok (Assigned a) \<Rightarrow> scan_at p = WantWorker \<and> workers p ! i = Processing (a_taskId a) \<and> backoff p = initialBackoff
      | Ok (Unhandled t) \<Rightarrow> scan_at p = WantWorker \<and> i \<in> set (returning p) \<and> backoff p = initialBackoff
      | Err e \<Rightarrow> scan_at p = BackingOff \<and> i \<in> set (returning p)
      | Panic e \<Rightarrow> False)"

section \<open>The claim under faults\<close>

lemma plain_fail_with:
  assumes "\<not> errors_Is e t" and "fail_with (\<lambda>err. handleError err InternalError) e = Err x"
  shows "\<not> errors_Is x t"
  using assms by (auto simp: fail_with_def handleError_def InternalError_def DbSerialization_def httpWrap_def checkAlreadyWrapped_def
      split: option.splits if_splits)

lemma rows_result_fault:
  assumes "\<not> errors_Is e t"
  shows "(\<exists>x. rows_result late f (Inl e) = Err x \<and> \<not> errors_Is x t) \<or> (\<exists>x. rows_result late f (Inl e) = Panic x)"
proof (cases "rows_result late f (Inl e)")
  case (Ok x)
  then show ?thesis using rows_result_Inl [of late f e] by simp
next
  case (Err x)
  then show ?thesis using assms plain_fail_with [OF assms] by (auto simp: rows_result_def split: if_splits)
qed simp

lemma claim_query_cases:
  assumes "tasks_ok d q0"
    and "QueryOne P Tx (claim_stmt locked tys w e) (in_tx s lvl t0 n d q) = (r, s1)"
  obtains (found) t where "next_task locked tys t0 d = Some t" "r = Ok (t_Id t, t_TaskType t, t_State t)"
      "s1 = in_tx s lvl t0 (Suc n) (claim_in d (t_Id t) t0 w e) q"
  | (none) x where "plain_faults P \<Longrightarrow> next_task locked tys t0 d = None" "r = Err x" "errors_Is x ErrNotFound"
      "committed s1 = committed s"
  | (failed) x where "r = Err x" "\<not> errors_Is x ErrNotFound" "committed s1 = committed s"
  | (panics) x where "r = Panic x" "committed s1 = committed s"
proof -
  have com: "committed s1 = committed s"
    using assms(2) pg_run_Tx_committed [of P "claim_stmt locked tys w e" "in_tx s lvl t0 n d q"]
    by (auto simp: QueryOne_reply reply_def split: prod.splits)
  have faulty: thesis if r: "r = rows_result (late_at P n) one_row (Inl x)" and x: "fault_at P n = Refused x \<or> fault_at P n = Lost x" for x
  proof (cases r)
    case (Ok a)
    then show thesis using rows_result_Inl [of "late_at P n" "one_row :: (int \<times> string \<times> json) list \<Rightarrow> _" x] r by simp
  next
    case (Err e)
    show thesis
    proof (cases "errors_Is e ErrNotFound")
      case True
      have "\<not> plain_faults P"
        using x True Err r rows_result_fault [of x ErrNotFound "late_at P n" "one_row :: (int \<times> string \<times> json) list \<Rightarrow> _"]
        by (auto simp: plain_faults_def)
      then show thesis using none [OF _ Err True com] by simp
    qed (rule failed [OF Err _ com])
  qed (rule panics [OF _ com])
  show thesis
  proof (cases "fault_at P n")
    case NoFault
    then have run: "pg_run P Tx (claim_stmt locked tys w e) (in_tx s lvl t0 n d q) =
        pg_run (reliable P) Tx (claim_stmt locked tys w e) (in_tx s lvl t0 n d q)"
      by (simp add: pg_run.simps in_tx_def Let_def)
    show thesis
    proof (cases "next_task locked tys t0 d")
      case None
      then have "r = Err (HttpError ProblemNotFound 404 (Sentinel ErrNotFound))"
        using assms(2) by (simp add: QueryOne_reply reply_def run pg_run_in_tx claim_stmt_none rows_result_def one_row_def)
      then show thesis using none None com by simp
    next
      case (Some t)
      then show thesis using assms(2) found [OF Some]
        by (simp add: QueryOne_reply reply_def run pg_run_in_tx claim_stmt_some [OF assms(1)] rows_result_def one_row_def)
    qed
  next
    case (Refused x)
    then show thesis using assms(2) faulty [of x] by (simp add: QueryOne_reply reply_def pg_run.simps in_tx_def Let_def)
  next
    case (Lost x)
    then show thesis using assms(2) faulty [of x] by (simp add: QueryOne_reply reply_def pg_run.simps in_tx_def Let_def)
  qed
qed

section \<open>What a scan does to the table\<close>

lemma defer_Rollback_cases:
  assumes "defer_Rollback P m s = (r, s1)"
  obtains r' s2 where "m s = (r', s2)" "committed s1 = committed s2" "r = r' \<or> (\<exists>x. r = Panic x)"
proof -
  obtain r' s2 where m: "m s = (r', s2)" by fastforce
  obtain rr s3 where roll: "Rollback P s2 = (rr, s3)" by fastforce
  have "committed s3 = committed s2" using Rollback_committed [of P s2] roll by simp
  then show thesis using assms that m roll by (cases rr) (auto simp: defer_Rollback_def)
qed

definition failed_row :: "string \<Rightarrow> Task \<Rightarrow> Task" where
  "failed_row m t = release (t\<lparr>t_Status := StatusFailed, t_Error := Some m\<rparr>)"

text \<open>The table after a claim, and after the task without a handler was failed.\<close>

definition claim_effect :: "int \<Rightarrow> int \<Rightarrow> string \<Rightarrow> int \<Rightarrow> db \<Rightarrow> db \<Rightarrow> bool" where
  "claim_effect i t0 w e d d' = (d' = claim_in d i t0 w e \<or> (\<exists>n m. d' = finished (claim_in d i t0 w e) i n (failed_row m)))"

lemma failTaskDirect_cases:
  "committed (snd (failTaskDirect P i m s)) = committed s \<or>
   (\<exists>n. committed (snd (failTaskDirect P i m s)) = finished (committed s) i n (failed_row m))"
proof -
  have "committed (snd (failTaskDirect P i m s)) = committed (snd (pg_run P Pool (fail_stmt i m) s))"
    by (auto simp: failTaskDirect_def check_def Exec_def ret_def split: prod.splits result.splits)
  moreover have "committed (snd (pg_run P Pool (fail_stmt i m) s)) = committed s \<or>
      (\<exists>n. committed (snd (pg_run P Pool (fail_stmt i m) s)) = finished (committed s) i n (failed_row m))"
    by (cases "fault_at P (calls s)")
      (auto simp: pg_run.simps Let_def fail_stmt_def task_arg_def update_tasks_def finished_def failed_row_def [abs_def]
        split: prod.splits sum.splits if_splits)
  ultimately show ?thesis by simp
qed

lemma dispatch_cases:
  assumes "dispatch P reg c (i, ty, v) s = (r, s1)"
  obtains (assigned) a where "r = Ok (Assigned a)" "a_taskId a = i" "committed s1 = committed s"
  | (unhandled) "r = Ok (Unhandled i)"
      "committed s1 = committed s \<or> (\<exists>n m. committed s1 = finished (committed s) i n (failed_row m))"
  | (err) e where "r = Err e" "committed s1 = committed s"
  | (panics) x where "r = Panic x"
      "committed s1 = committed s \<or> (\<exists>n m. committed s1 = finished (committed s) i n (failed_row m))"
proof (cases "registry_Get reg ty")
  case (Ok h)
  show thesis
  proof (cases h)
    case None
    let ?m = "''no handler registered for task type '' @ go_quote ty"
    obtain r' s' where f: "failTaskDirect P i ?m s = (r', s')" by fastforce
    then show thesis using assms Ok None unhandled panics failTaskDirect_cases [of P i ?m s]
      by (cases r') (auto simp: dispatch_def check_def on_error_def ret_def)
  next
    case (Some h)
    with assms Ok assigned err show thesis by (auto simp: dispatch_def check_def ret_def throw_def split: if_splits)
  qed
qed (use assms panics err in \<open>auto simp: dispatch_def check_def\<close>)

lemma driver_error: "driver_result (Inl e) \<noteq> Ok a"
  by (auto simp: driver_result_def fail_with_def handleError_def InternalError_def DbSerialization_def httpWrap_def
      checkAlreadyWrapped_def split: option.splits)

lemma Commit_cases:
  assumes "Commit P (in_tx s lvl t0 n d q) = (r, s1)"
  obtains (ok) "r = Ok ()" "committed s1 = d" | (err) e where "r = Err e" "committed s1 = committed s \<or> committed s1 = d"
  | (panics) x where "r = Panic x" "committed s1 = committed s \<or> committed s1 = d"
  using assms by (cases "fault_at P n"; cases r) (auto simp: Commit_def in_tx_def Let_def driver_error)

definition scan_effect :: "(int \<Rightarrow> bool) \<Rightarrow> string list \<Rightarrow> int \<Rightarrow> string \<Rightarrow> int \<Rightarrow> db \<Rightarrow> db \<Rightarrow> bool" where
  "scan_effect locked tys t0 w e d d' =
     (d' = d \<or> (\<exists>t. next_task locked tys t0 d = Some t \<and> claim_effect (t_Id t) t0 w e d d'))"

text \<open>The body of the transaction, from the claim on.\<close>

definition scan_body :: "pg \<Rightarrow> handler registry option \<Rightarrow> string list \<Rightarrow> (int \<Rightarrow> bool) \<Rightarrow> bool \<Rightarrow> int \<Rightarrow> string \<Rightarrow> scan prog" where
  "scan_body P reg tys locked c e w =
     on_error (QueryOne P Tx (claim_stmt locked tys w e))
       (\<lambda>e. if errors_Is e ErrNotFound then ret NoTask else throw (wrapf ''failed to claim task: '' e))
       (\<lambda>row. check (Commit P) (wrapf ''failed to commit claim: '') (\<lambda>_. dispatch P reg c row))"

lemma scan_body_cases:
  assumes "tasks_ok (committed s) q0"
    and "scan_body P reg tys locked c e w (in_tx s lvl t0 n (committed s) q) = (r, s1)"
  obtains (idle) "r = Ok NoTask" "plain_faults P \<Longrightarrow> next_task locked tys t0 (committed s) = None" "committed s1 = committed s"
  | (assigned) t a where "next_task locked tys t0 (committed s) = Some t" "r = Ok (Assigned a)" "a_taskId a = t_Id t"
      "committed s1 = claim_in (committed s) (t_Id t) t0 w e"
  | (claimed) t where "next_task locked tys t0 (committed s) = Some t" "r = Ok (Unhandled (t_Id t)) \<or> (\<exists>x. r = Err x)"
      "claim_effect (t_Id t) t0 w e (committed s) (committed s1)"
  | (err) x where "r = Err x" "committed s1 = committed s"
  | (panics) x where "r = Panic x" "scan_effect locked tys t0 w e (committed s) (committed s1)"
proof -
  note to_assigned = assigned and to_err = err and to_panics = panics
  obtain r' s' where query: "QueryOne P Tx (claim_stmt locked tys w e) (in_tx s lvl t0 n (committed s) q) = (r', s')" by fastforce
  from assms(1) query show thesis
  proof (cases rule: claim_query_cases)
    case (found t)
    let ?d = "claim_in (committed s) (t_Id t) t0 w e"
    obtain rc sc where commit: "Commit P s' = (rc, sc)" by fastforce
    note run = assms(2) [unfolded scan_body_def on_error_def query found(2)]
    have effect: "claim_effect (t_Id t) t0 w e (committed s) ?d" by (simp add: claim_effect_def)
    from commit show thesis
      unfolding found(3)
    proof (cases rule: Commit_cases)
      case ok
      then have "dispatch P reg c (t_Id t, t_TaskType t, t_State t) sc = (r, s1)" using run commit by (simp add: check_def)
      then show thesis
      proof (cases rule: dispatch_cases)
        case (assigned a)
        then show thesis using to_assigned [OF found(1)] ok by simp
      next
        case unhandled
        then show thesis using claimed [OF found(1)] ok by (auto simp: claim_effect_def)
      next
        case (err x)
        then show thesis using claimed [OF found(1)] ok effect by auto
      next
        case (panics x)
        then show thesis
          using to_panics ok found(1) by (auto simp: scan_effect_def claim_effect_def)
      qed
    next
      case (err x)
      then have "\<exists>x. r = Err x" "s1 = sc" using run commit by (auto simp: check_def)
      then show thesis
        using err(2) claimed [OF found(1)] effect to_err by auto
    next
      case (panics x)
      then have "r = Panic x" "s1 = sc" using run commit by (simp_all add: check_def)
      then show thesis
        using panics(2) to_panics effect found(1) by (auto simp: scan_effect_def)
    qed
  qed (use assms(2) query idle err panics in \<open>auto simp: scan_body_def on_error_def ret_def throw_def scan_effect_def\<close>)
qed

lemma scan_cases:
  assumes "tasks_ok (committed s) q0" and "scanAndAssign P reg tys locked c now w s = (r, s1)"
  obtains (idle) "r = Ok NoTask" "plain_faults P \<Longrightarrow> next_task locked tys (clock_at P (calls s)) (committed s) = None"
      "committed s1 = committed s"
  | (assigned) t a where "next_task locked tys (clock_at P (calls s)) (committed s) = Some t" "r = Ok (Assigned a)" "a_taskId a = t_Id t"
      "committed s1 = claim_in (committed s) (t_Id t) (clock_at P (calls s)) w (now + LeaseDuration)"
  | (claimed) t where "next_task locked tys (clock_at P (calls s)) (committed s) = Some t" "r = Ok (Unhandled (t_Id t)) \<or> (\<exists>e. r = Err e)"
      "claim_effect (t_Id t) (clock_at P (calls s)) w (now + LeaseDuration) (committed s) (committed s1)"
  | (err) e where "r = Err e" "committed s1 = committed s"
  | (panics) x where "r = Panic x"
      "scan_effect locked tys (clock_at P (calls s)) w (now + LeaseDuration) (committed s) (committed s1)"
proof (cases "fault_at P (calls s)")
  case NoFault
  note to_panics = panics
  let ?t0 = "clock_at P (calls s)"
  let ?s = "in_tx s (Some ReadCommitted) ?t0 (Suc (calls s)) (committed s) (seqs_of s)"
  have "Begin P [ReadCommitted] s = (Ok (), ?s)" using NoFault by (simp add: Begin_def Let_def in_tx_def)
  then have "defer_Rollback P (scan_body P reg tys locked c (now + LeaseDuration) w) ?s = (r, s1)"
    using assms(2) by (simp add: scanAndAssign_def scan_body_def with_tx_def check_def)
  then obtain r' s2 where s2: "scan_body P reg tys locked c (now + LeaseDuration) w ?s = (r', s2)" "committed s1 = committed s2"
      "r = r' \<or> (\<exists>x. r = Panic x)" by (rule defer_Rollback_cases)
  from assms(1) s2(1) show thesis
  proof (cases rule: scan_body_cases)
    case idle
    then show thesis using s2(2,3) that(1) to_panics by (auto simp: scan_effect_def)
  next
    case (assigned t a)
    then show thesis using s2(2,3) that(2) to_panics by (auto simp: scan_effect_def claim_effect_def)
  next
    case (claimed t)
    then show thesis using s2(2,3) that(3) to_panics by (auto simp: scan_effect_def)
  next
    case (err e)
    then show thesis using s2(2,3) that(4) to_panics by (auto simp: scan_effect_def)
  next
    case (panics x)
    then show thesis using s2(2,3) to_panics by auto
  qed
next
  case (Refused x)
  then show thesis using assms(2) err panics
    by (cases "driver_result (Inl x) :: unit result")
      (auto simp: scanAndAssign_def with_tx_def check_def Begin_def Let_def driver_error scan_effect_def)
next
  case (Lost x)
  then show thesis using assms(2) err panics
    by (cases "driver_result (Inl x) :: unit result")
      (auto simp: scanAndAssign_def with_tx_def check_def Begin_def Let_def driver_error scan_effect_def)
qed

lemma scan_committed:
  assumes "tasks_ok (committed s) q0" and "scanAndAssign P reg tys locked c now w s = (r, s1)"
  shows "scan_effect locked tys (clock_at P (calls s)) w (now + LeaseDuration) (committed s) (committed s1)"
  using assms by (cases rule: scan_cases) (auto simp: scan_effect_def claim_effect_def)

section \<open>The moves of the pool\<close>

lemma eligible_update:
  assumes "\<And>u. \<not> claimable now (f u)" and "\<And>u. t_Id (f u) = t_Id u"
  shows "eligible_ids locked tys now (d\<lparr>tasks := update_where (\<lambda>u. t_Id u = i) f (tasks d)\<rparr>) = eligible_ids locked tys now d - {i}"
  using assms by (auto simp: eligible_ids_def update_where_def eligible_def image_iff split: if_splits)

lemma claim_effect_eligible:
  assumes "claim_effect i t0 w e d d'" and "t0 \<le> e"
  shows "eligible_ids locked tys t0 d' = eligible_ids locked tys t0 d - {i}"
proof -
  have claimed: "eligible_ids locked tys t0 (claim_in d i t0 w e) = eligible_ids locked tys t0 d - {i}"
    unfolding claim_in_def using assms(2) by (intro eligible_update) (auto simp: claimable_def claim_row_def)
  have "eligible_ids locked tys t0 (finished (claim_in d i t0 w e) i n (failed_row m)) =
      eligible_ids locked tys t0 (claim_in d i t0 w e) - {i}" for n m
    unfolding finished_def by (intro eligible_update) (auto simp: claimable_def failed_row_def release_def)
  with assms(1) claimed show ?thesis by (auto simp: claim_effect_def)
qed

lemma next_task_eligible:
  "next_task locked tys now d = None \<Longrightarrow> eligible_ids locked tys now d = {}"
  "next_task locked tys now d = Some t \<Longrightarrow> t_Id t \<in> eligible_ids locked tys now d"
  by (rule next_task_cases [of locked tys now d]; auto simp: eligible_ids_def)+

lemma scan_moves:
  assumes "tasks_ok (committed s) q0" and "plain_faults P" and "clock_at P (calls s) \<le> now + LeaseDuration"
    and "scanAndAssign P reg tys locked c now w s = (r, s1)" and "\<And>x. r \<noteq> Panic x"
    and "workers_ok p" and "scan_at p = Scanning i" and "distinct (todo p)"
    and "set (todo p) = eligible_ids locked tys (clock_at P (calls s)) (committed s)"
  shows "\<exists>p'. any_step p p' \<and> after_scan i r p' \<and> distinct (todo p') \<and>
    set (todo p') = eligible_ids locked tys (clock_at P (calls s)) (committed s1)"
proof -
  let ?t0 = "clock_at P (calls s)"
  have "i \<in> set (held p)" using assms(7) by (simp add: held_def)
  then have i: "i < length (workers p)" "workers p ! i = AwaitingWork" using workers_okD(2) [OF assms(6)] by blast+
  have moves: "internal p p' \<Longrightarrow> any_step p p'" "claims p p' \<Longrightarrow> any_step p p'" "scan_error p p' \<Longrightarrow> any_step p p'" for p'
    by (simp_all add: any_step_def)
  have moveI: ?thesis if "any_step p p'" "after_scan i r p'" "distinct (todo p')"
    "set (todo p') = eligible_ids locked tys ?t0 (committed s1)" for p' using that by blast
  have taken: "t_Id t \<in> set (todo p)" "set (remove1 (t_Id t) (todo p)) = eligible_ids locked tys ?t0 (committed s1)"
    "distinct (remove1 (t_Id t) (todo p))"
    if t: "next_task locked tys ?t0 (committed s) = Some t"
      and effect: "claim_effect (t_Id t) ?t0 w (now + LeaseDuration) (committed s) (committed s1)" for t
    using next_task_eligible(2) [OF t] claim_effect_eligible [OF effect assms(3)] assms(8,9) by auto
  from assms(1,4) show ?thesis
  proof (cases rule: scan_cases)
    case idle
    then have todo: "todo p = []" using next_task_eligible(1) assms(2,9) by simp
    show ?thesis
      by (rule moveI [OF moves(1) [OF internal.no_task [OF assms(7) todo]]])
        (use idle todo assms(9) in \<open>simp_all add: after_scan_def\<close>)
  next
    case (assigned t a)
    then have "claim_effect (t_Id t) ?t0 w (now + LeaseDuration) (committed s) (committed s1)" by (simp add: claim_effect_def)
    note rest = taken [OF assigned(1) this]
    with assigned(2,3) i(1) show ?thesis
      by (intro moveI [OF moves(2) [OF claims.assign [OF assms(7) rest(1) i(2)]]]) (simp_all add: after_scan_def)
  next
    case (claimed t)
    note rest = taken [OF claimed(1,3)]
    from claimed(2) show ?thesis
    proof (elim disjE exE)
      assume "r = Ok (Unhandled (t_Id t))"
      with rest show ?thesis
        by (intro moveI [OF moves(2) [OF claims.unhandled [OF assms(7) rest(1)]]]) (simp_all add: after_scan_def)
    next
      fix e assume "r = Err e"
      with rest show ?thesis
        by (intro moveI [OF moves(3) [OF scan_error.claim_lost [OF assms(7) rest(1)]]]) (simp_all add: after_scan_def)
    qed
  next
    case (err e)
    with assms(8,9) show ?thesis
      by (intro moveI [OF moves(3) [OF scan_error.backs_off [OF assms(7)]]]) (simp_all add: after_scan_def)
  next
    case (panics x)
    with assms(5) [of x] show ?thesis by blast
  qed
qed

text \<open>A pool whose scanner scans for its only worker, beside the tables of VM\_Demo.\<close>

definition scanning_pool :: "int list \<Rightarrow> pool" where
  "scanning_pool ids = \<lparr>scan_at = Scanning 0, backoff = initialBackoff, available = [], returning = [], workers = [AwaitingWork],
     queued = 0, event_held = False, listening = True, todo = ids\<rparr>"

lemma scanning_pool_ok: "workers_ok (scanning_pool ids)"
  by (auto simp: scanning_pool_def workers_ok_def held_def)

end
