(* ===== verification/VM_Lease.thy ===== *)
theory VM_Lease
  imports VM_System VM_Scan
begin

text \<open>
  A lease among all steps of the program (src/internal/lib/vmtask: worker.go, notify.go): from the claim of a task on, no
  request, scan, run of a handler or renewal before the end of the lease makes the task claimable, under any faults.
\<close>

section \<open>Tasks that cannot be claimed\<close>

text \<open>The task \<open>i\<close> is leased at least until \<open>e\<close>, or it has ended.\<close>

definition row_held :: "int \<Rightarrow> int \<Rightarrow> Task \<Rightarrow> bool" where
  "row_held i e t =
     (t_Id t = i \<longrightarrow> t_Status t = StatusCompleted \<or> t_Status t = StatusFailed \<or>
        t_Status t = StatusRunning \<and> (\<exists>l\<ge>e. t_LeaseExpiresAt t = Some l))"

definition task_held :: "int \<Rightarrow> int \<Rightarrow> Task list \<Rightarrow> seqs \<Rightarrow> bool" where
  "task_held i e ts q = (i \<in> t_Id ` set ts \<and> i \<le> task_seq q \<and> (\<forall>t\<in>set ts. row_held i e t))"

lemma row_held_simps:
  "t_Id t \<noteq> i \<Longrightarrow> row_held i e t" "row_held i e (stamp now t) = row_held i e t"
  by (simp_all add: row_held_def)

lemma held_not_claimable: "row_held i e t \<Longrightarrow> t_Id t = i \<Longrightarrow> now \<le> e \<Longrightarrow> \<not> claimable now t"
  by (auto simp: row_held_def claimable_def)

interpretation lease: tasks_invariant "task_held i e" for i e
  by unfold_locales (auto simp: task_held_def seq_le_def)

lemma held_update:
  assumes "task_held i e ts q" and "\<And>t. t_Id (g t) = t_Id t" and "\<And>t. row_held i e t \<Longrightarrow> R t \<Longrightarrow> row_held i e (g t)"
  shows "task_held i e (update_where R (\<lambda>t. stamp now (g t)) ts) q"
proof -
  have "t_Id ` set (update_where R (\<lambda>t. stamp now (g t)) ts) = t_Id ` set ts" using assms(2) by simp
  then show ?thesis using assms(1,3) by (auto simp: task_held_def row_held_simps elim!: update_whereE)
qed

lemma held_update_tasks:
  assumes "\<And>t. t_Id (g t) = t_Id t" and "\<And>t. row_held i e t \<Longrightarrow> R t \<Longrightarrow> row_held i e (g t)"
  shows "stmt_keeps (lease.I i e) (update_tasks R g)"
  using held_update [OF _ assms] by (auto simp: stmt_keeps_def update_tasks_def)

lemma held_ends:
  "stmt_keeps (lease.I i e) (complete_stmt P k None)" "stmt_keeps (lease.I i e) (fail_stmt k m)"
  "stmt_keeps (lease.I i e) (resume_stmt k)" "stmt_keeps (lease.I i e) (select_parent k)" "stmt_keeps (lease.I i e) notify_stmt"
  unfolding resume_stmt_def complete_stmt_def fail_stmt_def select_parent_def notify_stmt_def with_state_def
  by (auto intro!: stmt_keeps_task_arg held_update_tasks lease.inv.stmt_keeps_select lease.inv.stmt_keeps_modify
      simp: set_state_def row_held_def)

lemma held_renewal:
  assumes "k = i \<longrightarrow> e \<le> l"
  shows "stmt_keeps (lease.I i e) (renew_stmt k w l)"
  unfolding renew_stmt_def using assms by (intro stmt_keeps_task_arg held_update_tasks) (auto simp: row_held_def)

text \<open>A new task has a new id.\<close>

lemma held_insert: "stmt_keeps (lease.I i e) (insert_task P ty st parent)"
  unfolding insert_task_def
  by (rule stmt_keeps_task_arg)
    (auto simp: stmt_keeps_def task_held_def seq_le_def Let_def row_held_def split: option.splits)

lemmas held_intros = lease.inv.keeps_intros keeps_throw held_ends held_renewal held_insert

section \<open>The operations\<close>

lemma held_PostMedia: "keeps (sess_inv (lease.I i e)) (PostMedia P body)"
  unfolding PostMedia_def CreateDvdIngestionTask_def Create_def notify_def Let_def
  by (intro keeps_option lease.ks lease.keeps_media_steps held_ends(5) held_insert)

lemma held_serve: "sess_inv (lease.I i e) s \<Longrightarrow> sess_inv (lease.I i e) (serve P req s)"
  by (cases req)
    (simp_all add: keepsD [OF lease.framed_kinds(1)] keepsD [OF lease.framed_kinds(2)] keepsD [OF lease.framed_kinds(3)]
      keepsD [OF lease.framed_kinds(4)] keepsD [OF lease.framed_kinds(5)]
      keepsD [OF lease.keeps_cards(1)] keepsD [OF lease.keeps_cards(2)] keepsD [OF lease.keeps_cards(3)]
      keepsD [OF lease.keeps_cards(4)] keepsD [OF lease.keeps_cards(5)]
      keepsD [OF lease.keeps_media_sets(1)] keepsD [OF lease.keeps_media_sets(2)] keepsD [OF lease.keeps_media_sets(3)]
      keepsD [OF lease.keeps_media_sets(4)] keepsD [OF lease.keeps_media_sets(5)]
      keepsD [OF lease.keeps_media(1)] keepsD [OF lease.keeps_media(2)] keepsD [OF lease.keeps_media(3)]
      keepsD [OF lease.keeps_media(4)] keepsD [OF held_PostMedia])

lemma held_processTask:
  assumes "a_handler a = Handle p os_Rename"
  shows "keeps (sess_inv (lease.I i e)) (processTask P a)"
proof -
  have handle: "keeps (sess_inv (lease.I i e)) (Handle p os_Rename P k ty bytes)" for k ty bytes
    by (intro keeps_Handle lease.stmt_framed framed lease.inv.db_invariant_axioms)
  have "keeps (sess_inv (lease.I i e)) (applyResult P Tx k r)" if "plain_result r" for k r
    using that unfolding plain_result_def applyResult_def completeTask_def failTask_def maybeResumeParent_def notify_def
    by (auto intro!: held_intros)
  then show ?thesis
    unfolding processTask_def assms
    by (intro lease.inv.keeps_with_tx keeps_check_gives [OF handle Handle_gives] held_intros)
qed

lemma held_renewLease:
  assumes "k = i \<longrightarrow> e \<le> now + LeaseDuration"
  shows "keeps (sess_inv (lease.I i e)) (renewLease P w now k)"
  unfolding renewLease_def by (intro held_intros held_renewal [OF assms])

text \<open>A scan before the end of the lease takes another task.\<close>

lemma held_scan_effect:
  assumes "task_held i e (tasks d) q" and "scan_effect locked tys t0 w l d d'" and "t0 \<le> e"
  shows "task_held i e (tasks d') q"
proof (cases "d' = d")
  case False
  then obtain t where t: "next_task locked tys t0 d = Some t" and effect: "claim_effect (t_Id t) t0 w l d d'"
    using assms(2) by (auto simp: scan_effect_def)
  note least = next_task_least(1,2) [OF t]
  then have i: "t_Id t \<noteq> i" using held_not_claimable [OF _ _ assms(3)] assms(1) by (auto simp: task_held_def)
  have claim: "task_held i e (tasks (claim_in d (t_Id t) t0 w l)) q"
    unfolding claim_in_def using i by (auto intro!: held_update [OF assms(1)] row_held_simps(1) simp: claim_row_def)
  have "task_held i e (tasks (finished (claim_in d (t_Id t) t0 w l) (t_Id t) n (failed_row m))) q" for n m
    unfolding finished_def using i by (auto intro!: held_update [OF claim] row_held_simps(1) simp: failed_row_def)
  with claim effect show ?thesis by (auto simp: claim_effect_def)
qed (use assms(1) in simp)

section \<open>Steps before the end of a lease\<close>

text \<open>
  A step of the system, restricted by the lease of the task \<open>i\<close> until \<open>e\<close>: its scans run by then on the server's clock, and a
  renewal of the task itself does not set an earlier end. Requests and the work on any task, with any outcome, are
  not restricted.
\<close>

inductive lease_step :: "pg \<Rightarrow> Paths \<Rightarrow> int \<Rightarrow> int \<Rightarrow> sess \<Rightarrow> sess \<Rightarrow> bool" for S p i e where
  request: "same_server P S \<Longrightarrow> lease_step S p i e s (serve P req s)"
| scan: "same_server P S \<Longrightarrow> clock_at P (calls s) \<le> e \<Longrightarrow>
    lease_step S p i e s (snd (scanAndAssign P reg tys locked ctx_done now w s))"
| work: "same_server P S \<Longrightarrow> a_handler a = Handle p os_Rename \<Longrightarrow> lease_step S p i e s (snd (processTask P a s))"
| renew: "same_server P S \<Longrightarrow> k = i \<longrightarrow> e \<le> now + LeaseDuration \<Longrightarrow> lease_step S p i e s (snd (renewLease P w now k s))"

lemma lease_step_step: "lease_step S p i e s s' \<Longrightarrow> step S p s s'"
  by (induction rule: lease_step.induct) (auto intro: step.intros)

definition lease_inv :: "pg \<Rightarrow> int \<Rightarrow> int \<Rightarrow> sess \<Rightarrow> bool" where
  "lease_inv S i e s = (system_ok S {} s \<and> i \<in> t_Id ` set (tasks (committed s)) \<and> (\<forall>t\<in>set (tasks (committed s)). row_held i e t))"

lemma system_tasks_ok: "system_ok S X s \<Longrightarrow> tasks_ok (committed s) (seqs_of s)"
  by (simp add: system_ok_def at_rest_def good_tasks_ok)

lemma lease_inv_held: "lease_inv S i e s \<Longrightarrow> task_held i e (tasks (committed s)) (seqs_of s)"
  by (auto simp: lease_inv_def task_held_def dest!: system_tasks_ok) (auto simp: tasks_ok_def)

lemma lease_inv_sess: "lease_inv S i e s \<Longrightarrow> sess_inv (lease.I i e) s"
  using lease_inv_held [of S i e s] by (auto simp: lease_inv_def system_ok_def at_rest_def sess_inv_def)

lemma lease_invI: "system_ok S {} s \<Longrightarrow> task_held i e (tasks (committed s)) q \<Longrightarrow> lease_inv S i e s"
  by (auto simp: lease_inv_def task_held_def)

lemma lease_step_inv:
  assumes "jsonb_ok S" and step: "lease_step S p i e s s'" and inv: "lease_inv S i e s"
  shows "lease_inv S i e s'"
proof -
  have ok: "system_ok S {} s'" using step_system_ok [OF assms(1) lease_step_step [OF step]] inv by (simp add: lease_inv_def)
  have sess: ?thesis if "sess_inv (lease.I i e) s'" using that by (intro lease_invI [OF ok]) (auto simp: sess_inv_def)
  have kept: "sess_inv (lease.I i e) (snd (m s))" if "keeps (sess_inv (lease.I i e)) m" for m :: "'a prog"
    using that lease_inv_sess [OF inv] by (rule keepsD)
  from step show ?thesis
  proof cases
    case (request P req)
    show ?thesis by (rule sess) (simp add: request(1) held_serve [OF lease_inv_sess [OF inv]])
  next
    case (scan P reg tys locked c now w)
    obtain r where run: "scanAndAssign P reg tys locked c now w s = (r, s')" using scan(1) by (metis prod.collapse)
    have "tasks_ok (committed s) (seqs_of s)" using inv by (auto simp: lease_inv_def dest: system_tasks_ok)
    from held_scan_effect [OF lease_inv_held [OF inv] scan_committed [OF this run] scan(3)]
    show ?thesis by (rule lease_invI [OF ok])
  next
    case (work P a os_Rename)
    show ?thesis by (rule sess) (simp add: work(1) kept [OF held_processTask [OF work(3)]])
  next
    case (renew P k now w)
    show ?thesis by (rule sess) (simp add: renew(1) kept [OF held_renewLease [OF renew(3)]])
  qed
qed

lemma lease_steps_inv:
  assumes "(lease_step S p i e)\<^sup>*\<^sup>* s s'" and "jsonb_ok S" and "lease_inv S i e s"
  shows "lease_inv S i e s'"
  using assms(1,3) by (induction rule: rtranclp_induct) (auto intro: lease_step_inv [OF assms(2)])

section \<open>The lease is exclusive\<close>

lemma scan_assigns:
  assumes "tasks_ok (committed s) q0" and "scanAndAssign P reg tys locked c now w s = (Ok (Assigned a), s1)"
  obtains t where "next_task locked tys (clock_at P (calls s)) (committed s) = Some t" and "a_taskId a = t_Id t"
    and "committed s1 = claim_in (committed s) (t_Id t) (clock_at P (calls s)) w (now + LeaseDuration)"
  using assms by (cases rule: scan_cases) auto

lemma claim_starts_lease:
  assumes "jsonb_ok S" and "same_server P S" and "system_ok S {} s"
    and scan: "scanAndAssign P reg tys locked c now w s = (Ok (Assigned a), s1)"
  shows "lease_inv S (a_taskId a) (now + LeaseDuration) s1"
proof -
  have "step S p s s1" for p
    using step.scan [OF assms(2), where s = s and reg = reg and tys = tys and locked = locked and ctx_done = c and now = now and w = w]
    by (simp add: scan)
  then have ok: "system_ok S {} s1" by (rule step_system_ok [OF assms(1) _ assms(3)])
  obtain t where t: "next_task locked tys (clock_at P (calls s)) (committed s) = Some t" "a_taskId a = t_Id t"
    "committed s1 = claim_in (committed s) (t_Id t) (clock_at P (calls s)) w (now + LeaseDuration)"
    by (rule scan_assigns [OF system_tasks_ok [OF assms(3)] scan])
  have "t \<in> set (tasks (committed s))" using next_task_least(1) [OF t(1)] .
  moreover have "t_Id ` set (tasks (committed s1)) = t_Id ` set (tasks (committed s))" by (simp add: t(3) claim_in_def claim_row_def)
  moreover have "row_held (t_Id t) (now + LeaseDuration) u" if "u \<in> set (tasks (committed s1))" for u
    using that by (auto simp: t(3) claim_in_def row_held_def claim_row_def elim!: update_whereE split: if_splits)
  ultimately show ?thesis using ok by (simp add: lease_inv_def t(2))
qed

lemma lease_excludes_scan:
  assumes "lease_inv S i e s" and "scanAndAssign P reg tys locked c now w s = (Ok (Assigned a), s1)" and "clock_at P (calls s) \<le> e"
  shows "a_taskId a \<noteq> i"
proof -
  have "tasks_ok (committed s) (seqs_of s)" using assms(1) by (auto simp: lease_inv_def dest: system_tasks_ok)
  then obtain t where t: "next_task locked tys (clock_at P (calls s)) (committed s) = Some t" "a_taskId a = t_Id t"
    by (rule scan_assigns [OF _ assms(2)])
  with next_task_least(1,2) [OF t(1)] held_not_claimable [OF _ _ assms(3)] assms(1) show ?thesis
    by (auto simp: lease_inv_def)
qed

end
