(* ===== verification/VM_DemoMedia.thy ===== *)
theory VM_DemoMedia
  imports VM_Demo VM_Crash VM_Resource VM_Inbox VM_Lease
begin

text \<open>
  A concrete server and a concrete library of media on which the properties of media, media sets and
  ingestion are instantiated: one media set, one DVD that was ingested, and the task that did it.
\<close>

definition demo_jsonb_out :: "json \<Rightarrow> string" where
  "demo_jsonb_out v = (case v of JObj [(k, JNum n)] \<Rightarrow> CHR ''{'' # member_key k @ n @ ''}'' | _ \<Rightarrow> ''{}'')"

definition demo_media_id :: "json \<Rightarrow> int option" where
  "demo_media_id v =
     (case v of JObj [(k, JNum n)] \<Rightarrow> if k = ''media_id'' then Some (int (digits_value n)) else None | _ \<Rightarrow> None)"

definition media_pg :: pg where
  "media_pg = demo_pg\<lparr>jsonb_out := demo_jsonb_out, state_media_id := demo_media_id\<rparr>"

lemma media_pg_simps [simp]:
  "reliable media_pg = media_pg" "clock_at media_pg n = 1000" "fault_at media_pg n = NoFault" "late_at media_pg n = False"
  "jsonb_in media_pg = parse_json" "jsonb_out media_pg = demo_jsonb_out" "state_media_id media_pg = demo_media_id"
  by (simp_all add: media_pg_def demo_pg_def reliable_def)

lemma media_jsonb_ok: "jsonb_ok media_pg"
  unfolding jsonb_ok_def
proof
  fix i :: uint32
  let ?v = "JObj [(''media_id'', JNum (decimal (unat i)))]" and ?text = "marshal_ingestion \<lparr>MediaId = i\<rparr>"
  have "jsonb_in media_pg ?text = Some ?v" by (simp add: parse_json_ingestion)
  moreover have "jsonb_out media_pg ?v = ?text" by (simp add: demo_jsonb_out_def marshal_ingestion_def)
  moreover have "state_media_id media_pg ?v = Some (uint i)" by (simp add: demo_media_id_def)
  ultimately show "\<exists>v. jsonb_in media_pg ?text = Some v \<and> parse_json (jsonb_out media_pg v) = parse_json ?text \<and>
      (i \<le> max_serial \<longrightarrow> state_media_id media_pg v = Some (uint i))" by simp
qed

text \<open>The tasks of VM\_Demo on this server: a claim, a renewal of its lease, and the next scan.\<close>

lemma demo_system_ok: "system_ok media_pg {} demo_sess"
  using demo_good
  by (auto simp: system_ok_def at_rest_def sys_tasks_def failed_tasks_def ingest_ok_def ingests_def demo_db_def demo_task_def
      TaskTypeDvdIngestion_def)

lemma demo_lease:
  obtains a s1 where "scanAndAssign media_pg demo_registry [''ingest''] (\<lambda>_. False) False 1000 ''w2'' demo_sess = (Ok (Assigned a), s1)"
    and "a_taskId a = 2" and "committed s1 = claim_in demo_db 2 1000 ''w2'' (1000 + LeaseDuration)"
proof -
  let ?t = "demo_task 2 StatusRunning (Some ''w1'') (Some 500) (Some 1) 20"
  have "next_task (\<lambda>_. False) [''ingest''] 1000 demo_db = Some ?t" by code_simp
  moreover have "registry_Get demo_registry (t_TaskType ?t) = Ok (Some (demo_handler Completed))"
    by (simp add: demo_registry_def registry_Get_def demo_task_def)
  ultimately have "outcome (scanAndAssign media_pg demo_registry [''ingest''] (\<lambda>_. False) False 1000 ''w2'') demo_sess =
      (Ok (Assigned \<lparr>a_taskId = 2, a_taskType = t_TaskType ?t, a_state = jsonb_out media_pg (t_State ?t), a_handler = demo_handler Completed\<rparr>),
       claim_in demo_db 2 1000 ''w2'' (1000 + LeaseDuration), demo_seqs)"
    using scanAndAssign_claims [of demo_sess demo_seqs "\<lambda>_. False" "[''ingest'']" media_pg ?t demo_registry] demo_good
    by (simp add: demo_task_def)
  then show thesis by (rule outcome_OkE) (simp add: that)
qed

lemma demo_lease_scan:
  assumes "scanAndAssign media_pg demo_registry [''ingest''] (\<lambda>_. False) False 1000 ''w2'' demo_sess = (Ok (Assigned a), s1)"
    and "snd (renewLease media_pg ''w2'' 1500 2 s1) = s2"
  shows "\<exists>a' s3. scanAndAssign media_pg demo_registry [''ingest''] (\<lambda>_. False) False 2000 ''w3'' s2 = (Ok (Assigned a'), s3)"
proof -
  have same: "same_server media_pg media_pg" by (simp add: same_server_def)
  have s1: "committed s1 = claim_in demo_db 2 1000 ''w2'' (1000 + LeaseDuration)"
    by (rule demo_lease) (use assms(1) in simp)
  have "step media_pg \<lparr>RootDir = ''/srv''\<rparr> demo_sess s1"
    using step.scan [OF same, where s = demo_sess and reg = demo_registry and tys = "[''ingest'']" and locked = "\<lambda>_. False"
      and ctx_done = False and now = 1000 and w = "''w2''"] assms(1) by simp
  from step_system_ok [OF media_jsonb_ok this demo_system_ok] have ok1: "system_ok media_pg {} s1" .
  have "step media_pg \<lparr>RootDir = ''/srv''\<rparr> s1 s2"
    unfolding assms(2) [symmetric] by (rule step.renew [OF same])
  from step_system_ok [OF media_jsonb_ok this ok1] have good: "good (committed s2) (seqs_of s2)"
    by (simp add: system_ok_def at_rest_def)
  define d where "d = (claim_in demo_db 2 1000 ''w2'' (1000 + LeaseDuration))\<lparr>tasks :=
    update_where (\<lambda>t. t_Id t = 2 \<and> t_WorkerId t = Some ''w2'' \<and> t_Status t = StatusRunning)
      (\<lambda>t. stamp 1000 (t\<lparr>t_LeaseExpiresAt := Some (1500 + LeaseDuration)\<rparr>))
      (tasks (claim_in demo_db 2 1000 ''w2'' (1000 + LeaseDuration)))\<rparr>"
  have "list_all (\<lambda>t. t_Id t = 2 \<and> t_WorkerId t = Some ''w2'' \<and> t_Status t = StatusRunning \<longrightarrow>
      task_row_ok (t\<lparr>t_LeaseExpiresAt := Some (1500 + LeaseDuration)\<rparr>)) (tasks (claim_in demo_db 2 1000 ''w2'' (1000 + LeaseDuration)))"
    by code_simp
  then have d: "committed s2 = d"
    unfolding assms(2) [symmetric] d_def
    by (simp add: renewLease_def bind_def check_def Exec_def pg_run.simps Let_def renew_stmt_def task_arg_def max_task_id_def
        update_tasks_def s1 ret_def throw_def)
  let ?t = "demo_task 3 StatusPending None None (Some 1) 30"
  have "next_task (\<lambda>_. False) [''ingest''] 1000 d = Some ?t"
    unfolding d_def by code_simp
  moreover have "registry_Get demo_registry (t_TaskType ?t) = Ok (Some (demo_handler Completed))"
    by (simp add: demo_registry_def registry_Get_def demo_task_def)
  ultimately show ?thesis
    using scanAndAssign_claims [OF good, of "\<lambda>_. False" "[''ingest'']" media_pg ?t demo_registry "demo_handler Completed" 2000 "''w3''"]
    by (auto simp: d elim!: outcome_OkE)
qed

definition media_task :: "int \<Rightarrow> string \<Rightarrow> Status \<Rightarrow> Task" where
  "media_task k n st =
     \<lparr>t_Id = k, t_TaskType = TaskTypeDvdIngestion, t_State = JObj [(''media_id'', JNum n)], t_Status = st,
      t_WorkerId = (if st = StatusRunning then Some ''w1'' else None),
      t_LeaseExpiresAt = (if st = StatusRunning then Some 5000 else None), t_Error = None, t_ParentId = None,
      t_CreatedAt = 50, t_UpdatedAt = 60\<rparr>"

definition media_db :: db where
  "media_db = demo_db\<lparr>
     media_sets := [\<lparr>ms_id = 1, ms_name = ''Alien films'', ms_note = None\<rparr>],
     media_tbl := [\<lparr>m_id = 1, m_media_set_id = Some 1, m_note = None\<rparr>],
     media_dvds := [\<lparr>d_media_id = 1, d_path = ''media/dvd/1''\<rparr>],
     media_x_cards := [(1, 2)], media_sets_x_cards := [(1, 1)],
     tasks := [media_task 1 ''1'' StatusCompleted]\<rparr>"

definition media_seqs :: seqs where
  "media_seqs = \<lparr>card_seq = 2, kind_seq = 2, media_set_seq = 1, media_seq = 1, task_seq = 1\<rparr>"

definition media_sess :: sess where
  "media_sess = \<lparr>committed = media_db, seqs_of = media_seqs, txn = None, calls = 0, renames = []\<rparr>"

lemma media_sess_simps [simp]:
  "committed media_sess = media_db" "seqs_of media_sess = media_seqs" "txn media_sess = None" "calls media_sess = 0"
  "renames media_sess = []"
  by (simp_all add: media_sess_def)

lemma media_seqs_simps [simp]:
  "media_seq media_seqs = 1" "media_set_seq media_seqs = 1" "task_seq media_seqs = 1" "card_seq media_seqs = 2"
  by (simp_all add: media_seqs_def)

lemma media_good: "good media_db media_seqs"
  by (auto simp: good_def schema_defs media_db_def demo_db_def media_seqs_def empty_db_def media_task_def max_serial_def
      keyed_def count_where_def task_row_ok_def task_lease_check_def task_error_check_def
      details_ok_def one_detail_def TaskTypeDvdIngestion_def)

lemma media_ingests: "ingests media_pg i (media_task k ''1'' st) \<longleftrightarrow> i = 1"
proof -
  have "digits_value ''1'' = 1" by code_simp
  then show ?thesis by (auto simp: ingests_def media_task_def demo_media_id_def word_uint_eq_iff)
qed

lemma media_system_ok: "system_ok media_pg {} media_sess"
  using media_good media_ingests
  by (auto simp: system_ok_def at_rest_def sys_tasks_def failed_tasks_def ingest_ok_def media_db_def)

definition media_paths :: Paths where
  "media_paths = \<lparr>RootDir = ''/srv''\<rparr>"

definition demo_media_body :: PostMediaBody where
  "demo_media_body = \<lparr>pm_MediaSetId = Some 1, pm_Note = None, pm_DvdInboxPath = Some ''inbox/dvd/ALIENS'', pm_CardIds = [2, 1]\<rparr>"

lemma media_ready: "ready media_pg media_sess demo_media_body ''inbox/dvd/ALIENS''"
proof -
  have "post_media_ok media_db demo_media_body ''inbox/dvd/ALIENS''" by code_simp
  moreover have "1 < max_serial" "1 < max_task_id" by (simp_all add: max_serial_def max_task_id_def)
  ultimately show ?thesis
    using media_system_ok by (simp add: ready_def demo_media_body_def media_db_def media_task_def)
qed

text \<open>The file system of the examples: every move succeeds, or every move fails.\<close>

definition rename_ok :: os_rename where
  "rename_ok moved oldPath newPath = None"

definition rename_fails :: os_rename where
  "rename_fails moved oldPath newPath = Some (New ''no such file or directory'')"

text \<open>A failed task, and a running ingestion whose database fails at the end.\<close>

definition failed_task :: Task where
  "failed_task = (media_task 1 ''1'' StatusFailed)\<lparr>t_Error := Some ''disk full''\<rparr>"

definition failed_sess :: sess where
  "failed_sess = media_sess\<lparr>committed := media_db\<lparr>tasks := [failed_task]\<rparr>\<rparr>"

lemma media_good_task:
  assumes "t_Id t = 1" and "t_ParentId t = None" and "task_row_ok t"
  shows "good (media_db\<lparr>tasks := [t]\<rparr>) media_seqs"
proof -
  have "tasks_ok (media_db\<lparr>tasks := [t]\<rparr>) media_seqs" using assms by (simp add: tasks_ok_def keyed_def)
  from good_tasks [OF media_good, of "[t]" "task_seq media_seqs"] this show ?thesis by (simp del: media_seqs_simps)
qed

lemma failed_good: "good (committed failed_sess) media_seqs"
  using media_good_task [of failed_task]
  by (simp add: failed_sess_def failed_task_def media_task_def task_row_ok_def task_lease_check_def task_error_check_def
      TaskTypeDvdIngestion_def)

lemma failed_ingests: "ingests media_pg i failed_task \<longleftrightarrow> i = 1"
  using media_ingests [of i 1 StatusFailed] by (simp add: failed_task_def ingests_def)

lemma failed_system_ok: "system_ok media_pg {} failed_sess"
  using failed_good failed_ingests
  by (auto simp: system_ok_def at_rest_def sys_tasks_def failed_tasks_def ingest_ok_def failed_sess_def)

definition crash_pg :: pg where
  "crash_pg = media_pg\<lparr>fault_at := (\<lambda>n. if n = 3 then Refused (New ''connection reset'') else NoFault)\<rparr>"

definition crash_sess :: sess where
  "crash_sess = media_sess\<lparr>committed := media_db\<lparr>tasks := [media_task 1 ''1'' StatusRunning],
     media_dvds := [\<lparr>d_media_id = 1, d_path = ''inbox/dvd/ALIEN''\<rparr>]\<rparr>\<rparr>"

definition crash_assignment :: taskAssignment where
  "crash_assignment =
     \<lparr>a_taskId = 1, a_taskType = TaskTypeDvdIngestion, a_state = marshal_ingestion \<lparr>MediaId = 1\<rparr>,
      a_handler = Handle media_paths (moves_once (New ''no such file or directory''))\<rparr>"

lemma crash_good: "good (committed crash_sess) (seqs_of crash_sess)"
proof -
  have "good (media_db\<lparr>tasks := [media_task 1 ''1'' StatusRunning]\<rparr>) media_seqs"
    by (intro media_good_task)
      (simp_all add: media_task_def task_row_ok_def task_lease_check_def task_error_check_def TaskTypeDvdIngestion_def)
  from good_dvds [OF this, of "[\<lparr>d_media_id = 1, d_path = ''inbox/dvd/ALIEN''\<rparr>]"] show ?thesis
    by (simp add: crash_sess_def media_db_def keyed_def)
qed

lemma crash_ids: "\<forall>u\<in>set (tasks (committed crash_sess)). task_id_ok (t_Id u)"
  by (simp add: crash_sess_def media_task_def task_id_ok_def max_task_id_def)

lemma crash_assigned: "ingestion_of media_paths (moves_once (New ''no such file or directory'')) 1 crash_assignment"
  by (simp add: ingestion_of_def crash_assignment_def unmarshal_marshal_ingestion)

text \<open>Patches of the examples.\<close>

definition demo_media_patches :: "MediaPatch list" where
  "demo_media_patches =
     [\<lparr>mp_Note = Some ''rip again'', mp_MediaSetId = None, mp_ClearMediaSetId = None, mp_AddCardId = None, mp_RemoveCardId = None, mp_Dvd = None\<rparr>,
      \<lparr>mp_Note = None, mp_MediaSetId = None, mp_ClearMediaSetId = Some True, mp_AddCardId = None, mp_RemoveCardId = None, mp_Dvd = None\<rparr>]"

definition demo_set_patches :: "MediaSetPatch list" where
  "demo_set_patches =
     [\<lparr>sp_Name = Some ''Alien saga'', sp_Note = None, sp_ClearNote = None, sp_AddCardId = None, sp_RemoveCardId = None,
       sp_AddMediaId = None, sp_RemoveMediaId = None\<rparr>,
      \<lparr>sp_Name = None, sp_Note = None, sp_ClearNote = None, sp_AddCardId = Some 2, sp_RemoveCardId = None,
       sp_AddMediaId = None, sp_RemoveMediaId = None\<rparr>]"

definition demo_files :: "DirEntry list" where
  "demo_files = [\<lparr>de_Name = ''ALIENS'', de_IsDir = True\<rparr>, \<lparr>de_Name = ''readme.txt'', de_IsDir = False\<rparr>,
     \<lparr>de_Name = ''ALIEN'', de_IsDir = True\<rparr>]"

end
