(* ===== verification/VM_Client.thy ===== *)
theory VM_Client
  imports VM_CardOps
begin

text \<open>
  The client of the cards API (src/internal/lib/vmtest/client.go): single, void and paged responses, the loop
  that follows the page tokens, the options, and the five methods.

  The generated API client is not part of the repository. Each of its methods is a parameter, a \<^verbatim>\<open>call\<close> that
  answers a pointer to a response and an error, on a state of its own type; of the response the code reads the
  decoded body and the decoded problem. \<^verbatim>\<open>sprint\<close> is how \<^verbatim>\<open>%v\<close> prints a problem, and \<^verbatim>\<open>exam_Nil\<close> whether
  \<^verbatim>\<open>exam.Nil(e, env, err).Must()\<close> lets the test go on. A page of cards is the pair that the handler answers.
\<close>

section \<open>Responses\<close>

record ('a, 'p) api_response =
  JSON :: "'a option"
  ApplicationproblemJSONDefault :: "'p option"

type_synonym ('x, 'a, 'p, 's) call = "'x \<Rightarrow> 's \<Rightarrow> (('a, 'p) api_response option \<times> goerr option) \<times> 's"

record ('raw, 'happy) responseImpl =
  r_raw :: "'raw option"
  r_err :: "goerr option"
  r_getHappy :: "'raw option \<Rightarrow> goerr option \<Rightarrow> 'happy option result"

definition response_Raw :: "('raw, 'happy) responseImpl \<Rightarrow> 'raw option \<times> goerr option" where
  "response_Raw r = (r_raw r, r_err r)"

definition response_Get :: "('raw, 'happy) responseImpl \<Rightarrow> 'happy option result" where
  "response_Get r = (case r_err r of Some e \<Rightarrow> Err e | None \<Rightarrow> r_getHappy r (r_raw r) (r_err r))"

text \<open>\<^verbatim>\<open>Must\<close> ends the test (\<^verbatim>\<open>None\<close>) unless the error passes.\<close>

definition response_Must :: "(goerr option \<Rightarrow> bool) \<Rightarrow> ('raw, 'happy) responseImpl \<Rightarrow> 'happy option result option" where
  "response_Must exam_Nil r =
     (case response_Get r of
        Ok happy \<Rightarrow> if exam_Nil None then Some (Ok happy) else None
      | Err e \<Rightarrow> if exam_Nil (Some e) then Some (Ok None) else None
      | Panic p \<Rightarrow> Some (Panic p))"

record 'raw voidResponseImpl =
  v_raw :: "'raw option"
  v_err :: "goerr option"
  v_checkAppError :: "'raw option \<Rightarrow> goerr option \<Rightarrow> goerr option result"

definition void_Error :: "'raw voidResponseImpl \<Rightarrow> goerr option result" where
  "void_Error r = v_checkAppError r (v_raw r) (v_err r)"

definition void_Must :: "(goerr option \<Rightarrow> bool) \<Rightarrow> 'raw voidResponseImpl \<Rightarrow> unit result option" where
  "void_Must exam_Nil r =
     (case void_Error r of
        Ok err \<Rightarrow> if exam_Nil err then Some (Ok ()) else None
      | Err e \<Rightarrow> Some (Err e)
      | Panic p \<Rightarrow> Some (Panic p))"

section \<open>Paged responses\<close>

record ('raw, 'page, 'happy) pagedResponseImpl =
  pr_raw :: "'raw option list"
  pr_err :: "goerr option"
  pr_pages :: "'page option list"
  pr_happy :: "'happy list"

definition paged_Get :: "('raw, 'page, 'happy) pagedResponseImpl \<Rightarrow> 'happy list \<times> goerr option" where
  "paged_Get r = (pr_happy r, pr_err r)"

definition paged_GetPages :: "('raw, 'page, 'happy) pagedResponseImpl \<Rightarrow> 'page option list \<times> goerr option" where
  "paged_GetPages r = (pr_pages r, pr_err r)"

definition paged_Must :: "(goerr option \<Rightarrow> bool) \<Rightarrow> ('raw, 'page, 'happy) pagedResponseImpl \<Rightarrow> 'happy list option" where
  "paged_Must exam_Nil r = (if exam_Nil (pr_err r) then Some (pr_happy r) else None)"

definition paged_MustPages ::
  "(goerr option \<Rightarrow> bool) \<Rightarrow> ('raw, 'page, 'happy) pagedResponseImpl \<Rightarrow> 'page option list option" where
  "paged_MustPages exam_Nil r = (if exam_Nil (pr_err r) then Some (pr_pages r) else None)"

text \<open>
  \<^verbatim>\<open>fetchPage token pageSize\<close> asks for a page; \<^verbatim>\<open>readPage raw err\<close> gives the page, its entries and the next
  token, or fails. The loop ends on an error or an empty token, so it may not end: \<^verbatim>\<open>None\<close> is a client that
  never returns.
\<close>

record ('raw, 'page, 'happy, 's) pageReader =
  fetchPage :: "string option \<Rightarrow> uint32 option \<Rightarrow> 's \<Rightarrow> ('raw option \<times> goerr option) \<times> 's"
  readPage :: "'raw option \<Rightarrow> goerr option \<Rightarrow> ('page option \<times> 'happy list \<times> string) result"

partial_function (option) read_pages ::
  "('raw, 'page, 'happy, 's) pageReader \<Rightarrow> uint32 option \<Rightarrow> string \<Rightarrow> ('raw, 'page, 'happy) pagedResponseImpl \<Rightarrow> 's \<Rightarrow>
   (('raw, 'page, 'happy) pagedResponseImpl result \<times> 's) option" where
  "read_pages pr pageSize token acc s =
     (case fetchPage pr (Some token) pageSize s of
        ((raw, err), s1) \<Rightarrow>
          (case readPage pr raw err of
             Err e \<Rightarrow> Some (Ok (acc\<lparr>pr_err := Some e\<rparr>), s1)
           | Panic p \<Rightarrow> Some (Panic p, s1)
           | Ok (page, happy, nextToken) \<Rightarrow>
               (let acc1 = acc\<lparr>pr_raw := pr_raw acc @ [raw], pr_pages := pr_pages acc @ [page],
                               pr_happy := pr_happy acc @ happy\<rparr> in
                if nextToken = [] then Some (Ok acc1, s1)
                else read_pages pr pageSize nextToken acc1 s1)))"

definition ReadAll ::
  "('raw, 'page, 'happy, 's) pageReader \<Rightarrow> string option \<Rightarrow> uint32 option \<Rightarrow> 's \<Rightarrow>
   (('raw, 'page, 'happy) pagedResponseImpl result \<times> 's) option" where
  "ReadAll pr firstToken pageSize s =
     (let token = (case firstToken of Some t \<Rightarrow> t | None \<Rightarrow> []) in
      read_pages pr pageSize token \<lparr>pr_raw = [], pr_err = None, pr_pages = [], pr_happy = []\<rparr> s)"

section \<open>Options\<close>

record ListCardsParams =
  lp_PageSize :: "uint32 option"
  lp_PageToken :: "string option"

datatype ListCardsOption = pageSizeOptionImpl uint32 | pageTokenOptionImpl string

text \<open>The size is a signed number of 32 bits, converted to an unsigned one: a negative size becomes a large one.\<close>

definition WithPageSize :: "32 word \<Rightarrow> ListCardsOption" where
  "WithPageSize n = pageSizeOptionImpl (word_of_int (sint n))"

definition WithPageToken :: "string \<Rightarrow> ListCardsOption" where
  "WithPageToken token = pageTokenOptionImpl token"

primrec applyListCards :: "ListCardsOption \<Rightarrow> ListCardsParams \<Rightarrow> ListCardsParams" where
  "applyListCards (pageSizeOptionImpl p) params = params\<lparr>lp_PageSize := Some p\<rparr>"
| "applyListCards (pageTokenOptionImpl p) params = params\<lparr>lp_PageToken := Some p\<rparr>"

datatype nameOption = nameOptionImpl string

definition WithName :: "string \<Rightarrow> nameOption" where
  "WithName name = nameOptionImpl name"

primrec applyPostCard :: "nameOption \<Rightarrow> PostCardBody \<Rightarrow> PostCardBody" where
  "applyPostCard (nameOptionImpl n) body = body\<lparr>pc_Name := n\<rparr>"

primrec applyPatchCard :: "nameOption \<Rightarrow> CardPatch \<Rightarrow> CardPatch" where
  "applyPatchCard (nameOptionImpl n) body = body\<lparr>cp_Name := Some n\<rparr>"

text \<open>The zero values of the request types.\<close>

definition no_body :: PostCardBody where
  "no_body = \<lparr>pc_Name = [], pc_Note = None, pc_Details = \<lparr>cd_Movie = None, cd_MovieEdition = None\<rparr>\<rparr>"

definition no_patch :: CardPatch where
  "no_patch = \<lparr>cp_Name = None, cp_Note = None, cp_Movie = None, cp_MovieEdition = None\<rparr>"

definition list_params :: "ListCardsOption list \<Rightarrow> ListCardsParams" where
  "list_params opts = fold applyListCards opts \<lparr>lp_PageSize = None, lp_PageToken = None\<rparr>"

section \<open>The methods\<close>

definition handleResponseErrors :: "('p \<Rightarrow> string) \<Rightarrow> goerr option \<Rightarrow> 'p option \<Rightarrow> goerr option" where
  "handleResponseErrors sprint err resp =
     (case err of
        Some e \<Rightarrow> Some e
      | None \<Rightarrow> (case resp of None \<Rightarrow> None | Some p \<Rightarrow> Some (errorf (''application error: '' @ sprint p))))"

text \<open>Reading a field of a nil response panics, before the error is looked at.\<close>

definition getHappy :: "('p \<Rightarrow> string) \<Rightarrow> ('a, 'p) api_response option \<Rightarrow> goerr option \<Rightarrow> 'a option result" where
  "getHappy sprint raw err =
     (case raw of
        None \<Rightarrow> Panic nil_dereference
      | Some r \<Rightarrow>
          (case handleResponseErrors sprint err (ApplicationproblemJSONDefault r) of
             Some e \<Rightarrow> Err e
           | None \<Rightarrow> Ok (JSON r)))"

definition read_page ::
  "('p \<Rightarrow> string) \<Rightarrow> ('e list \<times> string option, 'p) api_response option \<Rightarrow> goerr option \<Rightarrow>
   (('e list \<times> string option) option \<times> 'e list \<times> string) result" where
  "read_page sprint raw err =
     (case raw of
        None \<Rightarrow> Panic nil_dereference
      | Some r \<Rightarrow>
          (case handleResponseErrors sprint err (ApplicationproblemJSONDefault r) of
             Some e \<Rightarrow> Err e
           | None \<Rightarrow>
               (case JSON r of
                  None \<Rightarrow> Panic nil_dereference
                | Some (entries, next) \<Rightarrow>
                    Ok (JSON r, entries, (case next of Some t \<Rightarrow> t | None \<Rightarrow> [])))))"

definition client_ListCards ::
  "('p \<Rightarrow> string) \<Rightarrow> (ListCardsParams, 'e list \<times> string option, 'p, 's) call \<Rightarrow> ListCardsOption list \<Rightarrow> 's \<Rightarrow>
   ((('e list \<times> string option, 'p) api_response, 'e list \<times> string option, 'e) pagedResponseImpl result \<times> 's) option" where
  "client_ListCards sprint ListCardsWithResponse opts s =
     (let params = list_params opts;
          fetch = (\<lambda>token pageSize. ListCardsWithResponse (params\<lparr>lp_PageToken := token, lp_PageSize := pageSize\<rparr>)) in
      ReadAll \<lparr>fetchPage = fetch, readPage = read_page sprint\<rparr> (lp_PageToken params) (lp_PageSize params) s)"

definition client_PostCard ::
  "('p \<Rightarrow> string) \<Rightarrow> (PostCardBody, 'a, 'p, 's) call \<Rightarrow> nameOption list \<Rightarrow> 's \<Rightarrow>
   (('a, 'p) api_response, 'a) responseImpl \<times> 's" where
  "client_PostCard sprint PostCardWithResponse opts s =
     (case PostCardWithResponse (fold applyPostCard opts no_body) s of
        ((rawResp, err), s1) \<Rightarrow> (\<lparr>r_raw = rawResp, r_err = err, r_getHappy = getHappy sprint\<rparr>, s1))"

definition client_DeleteCard ::
  "('p \<Rightarrow> string) \<Rightarrow> (uint32, 'a, 'p, 's) call \<Rightarrow> uint32 \<Rightarrow> 's \<Rightarrow> ('a, 'p) api_response voidResponseImpl \<times> 's" where
  "client_DeleteCard sprint DeleteCardWithResponse cardID s =
     (case DeleteCardWithResponse cardID s of
        ((rawResp, err), s1) \<Rightarrow>
          (\<lparr>v_raw = rawResp, v_err = err,
            v_checkAppError = (\<lambda>raw err.
              case raw of
                None \<Rightarrow> Panic nil_dereference
              | Some r \<Rightarrow> Ok (handleResponseErrors sprint err (ApplicationproblemJSONDefault r)))\<rparr>, s1))"

definition client_GetCard ::
  "('p \<Rightarrow> string) \<Rightarrow> (uint32, 'a, 'p, 's) call \<Rightarrow> uint32 \<Rightarrow> 's \<Rightarrow> (('a, 'p) api_response, 'a) responseImpl \<times> 's" where
  "client_GetCard sprint GetCardWithResponse cardID s =
     (case GetCardWithResponse cardID s of
        ((rawResp, err), s1) \<Rightarrow> (\<lparr>r_raw = rawResp, r_err = err, r_getHappy = getHappy sprint\<rparr>, s1))"

definition client_PatchCard ::
  "('p \<Rightarrow> string) \<Rightarrow> (uint32 \<times> CardPatch list, 'a, 'p, 's) call \<Rightarrow> uint32 \<Rightarrow> nameOption list \<Rightarrow> 's \<Rightarrow>
   (('a, 'p) api_response, 'a) responseImpl \<times> 's" where
  "client_PatchCard sprint PatchCardWithResponse cardID opts s =
     (case PatchCardWithResponse (cardID, map (\<lambda>opt. applyPatchCard opt no_patch) opts) s of
        ((rawResp, err), s1) \<Rightarrow> (\<lparr>r_raw = rawResp, r_err = err, r_getHappy = getHappy sprint\<rparr>, s1))"

section \<open>Following the tokens\<close>

text \<open>
  What the client relies on of the generated code and the network between it and the service: an answer of the
  handler arrives as the decoded body, an error as a decoded problem, and nothing else happens to the service.
\<close>

definition relays :: "('x, 'a, 'p, sess) call \<Rightarrow> ('x \<Rightarrow> 'a prog) \<Rightarrow> bool" where
  "relays call handler =
     ((\<forall>x s a s1. handler x s = (Ok a, s1) \<longrightarrow>
         call x s = ((Some \<lparr>JSON = Some a, ApplicationproblemJSONDefault = None\<rparr>, None), s1)) \<and>
      (\<forall>x s e s1. handler x s = (Err e, s1) \<longrightarrow>
         (\<exists>p. call x s = ((Some \<lparr>JSON = None, ApplicationproblemJSONDefault = Some p\<rparr>, None), s1))))"

lemma relays_outcome:
  assumes "relays call handler" and "outcome (handler x) s = (Ok a, d, q)"
  obtains s1 where "call x s = ((Some \<lparr>JSON = Some a, ApplicationproblemJSONDefault = None\<rparr>, None), s1)"
    and "committed s1 = d" and "seqs_of s1 = q"
  using assms unfolding relays_def by (metis outcome_OkE)

lemma relays_error:
  assumes "relays call handler" and "outcome (handler x) s = (Err e, d, q)"
  obtains s1 p where "call x s = ((Some \<lparr>JSON = None, ApplicationproblemJSONDefault = Some p\<rparr>, None), s1)"
    and "committed s1 = d" and "seqs_of s1 = q"
proof -
  obtain s1 where "handler x s = (Err e, s1)" "committed s1 = d" "seqs_of s1 = q"
    using assms(2) by (cases "handler x s") (auto simp: outcome_def)
  with assms(1) that show thesis unfolding relays_def by blast
qed

text \<open>A connection without losses relays a handler; a handler that panics closes it.\<close>

definition direct :: "('x \<Rightarrow> 'a prog) \<Rightarrow> ('x, 'a, goerr, sess) call" where
  "direct handler x s =
     (case handler x s of
        (Ok a, s1) \<Rightarrow> ((Some \<lparr>JSON = Some a, ApplicationproblemJSONDefault = None\<rparr>, None), s1)
      | (Err e, s1) \<Rightarrow> ((Some \<lparr>JSON = None, ApplicationproblemJSONDefault = Some e\<rparr>, None), s1)
      | (Panic p, s1) \<Rightarrow> ((None, Some (New ''EOF'')), s1))"

lemma relays_direct: "relays (direct handler) handler"
  by (simp add: relays_def direct_def)

lemma read_page_answer:
  "read_page sprint (Some \<lparr>JSON = Some (es, next), ApplicationproblemJSONDefault = None\<rparr>) None =
     Ok (Some (es, next), es, (case next of Some t \<Rightarrow> t | None \<Rightarrow> []))"
  "read_page sprint (Some \<lparr>JSON = x, ApplicationproblemJSONDefault = Some p\<rparr>) None =
     Err (errorf (''application error: '' @ sprint p))"
  by (simp_all add: read_page_def handleResponseErrors_def)

text \<open>An empty token is not the missing one: the service cannot decode it.\<close>

lemma empty_token_refused:
  "toLastSeenId (Some []) =
     Err (HttpError ProblemBadRequest 400 (bad_token '': could not decode json data: '' (Wrapped json_error End)))"
proof -
  have "DecodeString [] = Some []" "unmarshal_id_page [] = None" by code_simp+
  then show ?thesis by (simp add: toLastSeenId_def bad_token_def json_error_def)
qed

lemma fromLastSeenId_nonempty: "fromLastSeenId i \<noteq> []"
  using toLastSeenId_fromLastSeenId [of i] empty_token_refused by fastforce

definition pager :: "('p \<Rightarrow> string) \<Rightarrow> (ListCardsParams, 'e list \<times> string option, 'p, 's) call \<Rightarrow> ListCardsParams \<Rightarrow>
   (('e list \<times> string option, 'p) api_response, 'e list \<times> string option, 'e, 's) pageReader" where
  "pager sprint call params =
     \<lparr>fetchPage = (\<lambda>token pageSize. call (params\<lparr>lp_PageToken := token, lp_PageSize := pageSize\<rparr>)),
      readPage = read_page sprint\<rparr>"

lemma client_ListCards_pages:
  "client_ListCards sprint call opts s =
     read_pages (pager sprint call (list_params opts)) (lp_PageSize (list_params opts))
       (case lp_PageToken (list_params opts) of Some t \<Rightarrow> t | None \<Rightarrow> [])
       \<lparr>pr_raw = [], pr_err = None, pr_pages = [], pr_happy = []\<rparr> s"
  by (simp add: client_ListCards_def ReadAll_def pager_def Let_def)

context paged_listing
begin

abbreviation relayed :: "(ListCardsParams, 'e list \<times> string option, 'p, sess) call \<Rightarrow> bool" where
  "relayed call \<equiv> relays call (\<lambda>p. listing (lp_PageSize p) (lp_PageToken p))"

lemma fetched:
  assumes "relayed call" and "ok (committed s)" and "toLastSeenId (Some tok) = Ok v" and "v \<le> max_serial"
  obtains s1 raw where
    "fetchPage (pager sprint call params) (Some tok) want s = ((Some raw, None), s1)"
    and "committed s1 = committed s" and "seqs_of s1 = seqs_of s"
    and "\<exists>page. readPage (pager sprint call params) (Some raw) None =
       Ok (page, map (view (committed s)) (take (unat (page_size want)) (rows_above key v (tbl (committed s)))),
           case next_token key (page_size want) (rows_above key v (tbl (committed s))) of Some t \<Rightarrow> t | None \<Rightarrow> [])"
proof -
  let ?rs = "rows_above key v (tbl (committed s))"
  let ?p = "params\<lparr>lp_PageToken := Some tok, lp_PageSize := want\<rparr>"
  have "outcome (listing (lp_PageSize ?p) (lp_PageToken ?p)) s =
      (Ok (map (view (committed s)) (take (unat (page_size want)) ?rs), next_token key (page_size want) ?rs),
       committed s, seqs_of s)"
    using page [OF assms(2-4), of want] by (simp add: Let_def)
  from relays_outcome [where handler = "\<lambda>p. listing (lp_PageSize p) (lp_PageToken p)", OF assms(1) this]
  obtain s1 where "call ?p s = ((Some \<lparr>JSON = Some (map (view (committed s)) (take (unat (page_size want)) ?rs),
      next_token key (page_size want) ?rs), ApplicationproblemJSONDefault = None\<rparr>, None), s1)"
    and "committed s1 = committed s" "seqs_of s1 = seqs_of s" .
  then show thesis by (intro that [of _ s1]) (auto simp: pager_def read_page_answer)
qed

text \<open>With pages of one entry or more the loop ends, with every row above the token's id, in key order.\<close>

lemma read_pages_rows:
  assumes "relayed call" and "want \<noteq> Some 0"
    and "ok (committed s)" and "toLastSeenId (Some tok) = Ok v" and "v \<le> max_serial"
  shows "\<exists>r s1. read_pages (pager sprint call params) want tok acc s = Some (Ok r, s1) \<and> pr_err r = pr_err acc \<and>
    pr_happy r = pr_happy acc @ map (view (committed s)) (rows_above key v (tbl (committed s))) \<and>
    committed s1 = committed s \<and> seqs_of s1 = seqs_of s"
  using assms(3-5)
proof (induction "length (rows_above key v (tbl (committed s)))" arbitrary: tok v acc s rule: less_induct)
  case less
  let ?d = "committed s" and ?pr = "pager sprint call params"
  let ?rs = "rows_above key v (tbl ?d)" and ?n = "unat (page_size want)"
  let ?k = "key (last (take ?n ?rs))"
  have n: "0 < ?n" using page_size_pos assms(2) .
  have ser: "serial_ok key max_serial (tbl ?d)" using key_serial less.prems(1) .
  obtain s1 raw page where f: "fetchPage ?pr (Some tok) want s = ((Some raw, None), s1)"
    and s1: "committed s1 = ?d" "seqs_of s1 = seqs_of s"
    and r: "readPage ?pr (Some raw) None = Ok (page, map (view ?d) (take ?n ?rs),
      case next_token key (page_size want) ?rs of Some t \<Rightarrow> t | None \<Rightarrow> [])"
    using fetched [OF assms(1) less.prems] by metis
  let ?acc = "acc\<lparr>pr_raw := pr_raw acc @ [Some raw], pr_pages := pr_pages acc @ [page],
      pr_happy := pr_happy acc @ map (view ?d) (take ?n ?rs)\<rparr>"
  show ?case
  proof (cases "?n < length ?rs")
    case False
    then show ?thesis by (subst read_pages.simps) (simp add: f r s1 next_token_def Let_def)
  next
    case True
    then have "last (take ?n ?rs) \<in> set ?rs" using n by (intro last_take_in_set) auto
    then have "last (take ?n ?rs) \<in> set (tbl ?d)" by (auto simp: rows_above_def)
    then have k: "?k \<le> max_serial" using ser by (auto simp: serial_ok_def)
    have rest: "rows_above key ?k (tbl ?d) = drop ?n ?rs"
      using rows_above_next [OF _ n less_imp_le [OF True]] ser by (simp add: serial_ok_def)
    have "page_size want \<noteq> 0" using n by auto
    with True have "read_pages ?pr want tok acc s = read_pages ?pr want (fromLastSeenId ?k) ?acc s1"
      by (subst read_pages.simps) (simp add: f r next_token_def Let_def fromLastSeenId_nonempty)
    moreover have "length (rows_above key ?k (tbl (committed s1))) < length ?rs"
      using True n by (simp add: s1 rest)
    ultimately show ?thesis
      using less.hyps [of ?k s1 "fromLastSeenId ?k" ?acc] less.prems(1) k
      by (simp add: s1 rest toLastSeenId_fromLastSeenId flip: map_append)
  qed
qed

text \<open>With pages of no entry the loop does not end: each token leads back to the start.\<close>

lemma read_pages_zero:
  assumes "relayed call" and "read_pages (pager sprint call params) (Some 0) tok acc s = Some r"
    and "ok (committed s)" and "toLastSeenId (Some tok) = Ok 0"
  shows "rows_above key 0 (tbl (committed s)) = []"
proof -
  have "pr = pager sprint call params \<longrightarrow> want = Some 0 \<longrightarrow> ok (committed s) \<longrightarrow> toLastSeenId (Some tok) = Ok 0 \<longrightarrow>
      rows_above key 0 (tbl (committed s)) = []"
    if "read_pages pr want tok acc s = Some r" for pr want tok acc s r
    using that
  proof (rule read_pages.raw_induct [rotated], intro impI)
    fix f pr want tok acc s r
    assume IH: "\<And>pr want tok acc s r. f pr want tok acc s = Some r \<Longrightarrow>
        pr = pager sprint call params \<longrightarrow> want = Some 0 \<longrightarrow> ok (committed s) \<longrightarrow> toLastSeenId (Some tok) = Ok 0 \<longrightarrow>
        rows_above key 0 (tbl (committed s)) = []"
      and body: "(case fetchPage pr (Some tok) want s of ((raw, err), s1) \<Rightarrow>
          (case readPage pr raw err of
             Err e \<Rightarrow> Some (Ok (acc\<lparr>pr_err := Some e\<rparr>), s1)
           | Panic p \<Rightarrow> Some (Panic p, s1)
           | Ok (page, happy, nextToken) \<Rightarrow>
               (let acc1 = acc\<lparr>pr_raw := pr_raw acc @ [raw], pr_pages := pr_pages acc @ [page],
                               pr_happy := pr_happy acc @ happy\<rparr> in
                if nextToken = [] then Some (Ok acc1, s1) else f pr want nextToken acc1 s1))) = Some r"
      and start: "pr = pager sprint call params" "want = Some 0" "ok (committed s)" "toLastSeenId (Some tok) = Ok 0"
    show "rows_above key 0 (tbl (committed s)) = []"
    proof (rule ccontr)
      assume rows: "rows_above key 0 (tbl (committed s)) \<noteq> []"
      then have zero: "take (unat (page_size (Some 0))) (rows_above key 0 (tbl (committed s))) = []"
          "next_token key (page_size (Some 0)) (rows_above key 0 (tbl (committed s))) = Some (fromLastSeenId 0)"
          "(0 :: uint32) \<le> max_serial" "map (view (committed s)) [] = []"
          "(case Some (fromLastSeenId 0) of Some t \<Rightarrow> t | None \<Rightarrow> []) = fromLastSeenId 0"
        by (simp_all add: max_serial_def next_token_def page_size_def)
      obtain s1 raw page where "fetchPage pr (Some tok) want s = ((Some raw, None), s1)" and s1: "committed s1 = committed s"
        and "readPage pr (Some raw) None = Ok (page, [], fromLastSeenId 0)"
        using fetched [OF assms(1) start(3,4), of sprint params want] zero unfolding start(1,2) by metis
      then have "f pr want (fromLastSeenId 0) (acc\<lparr>pr_raw := pr_raw acc @ [Some raw], pr_pages := pr_pages acc @ [page],
          pr_happy := pr_happy acc\<rparr>) s1 = Some r"
        using body by (simp add: Let_def fromLastSeenId_nonempty)
      from IH [OF this] rows show False
        using start(1-3) by (simp add: s1 toLastSeenId_fromLastSeenId)
    qed
  qed
  with assms(2-4) show ?thesis by blast
qed

end


section \<open>What the client makes of the service\<close>

lemma client_lists_cards:
  assumes "good (committed s) q0" and "relays call (\<lambda>p. ListCards (reliable P) (lp_PageSize p) (lp_PageToken p))"
    and "lp_PageToken (list_params opts) = Some tok" and "lp_PageSize (list_params opts) \<noteq> Some 0"
    and "toLastSeenId (Some tok) = Ok v" and "v \<le> max_serial"
  shows "\<exists>r s1. client_ListCards sprint call opts s = Some (Ok r, s1) \<and>
    paged_Get r = (map card_of_join (rows_above cj_Id v (card_joins (committed s))), None) \<and>
    committed s1 = committed s \<and> seqs_of s1 = seqs_of s"
proof -
  have "consistent (committed s)" using assms(1) by (auto simp: consistent_def good_def)
  from card_pages.read_pages_rows [OF assms(2,4) this assms(5,6), of sprint "list_params opts"
      "\<lparr>pr_raw = [], pr_err = None, pr_pages = [], pr_happy = []\<rparr>"]
  show ?thesis by (auto simp: client_ListCards_pages assms(3) paged_Get_def)
qed

lemma client_never_returns:
  assumes "good (committed s) q0" and "relays call (\<lambda>p. ListCards (reliable P) (lp_PageSize p) (lp_PageToken p))"
    and "lp_PageToken (list_params opts) = Some tok" and "lp_PageSize (list_params opts) = Some 0"
    and "toLastSeenId (Some tok) = Ok 0" and "catalog_cards (committed s) \<noteq> []"
  shows "client_ListCards sprint call opts s = None"
proof (rule ccontr)
  have ok: "schema_ok (committed s) q0" using assms(1) by (simp add: good_def)
  then have con: "consistent (committed s)" by (auto simp: consistent_def)
  assume "client_ListCards sprint call opts s \<noteq> None"
  then obtain r where "read_pages (pager sprint call (list_params opts)) (Some 0) tok
      \<lparr>pr_raw = [], pr_err = None, pr_pages = [], pr_happy = []\<rparr> s = Some r"
    by (auto simp: client_ListCards_pages assms(3,4))
  from card_pages.read_pages_zero [OF assms(2) this con assms(5)]
  have "set (filter (\<lambda>r. 0 < cj_Id r) (card_joins (committed s))) = {}"
    unfolding rows_above_def by (metis set_sort list.set(1))
  moreover have "\<forall>r\<in>set (card_joins (committed s)). 0 < cj_Id r"
    using card_pages.key_serial [OF con] by (auto simp: serial_ok_def)
  ultimately show False using assms(6) by (auto simp: filter_empty_conv card_joins_map [OF ok])
qed

text \<open>Without a token option the first request carries an empty token, which the service refuses.\<close>

lemma ListCards_empty_token:
  "\<exists>e. outcome (ListCards P want (Some [])) s = (Err (HttpError ProblemBadRequest 400 e), committed s, seqs_of s)"
proof -
  have "contains list_cards_sql ''@limit''" "contains list_cards_sql ''@lastSeenId''" using card_pages.text_ok by simp_all
  then show ?thesis
    by (simp add: ListCards_def ListPtr_def statement_def empty_token_refused check_def outcome_def)
qed

lemma client_first_page:
  assumes "relays call (\<lambda>p. ListCards P (lp_PageSize p) (lp_PageToken p))"
    and "lp_PageToken (list_params opts) = None"
  shows "\<exists>r s1 e. client_ListCards sprint call opts s = Some (Ok r, s1) \<and> paged_Get r = ([], Some e) \<and>
    committed s1 = committed s"
proof -
  let ?p = "(list_params opts)\<lparr>lp_PageToken := Some [], lp_PageSize := lp_PageSize (list_params opts)\<rparr>"
  obtain e where "outcome (ListCards P (lp_PageSize ?p) (lp_PageToken ?p)) s =
      (Err (HttpError ProblemBadRequest 400 e), committed s, seqs_of s)"
    using ListCards_empty_token [of P "lp_PageSize (list_params opts)" s] by auto
  from relays_error [where handler = "\<lambda>p. ListCards P (lp_PageSize p) (lp_PageToken p)", OF assms(1) this]
  obtain s1 p where "call ?p s = ((Some \<lparr>JSON = None, ApplicationproblemJSONDefault = Some p\<rparr>, None), s1)"
    and "committed s1 = committed s" .
  then show ?thesis
    by (subst client_ListCards_pages, subst read_pages.simps)
      (simp add: assms(2) pager_def read_page_answer paged_Get_def)
qed

text \<open>The options of a new card give it no details, so that the service refuses it, whatever its name.\<close>

lemma posted_details: "pc_Details (fold applyPostCard opts no_body) = \<lparr>cd_Movie = None, cd_MovieEdition = None\<rparr>"
proof -
  have "pc_Details (fold applyPostCard opts b) = pc_Details b" for b
  proof (induction opts arbitrary: b)
    case (Cons opt opts)
    then show ?case by (cases opt) simp
  qed simp
  then show ?thesis by (simp add: no_body_def)
qed

lemma client_posts_no_card:
  assumes "good (committed s) (seqs_of s)" and "card_seq (seqs_of s) < max_serial"
    and "relays call (\<lambda>b. PostCard (reliable P) (Some b))"
  shows "\<exists>r s1 e. client_PostCard sprint call opts s = (r, s1) \<and> response_Get r = Err e \<and> committed s1 = committed s"
proof -
  let ?b = "fold applyPostCard opts no_body"
  have "\<not> valid_details (committed s) (pc_Details ?b)" by (simp add: posted_details valid_details_def)
  then obtain e q' where "outcome (PostCard (reliable P) (Some ?b)) s = (Err e, committed s, q')"
    using PostCard_refuses [OF assms(1,2)] by blast
  from relays_error [where handler = "\<lambda>b. PostCard (reliable P) (Some b)", OF assms(3) this]
  obtain s1 p where "call ?b s = ((Some \<lparr>JSON = None, ApplicationproblemJSONDefault = Some p\<rparr>, None), s1)"
    and "committed s1 = committed s" .
  then show ?thesis by (simp add: client_PostCard_def response_Get_def getHappy_def handleResponseErrors_def)
qed

text \<open>
  A failed request has no response. The methods with one card report the error; the listing and the deletion
  read the missing response first.
\<close>

lemma client_without_response:
  assumes "call i s = ((None, Some e), s1)"
  shows "response_Get (fst (client_GetCard sprint call i s)) = Err e"
    and "void_Error (fst (client_DeleteCard sprint call i s)) = Panic nil_dereference"
  using assms by (simp_all add: client_GetCard_def client_DeleteCard_def response_Get_def void_Error_def)

lemma client_listing_without_response:
  assumes "\<And>p. call p s = ((None, Some e), s)"
  shows "client_ListCards sprint call opts s = Some (Panic nil_dereference, s)"
  by (subst client_ListCards_pages, subst read_pages.simps) (simp add: pager_def read_page_def assms)

section \<open>The matcher for errors of the services\<close>

text \<open>src/internal/lib/vmtest/http\_error.go: whether an error carries the problem, and the text if not.\<close>

definition match_HttpError :: "Problem \<Rightarrow> goerr option \<Rightarrow> bool \<times> string" where
  "match_HttpError problem got =
     (case (case got of None \<Rightarrow> None | Some e \<Rightarrow> as_HttpError e) of
        None \<Rightarrow> (False, ''expected vmerr.HttpError, got different error type'')
      | Some (p, st, e) \<Rightarrow>
          if p \<noteq> problem then (False, ''expected problem '' @ problem @ '', got '' @ p) else (True, []))"

text \<open>The matcher sees the problem of the outermost wrapped error, through any text around it.\<close>

lemma match_HttpError_wrapped:
  assumes "as_HttpError e = Some (p, st, e0)"
  shows "fst (match_HttpError problem (Some (wrapf msg e))) \<longleftrightarrow> p = problem"
  using assms by (simp add: match_HttpError_def)

end
