(* ===== verification/VM_Overlap.thy ===== *)
theory VM_Overlap
  imports VM_TaskOps
begin

text \<open>
  Transactions of the task system that overlap. Scanners and workers run theirs at READ COMMITTED
  (src/internal/lib/vmtask: \<^verbatim>\<open>scanAndAssign\<close> in notify.go, \<^verbatim>\<open>processTask\<close> in worker.go), so that each statement sees what is
  committed when it starts, with the transaction's own changes on top. The table of tasks is modelled with its uncommitted
  row versions: a version belongs to the transaction that wrote it and locks its row for all others. An UPDATE of a locked
  row waits, and looks again when the lock is gone; FOR UPDATE SKIP LOCKED passes a locked row by. A failed CHECK
  aborts the statement. Rows that are inserted while other transactions are open are left out. The heartbeat's renewal is a
  statement of its own at the default level of the server; READ COMMITTED covers it, as a stricter level could only refuse more.
\<close>

section \<open>Row versions\<close>

record shared =
  rc_rows :: "Task list"
  rc_vers :: "(nat \<times> Task) list"

definition version :: "nat \<Rightarrow> shared \<Rightarrow> Task \<Rightarrow> Task" where
  "version x s t = (case find (\<lambda>(y, u). y = x \<and> t_Id u = t_Id t) (rc_vers s) of Some (y, u) \<Rightarrow> u | None \<Rightarrow> t)"

definition visible :: "nat \<Rightarrow> shared \<Rightarrow> Task list" where
  "visible x s = map (version x s) (rc_rows s)"

definition locked_for :: "nat \<Rightarrow> shared \<Rightarrow> int \<Rightarrow> bool" where
  "locked_for x s i = list_ex (\<lambda>(y, u). y \<noteq> x \<and> t_Id u = i) (rc_vers s)"

definition rc_write :: "nat \<Rightarrow> Task list \<Rightarrow> shared \<Rightarrow> shared" where
  "rc_write x us s = s\<lparr>rc_vers := map (Pair x) us @ filter (\<lambda>(y, u). \<not> (y = x \<and> t_Id u \<in> t_Id ` set us)) (rc_vers s)\<rparr>"

definition rc_commit :: "nat \<Rightarrow> shared \<Rightarrow> shared" where
  "rc_commit x s = \<lparr>rc_rows = visible x s, rc_vers = filter (\<lambda>(y, u). y \<noteq> x) (rc_vers s)\<rparr>"

definition rc_rollback :: "nat \<Rightarrow> shared \<Rightarrow> shared" where
  "rc_rollback x s = s\<lparr>rc_vers := filter (\<lambda>(y, u). y \<noteq> x) (rc_vers s)\<rparr>"

section \<open>Statements\<close>

text \<open>The updates of the program on the table, as the row they are about, their condition and their effect.\<close>

datatype task_update =
    Renew int string int
  | SetState int "json option" Status
  | Complete int "json option"
  | Fail int string
  | ResumeWaiting int
  | ResumeState int json
  | CancelLive int

fun target :: "task_update \<Rightarrow> int" where
  "target (Renew i w e) = i" | "target (SetState i v st) = i" | "target (Complete i v) = i" | "target (Fail i m) = i"
| "target (ResumeWaiting i) = i" | "target (ResumeState i v) = i" | "target (CancelLive i) = i"

fun applies :: "task_update \<Rightarrow> Task \<Rightarrow> bool" where
  "applies (Renew i w e) t = (t_WorkerId t = Some w \<and> t_Status t = StatusRunning)"
| "applies (SetState i v st) t = True"
| "applies (Complete i v) t = True"
| "applies (Fail i m) t = True"
| "applies (ResumeWaiting i) t = (t_Status t = StatusWaiting)"
| "applies (ResumeState i v) t = (t_Status t = StatusWaiting)"
| "applies (CancelLive i) t = live t"

fun effect :: "task_update \<Rightarrow> Task \<Rightarrow> Task" where
  "effect (Renew i w e) t = t\<lparr>t_LeaseExpiresAt := Some e\<rparr>"
| "effect (SetState i v st) t = release ((set_state v t)\<lparr>t_Status := st\<rparr>)"
| "effect (Complete i v) t = release ((set_state v t)\<lparr>t_Status := StatusCompleted\<rparr>)"
| "effect (Fail i m) t = release (t\<lparr>t_Status := StatusFailed, t_Error := Some m\<rparr>)"
| "effect (ResumeWaiting i) t = t\<lparr>t_Status := StatusPending\<rparr>"
| "effect (ResumeState i v) t = t\<lparr>t_Status := StatusPending, t_State := v\<rparr>"
| "effect (CancelLive i) t = cancelled_row t"

datatype rc_result = Waits | Aborts | Done nat shared

definition rc_exec :: "nat \<Rightarrow> task_update \<Rightarrow> int \<Rightarrow> shared \<Rightarrow> rc_result" where
  "rc_exec x u now s =
     (let ts = filter (\<lambda>t. t_Id t = target u \<and> applies u t) (visible x s) in
      if list_ex (\<lambda>t. locked_for x s (t_Id t)) ts then Waits
      else if \<not> list_all (\<lambda>t. task_row_ok (effect u t)) ts then Aborts
      else Done (length ts) (rc_write x (map (\<lambda>t. stamp now (effect u t)) ts) s))"

text \<open>The claim of a scan at the time \<^verbatim>\<open>now\<close> of its transaction.\<close>

definition rc_claim :: "nat \<Rightarrow> string list \<Rightarrow> string \<Rightarrow> int \<Rightarrow> int \<Rightarrow> shared \<Rightarrow> (int \<times> shared) option" where
  "rc_claim x tys w e now s =
     (case next_task (locked_for x s) tys now (empty_db\<lparr>tasks := visible x s\<rparr>) of
        None \<Rightarrow> None
      | Some t \<Rightarrow> Some (t_Id t, rc_write x [stamp now (claim_row w e t)] s))"


definition about :: "task_update \<Rightarrow> Task \<Rightarrow> bool" where
  "about u t = (t_Id t = target u \<and> applies u t)"

text \<open>They are the statements of the sequential model.\<close>

lemma effect_eqs:
  "effect (Renew i w e) = (\<lambda>t. t\<lparr>t_LeaseExpiresAt := Some e\<rparr>)"
  "effect (SetState i v st) = (\<lambda>t. release ((set_state v t)\<lparr>t_Status := st\<rparr>))"
  "effect (Complete i v) = (\<lambda>t. release ((set_state v t)\<lparr>t_Status := StatusCompleted\<rparr>))"
  "effect (Fail i m) = (\<lambda>t. release (t\<lparr>t_Status := StatusFailed, t_Error := Some m\<rparr>))"
  "effect (ResumeWaiting i) = (\<lambda>t. t\<lparr>t_Status := StatusPending\<rparr>)"
  "effect (ResumeState i j) = (\<lambda>t. t\<lparr>t_Status := StatusPending, t_State := j\<rparr>)"
  "effect (CancelLive i) = cancelled_row"
  by (rule ext, simp)+

lemma statements_are_updates:
  "renew_stmt i w e = task_arg [i] (update_tasks (about (Renew i w e)) (effect (Renew i w e)))"
  "update_state_stmt P i ns st =
     task_arg [i] (with_state P ns (\<lambda>v. update_tasks (about (SetState i v st)) (effect (SetState i v st))))"
  "complete_stmt P i ns = task_arg [i] (with_state P ns (\<lambda>v. update_tasks (about (Complete i v)) (effect (Complete i v))))"
  "fail_stmt i m = task_arg [i] (update_tasks (about (Fail i m)) (effect (Fail i m)))"
  "resume_stmt i = task_arg [i] (update_tasks (about (ResumeWaiting i)) (effect (ResumeWaiting i)))"
  "jsonb_in P b = Some v \<Longrightarrow>
     resume_state_stmt P i (Some b) = task_arg [i] (update_tasks (about (ResumeState i v)) (effect (ResumeState i v)))"
  "cancel_stmt i = task_arg [i] (update_tasks (about (CancelLive i)) (effect (CancelLive i)))"
  by (simp_all add: renew_stmt_def resume_state_stmt_def Let_def update_state_stmt_def complete_stmt_def fail_stmt_def resume_stmt_def cancel_stmt_def
      about_def [abs_def] effect_eqs)

section \<open>What a transaction sees\<close>

lemma version_cases:
  obtains (own) "(x, version x s t) \<in> set (rc_vers s)" "t_Id (version x s t) = t_Id t"
  | (committed) "version x s t = t" "\<And>u. (x, u) \<in> set (rc_vers s) \<Longrightarrow> t_Id u \<noteq> t_Id t"
proof (cases "find (\<lambda>(y, u). y = x \<and> t_Id u = t_Id t) (rc_vers s)")
  case None
  then have "version x s t = t" by (simp add: version_def)
  with None show thesis by (intro committed) (auto simp: find_None_iff)
next
  case (Some z)
  then obtain u where z: "z = (x, u)" "t_Id u = t_Id t" "(x, u) \<in> set (rc_vers s)"
    by (metis (mono_tags, lifting) find_Some_iff nth_mem case_prod_beta prod.collapse)
  with Some have "version x s t = u" by (simp add: version_def)
  with z show thesis by (intro own) simp_all
qed

lemma t_Id_version [simp]: "t_Id (version x s t) = t_Id t"
  by (cases rule: version_cases [of x s t]) simp_all

lemma version_own:
  assumes "distinct (map (t_Id \<circ> snd) (rc_vers s))" and "(x, u) \<in> set (rc_vers s)" and "t_Id u = t_Id t"
  shows "version x s t = u"
proof (cases rule: version_cases [of x s t])
  case own
  have "inj_on (t_Id \<circ> snd) (set (rc_vers s))" using assms(1) by (simp add: distinct_map)
  from inj_onD [OF this, of "(x, version x s t)" "(x, u)"] own assms(2,3) show ?thesis by simp
qed (use assms in blast)

lemma visible_ids [simp]: "map t_Id (visible x s) = map t_Id (rc_rows s)"
  by (simp add: visible_def)

lemma set_visible: "u \<in> set (visible x s) \<longleftrightarrow> (\<exists>t\<in>set (rc_rows s). u = version x s t)"
  by (auto simp: visible_def)

lemma locked_for_iff: "locked_for x s i \<longleftrightarrow> (\<exists>y u. (y, u) \<in> set (rc_vers s) \<and> y \<noteq> x \<and> t_Id u = i)"
  by (force simp: locked_for_def list_ex_iff)

lemma t_Id_effect [simp]: "t_Id (effect u t) = t_Id t"
  by (cases u) (simp_all add: release_def set_state_def cancelled_row_def split: option.splits)

lemma t_ParentId_effect [simp]: "t_ParentId (effect u t) = t_ParentId t"
  by (cases u) (simp_all add: release_def set_state_def cancelled_row_def split: option.splits)

section \<open>The invariant\<close>

text \<open>Each row has at most one uncommitted version, and all versions satisfy the constraints of the row.\<close>

definition rc_ok :: "shared \<Rightarrow> bool" where
  "rc_ok s =
     (keyed t_Id (rc_rows s) \<and> distinct (map (t_Id \<circ> snd) (rc_vers s)) \<and>
      (\<forall>(y, u)\<in>set (rc_vers s). t_Id u \<in> t_Id ` set (rc_rows s) \<and> task_row_ok u) \<and> (\<forall>t\<in>set (rc_rows s). task_row_ok t))"

lemma rc_okD:
  assumes "rc_ok s"
  shows "keyed t_Id (rc_rows s)" and "distinct (map (t_Id \<circ> snd) (rc_vers s))"
    and "(y, u) \<in> set (rc_vers s) \<Longrightarrow> t_Id u \<in> t_Id ` set (rc_rows s)" and "(y, u) \<in> set (rc_vers s) \<Longrightarrow> task_row_ok u"
    and "t \<in> set (rc_rows s) \<Longrightarrow> task_row_ok t"
  using assms by (auto simp: rc_ok_def)

lemma version_row_ok: "rc_ok s \<Longrightarrow> t \<in> set (rc_rows s) \<Longrightarrow> task_row_ok (version x s t)"
  by (cases rule: version_cases [of x s t]) (auto dest: rc_okD)

lemma one_version:
  assumes "rc_ok s" and "(y, u) \<in> set (rc_vers s)" and "(z, v) \<in> set (rc_vers s)" and "t_Id u = t_Id v"
  shows "y = z" and "u = v"
proof -
  have "inj_on (t_Id \<circ> snd) (set (rc_vers s))" using rc_okD(2) [OF assms(1)] by (simp add: distinct_map)
  from inj_onD [OF this _ assms(2,3)] assms(4) show "y = z" "u = v" by simp_all
qed

lemma rc_write_ok:
  assumes "rc_ok s" and "distinct (map t_Id us)"
    and "\<And>u. u \<in> set us \<Longrightarrow> t_Id u \<in> t_Id ` set (rc_rows s) \<and> task_row_ok u \<and> \<not> locked_for x s (t_Id u)"
  shows "rc_ok (rc_write x us s)"
proof -
  define old where "old = filter (\<lambda>(y, u). \<not> (y = x \<and> t_Id u \<in> t_Id ` set us)) (rc_vers s)"
  have sub: "set old \<subseteq> set (rc_vers s)" by (auto simp: old_def)
  have d: "distinct (map (t_Id \<circ> snd) old)" using rc_okD(2) [OF assms(1)] unfolding old_def by (rule distinct_map_filter)
  have new: "t_Id (snd v) \<notin> t_Id ` set us" if "v \<in> set old" for v
  proof
    assume mem: "t_Id (snd v) \<in> t_Id ` set us"
    then obtain u where u: "u \<in> set us" "t_Id u = t_Id (snd v)" by auto
    have "fst v \<noteq> x" "(fst v, snd v) \<in> set (rc_vers s)" using that mem by (auto simp: old_def case_prod_beta)
    then have "locked_for x s (t_Id u)" using u(2) unfolding locked_for_iff by metis
    then show False using assms(3) u(1) by blast
  qed
  have "t_Id ` set us \<inter> (t_Id \<circ> snd) ` set old = {}"
  proof (rule equals0I)
    fix k assume "k \<in> t_Id ` set us \<inter> (t_Id \<circ> snd) ` set old"
    then have k: "k \<in> t_Id ` set us" and "k \<in> (t_Id \<circ> snd) ` set old" by blast+
    from this(2) obtain v where "v \<in> set old" "k = (t_Id \<circ> snd) v" by (rule imageE)
    with new [of v] k show False by simp
  qed
  then have "distinct (map (t_Id \<circ> snd) (map (Pair x) us @ old))"
    using assms(2) d by (simp add: comp_def image_image)
  moreover have "rc_vers (rc_write x us s) = map (Pair x) us @ old" "rc_rows (rc_write x us s) = rc_rows s"
    by (simp_all add: rc_write_def old_def)
  moreover have "t_Id v \<in> t_Id ` set (rc_rows s) \<and> task_row_ok v" if "(y, v) \<in> set (map (Pair x) us @ old)" for y v
  proof (cases "v \<in> set us")
    case True
    with assms(3) show ?thesis by blast
  next
    case False
    with that have "(y, v) \<in> set old" by auto
    with sub rc_okD(3,4) [OF assms(1)] show ?thesis by blast
  qed
  ultimately show ?thesis using rc_okD(1,5) [OF assms(1)] unfolding rc_ok_def by (simp only:) blast
qed

lemma rc_commit_ok: "rc_ok s \<Longrightarrow> rc_ok (rc_commit x s)"
proof -
  assume ok: "rc_ok s"
  have "keyed t_Id (visible x s)" using rc_okD(1) [OF ok] by (simp add: keyed_def)
  moreover have "t_Id ` set (visible x s) = t_Id ` set (rc_rows s)" by (metis visible_ids list.set_map)
  ultimately show ?thesis
    using ok version_row_ok [OF ok] by (auto simp: rc_ok_def rc_commit_def set_visible distinct_map intro: inj_on_subset)
qed

lemma rc_rollback_ok: "rc_ok s \<Longrightarrow> rc_ok (rc_rollback x s)"
  by (auto simp: rc_ok_def rc_rollback_def distinct_map intro: inj_on_subset)


lemma about_visible:
  assumes "rc_ok s"
  shows "distinct (map t_Id (filter Q (visible x s)))"
    and "u \<in> set (filter Q (visible x s)) \<Longrightarrow> t_Id u \<in> t_Id ` set (rc_rows s) \<and> task_row_ok u"
proof -
  have "distinct (map t_Id (visible x s))" using rc_okD(1) [OF assms] by (simp add: keyed_def)
  then show "distinct (map t_Id (filter Q (visible x s)))" by (rule distinct_map_filter)
  show "u \<in> set (filter Q (visible x s)) \<Longrightarrow> t_Id u \<in> t_Id ` set (rc_rows s) \<and> task_row_ok u"
    using version_row_ok [OF assms] by (auto simp: set_visible)
qed

lemma stamp_row_ok [simp]: "task_row_ok (stamp now t) = task_row_ok t" and t_Id_stamp [simp]: "t_Id (stamp now t) = t_Id t"
  by (simp_all add: stamp_def task_row_ok_def task_lease_check_def task_error_check_def)

lemma rc_exec_ok:
  assumes "rc_ok s" and "rc_exec x u now s = Done n s'"
  shows "rc_ok s'"
proof -
  let ?ts = "filter (\<lambda>t. t_Id t = target u \<and> applies u t) (visible x s)"
  have free: "\<not> locked_for x s (t_Id t)" "task_row_ok (effect u t)" if "t \<in> set ?ts" for t
    using assms(2) that by (auto simp: rc_exec_def Let_def list_all_iff list_ex_iff split: if_splits)
  have s': "s' = rc_write x (map (\<lambda>t. stamp now (effect u t)) ?ts) s"
    using assms(2) by (auto simp: rc_exec_def Let_def split: if_splits)
  have "distinct (map t_Id (map (\<lambda>t. stamp now (effect u t)) ?ts))" using about_visible(1) [OF assms(1)] by (simp add: comp_def)
  moreover have "t_Id t \<in> t_Id ` set (rc_rows s)" if "t \<in> set ?ts" for t using about_visible(2) [OF assms(1) that] by blast
  ultimately show ?thesis
    unfolding s' using free by (intro rc_write_ok [OF assms(1)]) fastforce+
qed

lemma rc_claim_ok:
  assumes "rc_ok s" and "rc_claim x tys w e now s = Some (i, s')"
  shows "rc_ok s'"
proof -
  obtain t where t: "next_task (locked_for x s) tys now (empty_db\<lparr>tasks := visible x s\<rparr>) = Some t"
      "s' = rc_write x [stamp now (claim_row w e t)] s"
    using assms(2) by (auto simp: rc_claim_def split: option.splits)
  have "t \<in> set (visible x s)" "claimable now t" "\<not> locked_for x s (t_Id t)" using next_task_least [OF t(1)] by simp_all
  moreover from this have "task_row_ok t" "t_Id t \<in> t_Id ` set (rc_rows s)"
    using about_visible(2) [OF assms(1), of t "\<lambda>_. True" x] by auto
  ultimately show ?thesis
    unfolding t(2) by (intro rc_write_ok [OF assms(1)])
      (auto simp: claim_row_def claimable_def task_row_ok_def task_lease_check_def task_error_check_def)
qed

section \<open>Runs\<close>

datatype rc_event = Did nat task_update | Claimed nat int int | Committed nat | RolledBack nat

inductive rc_step :: "shared \<Rightarrow> rc_event \<Rightarrow> shared \<Rightarrow> bool" where
  did: "rc_exec x u now s = Done n s' \<Longrightarrow> rc_step s (Did x u) s'"
| claimed: "rc_claim x tys w e now s = Some (i, s') \<Longrightarrow> rc_step s (Claimed x i now) s'"
| committed: "rc_step s (Committed x) (rc_commit x s)"
| rolled_back: "rc_step s (RolledBack x) (rc_rollback x s)"

inductive_cases rc_stepE: "rc_step s ev s'"

inductive rc_run :: "shared \<Rightarrow> rc_event list \<Rightarrow> shared \<Rightarrow> bool" where
  nil: "rc_run s [] s"
| step: "rc_run s es s1 \<Longrightarrow> rc_step s1 ev s2 \<Longrightarrow> rc_run s (es @ [ev]) s2"

lemma rc_step_ok: "rc_step s ev s' \<Longrightarrow> rc_ok s \<Longrightarrow> rc_ok s'"
  by (induction rule: rc_step.induct) (auto intro: rc_exec_ok rc_claim_ok rc_commit_ok rc_rollback_ok)

text \<open>An invariant of the events of a run, beside \<^verbatim>\<open>rc_ok\<close>.\<close>

lemma rc_run_invariant:
  assumes "rc_run s es s'" and "list_all Q es" and "rc_ok s" and "J s"
    and "\<And>s ev s'. rc_step s ev s' \<Longrightarrow> Q ev \<Longrightarrow> rc_ok s \<Longrightarrow> J s \<Longrightarrow> J s'"
  shows "rc_ok s' \<and> J s'"
  using assms(1-4)
proof (induction rule: rc_run.induct)
  case (step s es s1 ev s2)
  then show ?case using assms(5) rc_step_ok by auto
qed simp

section \<open>A condition that a row keeps\<close>

text \<open>
  \<^verbatim>\<open>settled i K s\<close>: the committed row \<open>i\<close> and its uncommitted version, if it has one, satisfy \<open>K\<close>. \<^verbatim>\<open>holds x i K s\<close>: they do,
  or the version that the transaction \<open>x\<close> wrote does.
\<close>

definition settled :: "int \<Rightarrow> (Task \<Rightarrow> bool) \<Rightarrow> shared \<Rightarrow> bool" where
  "settled i K s = ((\<forall>t\<in>set (rc_rows s). t_Id t = i \<longrightarrow> K t) \<and> (\<forall>(y, u)\<in>set (rc_vers s). t_Id u = i \<longrightarrow> K u))"

definition holds :: "nat \<Rightarrow> int \<Rightarrow> (Task \<Rightarrow> bool) \<Rightarrow> shared \<Rightarrow> bool" where
  "holds x i K s = ((\<exists>u. (x, u) \<in> set (rc_vers s) \<and> t_Id u = i \<and> K u) \<or> settled i K s)"

lemma settled_version:
  assumes "settled i K s" and "r \<in> set (rc_rows s)" and "t_Id r = i"
  shows "K (version y s r)"
proof (cases rule: version_cases [of y s r])
  case own
  then show ?thesis using assms(1,3) unfolding settled_def by fastforce
next
  case committed
  then show ?thesis using assms by (simp add: settled_def)
qed

lemma visible_holds:
  assumes "rc_ok s" and "holds x i K s" and "t \<in> set (visible y s)" and "t_Id t = i" and "\<not> locked_for y s i"
  shows "K t"
proof -
  from assms(3) obtain r where "r \<in> set (rc_rows s)" "t = version y s r" unfolding set_visible by blast
  with assms(4) have r: "r \<in> set (rc_rows s)" "t = version y s r" "t_Id r = i" by simp_all
  show ?thesis
  proof (cases "\<exists>u. (x, u) \<in> set (rc_vers s) \<and> t_Id u = i \<and> K u")
    case True
    then obtain u where u: "(x, u) \<in> set (rc_vers s)" "t_Id u = i" "K u" by blast
    then have "y = x" using assms(5) unfolding locked_for_iff by metis
    then show ?thesis using version_own [OF rc_okD(2) [OF assms(1)], of x u r] u r by simp
  next
    case False
    then have "settled i K s" using assms(2) unfolding holds_def by blast
    then show ?thesis using settled_version [of i K s r y] r by simp
  qed
qed

lemma holds_write:
  assumes "holds x i K s" and "\<And>u. u \<in> set us \<Longrightarrow> t_Id u = i \<Longrightarrow> K u"
  shows "holds x i K (rc_write y us s)"
proof (cases "\<exists>u. (x, u) \<in> set (rc_vers s) \<and> t_Id u = i \<and> K u")
  case True
  then obtain u where u: "(x, u) \<in> set (rc_vers s)" "t_Id u = i" "K u" by blast
  show ?thesis
  proof (cases "y = x \<and> i \<in> t_Id ` set us")
    case True
    then obtain u' where "u' \<in> set us" "t_Id u' = i" "y = x" by auto
    then show ?thesis using assms(2) by (auto simp: holds_def rc_write_def)
  next
    case False
    then have "(x, u) \<in> set (rc_vers (rc_write y us s))" using u(1,2) by (auto simp: rc_write_def)
    then show ?thesis using u by (auto simp: holds_def)
  qed
next
  case False
  then show ?thesis using assms by (auto simp: holds_def settled_def rc_write_def)
qed

lemma settled_write:
  "settled i K s \<Longrightarrow> (\<And>u. u \<in> set us \<Longrightarrow> t_Id u = i \<Longrightarrow> K u) \<Longrightarrow> settled i K (rc_write y us s)"
  by (auto simp: settled_def rc_write_def)

lemma settled_commit: "settled i K s \<Longrightarrow> settled i K (rc_commit y s)"
  using settled_version [of i K s _ y] by (auto simp: settled_def rc_commit_def set_visible)

lemma holds_commit:
  assumes "rc_ok s" and "holds x i K s"
  shows "holds x i K (rc_commit y s)"
proof (cases "\<exists>u. (x, u) \<in> set (rc_vers s) \<and> t_Id u = i \<and> K u")
  case True
  then obtain u where u: "(x, u) \<in> set (rc_vers s)" "t_Id u = i" "K u" by blast
  show ?thesis
  proof (cases "y = x")
    case True
    have "\<not> locked_for x s i"
    proof
      assume "locked_for x s i"
      then obtain z u' where "(z, u') \<in> set (rc_vers s)" "z \<noteq> x" "t_Id u' = i" by (auto simp: locked_for_iff)
      with one_version(1) [OF assms(1) u(1)] u(2) show False by metis
    qed
    then have "K t" if "t \<in> set (visible x s)" "t_Id t = i" for t using visible_holds [OF assms that] by simp
    moreover have "t_Id u' \<noteq> i" if "(z, u') \<in> set (rc_vers s)" "z \<noteq> x" for z u'
      using that \<open>\<not> locked_for x s i\<close> by (auto simp: locked_for_iff)
    ultimately have "settled i K (rc_commit x s)" by (auto simp: settled_def rc_commit_def)
    then show ?thesis using True by (simp add: holds_def)
  next
    case False
    then have "(x, u) \<in> set (rc_vers (rc_commit y s))" using u(1) by (simp add: rc_commit_def)
    then show ?thesis using u by (auto simp: holds_def)
  qed
next
  case False
  then show ?thesis using assms(2) settled_commit by (auto simp: holds_def)
qed

lemma rollback_keeps:
  "settled i K s \<Longrightarrow> settled i K (rc_rollback y s)" "y \<noteq> x \<Longrightarrow> holds x i K s \<Longrightarrow> holds x i K (rc_rollback y s)"
  by (auto simp: holds_def settled_def rc_rollback_def)

lemma rc_claim_writes:
  assumes "rc_claim y tys w e now s = Some (j, s')"
  obtains t where "t \<in> set (visible y s)" "t_Id t = j" "claimable now t" "\<not> locked_for y s j"
    "s' = rc_write y [stamp now (claim_row w e t)] s"
proof -
  obtain t where t: "next_task (locked_for y s) tys now (empty_db\<lparr>tasks := visible y s\<rparr>) = Some t"
      "s' = rc_write y [stamp now (claim_row w e t)] s" "j = t_Id t"
    using assms by (auto simp: rc_claim_def split: option.splits)
  with next_task_least [OF t(1)] that show thesis by simp
qed

lemma claim_respects:
  assumes "rc_ok s" and "holds x i K s" and "rc_claim y tys w e now s = Some (j, s')" and "\<And>t. K t \<Longrightarrow> \<not> claimable now t"
  shows "j \<noteq> i"
  using assms(3)
proof (rule rc_claim_writes)
  fix t assume "t \<in> set (visible y s)" "t_Id t = j" "claimable now t" "\<not> locked_for y s j"
  with visible_holds [OF assms(1,2)] assms(4) show "j \<noteq> i" by blast
qed

lemma rc_exec_writes:
  assumes "rc_exec y u now s = Done n s'"
  obtains ts where "s' = rc_write y (map (\<lambda>t. stamp now (effect u t)) ts) s"
    "\<And>t. t \<in> set ts \<Longrightarrow> t \<in> set (visible y s) \<and> t_Id t = target u \<and> applies u t \<and> \<not> locked_for y s (target u)"
    "n = length ts"
proof (rule that)
  let ?ts = "filter (\<lambda>t. t_Id t = target u \<and> applies u t) (visible y s)"
  show "s' = rc_write y (map (\<lambda>t. stamp now (effect u t)) ?ts) s" "n = length ?ts"
    using assms by (auto simp: rc_exec_def Let_def split: if_splits)
  show "t \<in> set (visible y s) \<and> t_Id t = target u \<and> applies u t \<and> \<not> locked_for y s (target u)" if "t \<in> set ?ts" for t
    using assms that by (auto simp: rc_exec_def Let_def list_ex_iff split: if_splits)
qed

section \<open>Leases under overlapping transactions\<close>

text \<open>Events that cannot make a row lose a condition, and the events that leave a claim with the lease \<^verbatim>\<open>e\<close> alone.\<close>

fun row_kept :: "nat \<Rightarrow> int \<Rightarrow> (Task \<Rightarrow> bool) \<Rightarrow> rc_event \<Rightarrow> bool" where
  "row_kept x i K (Did y u) = (target u \<noteq> i \<or> (\<forall>t now. K t \<longrightarrow> applies u t \<longrightarrow> K (stamp now (effect u t))))"
| "row_kept x i K (Claimed y j now) = (\<forall>t. K t \<longrightarrow> \<not> claimable now t)"
| "row_kept x i K (Committed y) = True"
| "row_kept x i K (RolledBack y) = (y \<noteq> x)"

lemma holds_step: "rc_step s ev s' \<Longrightarrow> row_kept x i K ev \<Longrightarrow> rc_ok s \<Longrightarrow> holds x i K s \<Longrightarrow> holds x i K s'"
proof (induction rule: rc_step.induct)
  case (did y u now s n s')
  from did.hyps show ?case
  proof (rule rc_exec_writes)
    fix ts
    assume s': "s' = rc_write y (map (\<lambda>t. stamp now (effect u t)) ts) s"
      and ts: "\<And>t. t \<in> set ts \<Longrightarrow>
        t \<in> set (visible y s) \<and> t_Id t = target u \<and> applies u t \<and> \<not> locked_for y s (target u)"
    have "K (stamp now (effect u t))" if "t \<in> set ts" "target u = i" for t
      using visible_holds [OF did.prems(2,3), of t y] ts [OF that(1)] did.prems(1) that(2) by auto
    then show ?case unfolding s' using did.prems(3) ts by (intro holds_write) auto
  qed
next
  case (claimed y tys w e now s j s')
  then have "j \<noteq> i" using claim_respects [OF claimed.prems(2,3) claimed.hyps] by simp
  from claimed.hyps show ?case
  proof (rule rc_claim_writes)
    fix t assume t: "t_Id t = j" and s': "s' = rc_write y [stamp now (claim_row w e t)] s"
    from t have "t_Id (stamp now (claim_row w e t)) \<noteq> i" using \<open>j \<noteq> i\<close> by (simp add: claim_row_def)
    then show ?case unfolding s' using claimed.prems(3) by (intro holds_write) auto
  qed
qed (auto intro: holds_commit rollback_keeps(2))

lemma holds_run:
  assumes "rc_run s es s'" and "list_all (row_kept x i K) es" and "rc_ok s" and "holds x i K s"
  shows "rc_ok s'" and "holds x i K s'"
  using rc_run_invariant [where J = "holds x i K", OF assms holds_step] by simp_all

fun undisturbed :: "nat \<Rightarrow> int \<Rightarrow> int \<Rightarrow> rc_event \<Rightarrow> bool" where
  "undisturbed x i e (Did y u) = (target u \<noteq> i \<or> (case u of Renew j w e' \<Rightarrow> e \<le> e' | _ \<Rightarrow> False))"
| "undisturbed x i e (Claimed y j now) = (now \<le> e)"
| "undisturbed x i e (Committed y) = True"
| "undisturbed x i e (RolledBack y) = (y \<noteq> x)"

definition on_lease :: "int \<Rightarrow> Task \<Rightarrow> bool" where
  "on_lease e t = (t_Status t = StatusRunning \<and> (case t_LeaseExpiresAt t of None \<Rightarrow> False | Some l \<Rightarrow> e \<le> l))"

lemma on_lease_not_claimable: "on_lease e t \<Longrightarrow> now \<le> e \<Longrightarrow> \<not> claimable now t"
  by (auto simp: on_lease_def claimable_def split: option.splits)

lemma undisturbed_kept: "undisturbed x i e ev \<Longrightarrow> row_kept x i (on_lease e) ev"
proof (cases ev)
  case (Did y u)
  assume "undisturbed x i e ev"
  with Did show ?thesis by (cases u) (auto simp: on_lease_def stamp_def)
qed (auto dest: on_lease_not_claimable)

lemma claim_leases:
  assumes "rc_claim x tys w e now s = Some (i, s')"
  shows "holds x i (on_lease e) s'"
  using assms
proof (rule rc_claim_writes)
  fix t assume "t_Id t = i" "s' = rc_write x [stamp now (claim_row w e t)] s"
  then show ?thesis by (auto simp: holds_def rc_write_def on_lease_def claim_row_def stamp_def)
qed

lemma overlap_excludes:
  assumes "rc_ok s" and "rc_claim x tys w e now s = Some (i, s1)" and "rc_run s1 es s2" and "list_all (undisturbed x i e) es"
    and "rc_claim y tys' w' e' now' s2 = Some (j, s3)" and "now' \<le> e"
  shows "j \<noteq> i"
proof -
  have "list_all (row_kept x i (on_lease e)) es" using assms(4) by (rule list.pred_mono_strong) (rule undisturbed_kept)
  note run = holds_run [OF assms(3) this rc_claim_ok [OF assms(1,2)] claim_leases [OF assms(2)]]
  show ?thesis using claim_respects [OF run assms(5)] on_lease_not_claimable assms(6) by blast
qed

section \<open>Single statements\<close>

lemma filter_key:
  assumes "distinct (map f xs)" and "t \<in> set xs"
  shows "filter (\<lambda>u. f u = f t \<and> P u) xs = (if P t then [t] else [])"
  using assms by (induction xs) (auto simp: filter_empty_conv image_iff)

lemma target_visible:
  assumes "rc_ok s" and "r \<in> set (rc_rows s)" and "t_Id r = target u"
  shows "filter (\<lambda>t. t_Id t = target u \<and> applies u t) (visible x s) =
    (if applies u (version x s r) then [version x s r] else [])"
proof -
  have "distinct (map t_Id (visible x s))" using rc_okD(1) [OF assms(1)] by (simp add: keyed_def)
  moreover have "version x s r \<in> set (visible x s)" using assms(2) by (auto simp: set_visible)
  ultimately show ?thesis using filter_key [of t_Id "visible x s" "version x s r"] assms(3) by simp
qed

lemma rc_exec_row:
  assumes "rc_ok s" and "r \<in> set (rc_rows s)" and "t_Id r = target u"
  shows "rc_exec x u now s =
    (if \<not> applies u (version x s r) then Done 0 (rc_write x [] s)
     else if locked_for x s (target u) then Waits
     else if task_row_ok (effect u (version x s r)) then Done 1 (rc_write x [stamp now (effect u (version x s r))] s)
     else Aborts)"
  using assms(3) by (simp add: rc_exec_def target_visible [OF assms] del: One_nat_def)

lemma rc_write_nil [simp]: "rc_write x [] s = s"
  by (simp add: rc_write_def case_prod_beta)

lemma rows_write [simp]: "rc_rows (rc_write x us s) = rc_rows s"
  by (simp add: rc_write_def)

lemma find_in_filter: "(\<And>v. P v \<Longrightarrow> Q v) \<Longrightarrow> find P (filter Q xs) = find P xs"
  by (induction xs) auto

lemma version_write: "version y (rc_write x [u] s) r = (if y = x \<and> t_Id r = t_Id u then u else version y s r)"
proof (cases "y = x \<and> t_Id r = t_Id u")
  case False
  then have "find (\<lambda>(z, v). z = y \<and> t_Id v = t_Id r) (filter (\<lambda>(z, v). \<not> (z = x \<and> t_Id v \<in> t_Id ` {u})) (rc_vers s)) =
      find (\<lambda>(z, v). z = y \<and> t_Id v = t_Id r) (rc_vers s)"
    by (intro find_in_filter) auto
  with False show ?thesis by (auto simp: version_def rc_write_def)
qed (simp add: version_def rc_write_def)

lemma locked_write: "locked_for y (rc_write x [u] s) i = (y \<noteq> x \<and> t_Id u = i \<or> locked_for y s i)"
  by (auto simp: locked_for_iff rc_write_def) metis

lemma version_clean [simp]: "rc_vers s = [] \<Longrightarrow> version x s t = t"
  by (simp add: version_def)

lemma locked_clean [simp]: "rc_vers s = [] \<Longrightarrow> \<not> locked_for x s i"
  by (simp add: locked_for_def)

lemma commit_clean: "(\<And>z u. (z, u) \<in> set (rc_vers s) \<Longrightarrow> z = x) \<Longrightarrow> rc_vers (rc_commit x s) = []"
  by (auto simp: rc_commit_def filter_empty_conv)

lemma rows_commit: "r \<in> set (rc_rows s) \<Longrightarrow> version x s r \<in> set (rc_rows (rc_commit x s))"
  by (auto simp: rc_commit_def set_visible)

lemma version_commit: "y \<noteq> x \<Longrightarrow> version y (rc_commit x s) r = version y s r"
proof -
  assume "y \<noteq> x"
  then have "find (\<lambda>(z, v). z = y \<and> t_Id v = t_Id r) (filter (\<lambda>(z, v). z \<noteq> x) (rc_vers s)) =
      find (\<lambda>(z, v). z = y \<and> t_Id v = t_Id r) (rc_vers s)"
    by (intro find_in_filter) auto
  then show ?thesis by (simp add: version_def rc_commit_def)
qed

lemma version_none: "(\<And>u. (y, u) \<in> set (rc_vers s) \<Longrightarrow> t_Id u \<noteq> t_Id r) \<Longrightarrow> version y s r = r"
  by (rule version_cases [of y s r]) (auto dest: spec simp del: t_Id_version)

lemma locked_commit: "locked_for y (rc_commit x s) i \<Longrightarrow> locked_for y s i"
  by (auto simp: locked_for_iff rc_commit_def)

section \<open>A transaction on its own\<close>

text \<open>Without others, a statement and its commit do what the sequential model says.\<close>

lemma commit_write:
  assumes "rc_ok s" and "rc_vers s = []" and "\<And>t. t_Id (f t) = t_Id t"
  shows "rc_rows (rc_commit x (rc_write x (map f (filter R (rc_rows s))) s)) = update_where R f (rc_rows s)"
proof -
  let ?s = "rc_write x (map f (filter R (rc_rows s))) s"
  have vers: "rc_vers ?s = map (Pair x \<circ> f) (filter R (rc_rows s))" using assms(2) by (simp add: rc_write_def)
  have keyed: "keyed t_Id (rc_rows s)" using rc_okD(1) [OF assms(1)] .
  then have d: "distinct (map (t_Id \<circ> snd) (rc_vers ?s))"
    unfolding vers using assms(3) by (simp add: comp_def keyed_def distinct_map_filter)
  have "version x ?s t = (if R t then f t else t)" if t: "t \<in> set (rc_rows s)" for t
  proof (cases "R t")
    case True
    then show ?thesis using version_own [OF d, of x "f t" t] t assms(3) by (auto simp: vers)
  next
    case False
    have "t_Id v \<noteq> t_Id t" if v: "(x, v) \<in> set (rc_vers ?s)" for v
    proof -
      obtain r where r: "v = f r" "r \<in> set (rc_rows s)" "R r" using v unfolding vers by auto
      then show ?thesis using keyed_inj [OF keyed r(2) t] False assms(3) by auto
    qed
    then show ?thesis using version_none [of x ?s t] False by simp
  qed
  then show ?thesis by (simp add: rc_commit_def visible_def update_where_def)
qed

lemma visible_alone: "rc_vers s = [] \<Longrightarrow> visible x s = rc_rows s"
  by (simp add: visible_def map_idI)

lemma rc_exec_alone:
  assumes "rc_ok s" and "rc_vers s = []" and "tasks d = rc_rows s"
  shows "update_tasks (about u) (effect u) now d q =
    (case rc_exec x u now s of
       Done n s' \<Rightarrow> (Inr (d\<lparr>tasks := rc_rows (rc_commit x s')\<rparr>, n), q)
     | _ \<Rightarrow> (Inl check_violation, q))" and "rc_exec x u now s \<noteq> Waits"
proof -
  have eq: "(\<lambda>t. t_Id t = target u \<and> applies u t) = about u" by (auto simp: about_def)
  have free: "\<not> list_ex (\<lambda>t. locked_for x s (t_Id t)) ts" for ts using assms(2) by (simp add: list_ex_iff)
  show "rc_exec x u now s \<noteq> Waits" by (simp add: rc_exec_def eq free Let_def)
  have all: "list_all (\<lambda>t. task_row_ok (effect u t)) (filter (about u) (rc_rows s)) =
      list_all (\<lambda>t. about u t \<longrightarrow> task_row_ok (effect u t)) (rc_rows s)" by (auto simp: list_all_iff)
  show "update_tasks (about u) (effect u) now d q =
      (case rc_exec x u now s of
         Done n s' \<Rightarrow> (Inr (d\<lparr>tasks := rc_rows (rc_commit x s')\<rparr>, n), q)
       | _ \<Rightarrow> (Inl check_violation, q))"
    using commit_write [OF assms(1,2), of "\<lambda>t. stamp now (effect u t)" x "about u"]
    by (simp add: rc_exec_def eq free visible_alone assms(2,3) all update_tasks_def count_where_def Let_def list_ex_iff)
qed

lemma rc_claim_alone:
  assumes "rc_ok s" and "rc_vers s = []" and "tasks d = rc_rows s" and "tasks_ok d q0"
  shows "claim_stmt (\<lambda>_. False) tys w e now d q =
    (case rc_claim x tys w e now s of
       None \<Rightarrow> (Inr (d, []), q)
     | Some (i, s') \<Rightarrow> (Inr (d\<lparr>tasks := rc_rows (rc_commit x s')\<rparr>,
         map (\<lambda>t. (t_Id t, t_TaskType t, t_State t)) (filter (\<lambda>t. t_Id t = i) (tasks d))), q))"
proof -
  have nt: "next_task (locked_for x s) tys now (empty_db\<lparr>tasks := visible x s\<rparr>) = next_task (\<lambda>_. False) tys now d"
    using assms(2) by (simp add: next_task_def visible_alone assms(3))
  show ?thesis
  proof (cases "next_task (\<lambda>_. False) tys now d")
    case None
    then show ?thesis by (simp add: rc_claim_def nt claim_stmt_none)
  next
    case (Some t)
    have t: "t \<in> set (rc_rows s)" using next_task_least(1) [OF Some] assms(3) by simp
    have keyed: "keyed t_Id (rc_rows s)" using rc_okD(1) [OF assms(1)] .
    have one: "filter (\<lambda>u. t_Id u = t_Id t) (rc_rows s) = [t]" using keyed_filter_eq [OF keyed t] by simp
    show ?thesis
      using commit_write [OF assms(1,2), of "\<lambda>u. stamp now (claim_row w e u)" x "\<lambda>u. t_Id u = t_Id t"]
      by (simp add: rc_claim_def nt Some claim_stmt_some [OF assms(4)] claim_in_def one assms(3) claim_row_def)
  qed
qed

section \<open>Children and their parent\<close>

lemma rc_step_ids: "rc_step s ev s' \<Longrightarrow> map t_Id (rc_rows s') = map t_Id (rc_rows s)"
  by (induction rule: rc_step.induct) (auto simp: rc_commit_def rc_rollback_def elim!: rc_exec_writes rc_claim_writes)

lemma rc_run_ids: "rc_run s es s' \<Longrightarrow> map t_Id (rc_rows s') = map t_Id (rc_rows s)"
  by (induction rule: rc_run.induct) (auto dest: rc_step_ids)

fun untouched :: "int \<Rightarrow> rc_event \<Rightarrow> bool" where
  "untouched i (Did y u) = (target u \<noteq> i)"
| "untouched i (Claimed y j now) = True"
| "untouched i (Committed y) = True"
| "untouched i (RolledBack y) = True"

lemma settled_step:
  "rc_step s ev s' \<Longrightarrow> untouched i ev \<Longrightarrow> (\<And>t now. K t \<Longrightarrow> \<not> claimable now t) \<Longrightarrow> rc_ok s \<Longrightarrow> settled i K s \<Longrightarrow> settled i K s'"
proof (induction rule: rc_step.induct)
  case (did y u now s n s')
  from did.hyps show ?case
  proof (rule rc_exec_writes)
    fix ts
    assume s': "s' = rc_write y (map (\<lambda>t. stamp now (effect u t)) ts) s"
      and ts: "\<And>t. t \<in> set ts \<Longrightarrow>
        t \<in> set (visible y s) \<and> t_Id t = target u \<and> applies u t \<and> \<not> locked_for y s (target u)"
    then show ?case unfolding s' using did.prems(1,4) ts by (intro settled_write) auto
  qed
next
  case (claimed y tys w e now s j s')
  from claimed.hyps show ?case
  proof (rule rc_claim_writes)
    fix t assume t: "t \<in> set (visible y s)" "t_Id t = j" "claimable now t"
      and s': "s' = rc_write y [stamp now (claim_row w e t)] s"
    from t(1) obtain r where r: "r \<in> set (rc_rows s)" "t = version y s r" unfolding set_visible by blast
    have "j \<noteq> i" using settled_version [OF claimed.prems(4) r(1), of y] claimed.prems(2) r t by auto
    with t(2) have "t_Id (stamp now (claim_row w e t)) \<noteq> i" by (simp add: claim_row_def)
    then show ?case unfolding s' using claimed.prems(4) by (intro settled_write) auto
  qed
qed (auto intro: settled_commit rollback_keeps(1))

lemma settled_run:
  assumes "rc_run s es s'" and "list_all (untouched i) es" and "rc_ok s" and "settled i K s"
    and "\<And>t now. K t \<Longrightarrow> \<not> claimable now t" and "i \<in> t_Id ` set (rc_rows s)"
  shows "\<exists>t\<in>set (rc_rows s'). t_Id t = i \<and> K t"
proof -
  have "settled i K s'"
    by (rule conjunct2 [OF rc_run_invariant [where J = "settled i K", OF assms(1-4)]]) (rule settled_step [OF _ _ assms(5)])
  moreover have "i \<in> t_Id ` set (rc_rows s')" using rc_run_ids [OF assms(1)] assms(6) by (metis list.set_map)
  ultimately show ?thesis by (auto simp: settled_def)
qed

text \<open>
  The worker of a child reports while the parent still runs: the child's worker finds the parent not waiting and resumes
  nothing, and the parent, which has read the child as running, waits for it.
\<close>

lemma missed_child:
  assumes "rc_ok s" and "rc_vers s = []" and "p \<in> set (rc_rows s)" and "c \<in> set (rc_rows s)" and "t_Status p = StatusRunning"
    and "t_Status c = StatusRunning" and "t_Id p \<noteq> t_Id c"
  obtains s1 s2 where "rc_exec y (Complete (t_Id c) v) n1 s = Done 1 s1" and "rc_exec y (ResumeWaiting (t_Id p)) n2 s1 = Done 0 s1"
    and "rc_exec x (SetState (t_Id p) v' StatusWaiting) n3 (rc_commit y s1) = Done 1 s2" and "rc_ok (rc_commit x s2)"
    and "\<exists>t\<in>set (rc_rows (rc_commit x s2)). t_Id t = t_Id c \<and> t_Status t = StatusCompleted"
    and "settled (t_Id p) (\<lambda>t. t_Status t = StatusWaiting) (rc_commit x s2)" and "t_Id p \<in> t_Id ` set (rc_rows (rc_commit x s2))"
proof -
  define c' where "c' = stamp n1 (effect (Complete (t_Id c) v) c)"
  define s1 where "s1 = rc_write y [c'] s"
  define p' where "p' = stamp n3 (effect (SetState (t_Id p) v' StatusWaiting) p)"
  define s2 where "s2 = rc_write x [p'] (rc_commit y s1)"
  note okp = rc_okD(5) [OF assms(1,3)] and okc = rc_okD(5) [OF assms(1,4)]
  have ids: "t_Id c' = t_Id c" "t_Id p' = t_Id p" by (simp_all add: c'_def p'_def)
  have e1: "rc_exec y (Complete (t_Id c) v) n1 s = Done 1 s1"
    using okc assms(6) by (simp add: rc_exec_row [OF assms(1,4)] assms(2) s1_def c'_def task_row_ok_def task_lease_check_def
        task_error_check_def release_def set_state_def split: option.splits)
  have ok1: "rc_ok s1" by (rule rc_exec_ok [OF assms(1) e1])
  have v1: "version z s1 p = p" for z using ids assms(2,7) by (simp add: s1_def version_write)
  have e2: "rc_exec y (ResumeWaiting (t_Id p)) n2 s1 = Done 0 s1"
    using rc_exec_row [OF ok1, of p] assms(3,5) by (simp add: v1) (simp add: s1_def)
  have ok2: "rc_ok (rc_commit y s1)" by (rule rc_commit_ok [OF ok1])
  have clean: "rc_vers (rc_commit y s1) = []" using assms(2) by (intro commit_clean) (auto simp: s1_def rc_write_def)
  have p: "p \<in> set (rc_rows (rc_commit y s1))" using rows_commit [of p s1 y] assms(3) v1 by (simp add: s1_def)
  have c: "c' \<in> set (rc_rows (rc_commit y s1))"
    using rows_commit [of c s1 y] assms(4) ids by (simp add: s1_def version_write)
  have e3: "rc_exec x (SetState (t_Id p) v' StatusWaiting) n3 (rc_commit y s1) = Done 1 s2"
    using okp assms(5) by (simp add: rc_exec_row [OF ok2 p] clean s2_def p'_def task_row_ok_def task_lease_check_def
        task_error_check_def release_def set_state_def split: option.splits)
  have ok3: "rc_ok (rc_commit x s2)" by (rule rc_commit_ok [OF rc_exec_ok [OF ok2 e3]])
  have "version x s2 c' = c'" using ids assms(7) clean by (simp add: s2_def version_write)
  then have c3: "c' \<in> set (rc_rows (rc_commit x s2))" using rows_commit [of c' s2 x] c by (simp add: s2_def)
  have p3: "p' \<in> set (rc_rows (rc_commit x s2))"
    using rows_commit [of p s2 x] p ids by (simp add: s2_def version_write)
  have "rc_vers (rc_commit x s2) = []" using clean by (intro commit_clean) (auto simp: s2_def rc_write_def)
  moreover have "t = p'" if "t \<in> set (rc_rows (rc_commit x s2))" "t_Id t = t_Id p" for t
    using rc_okD(1) [OF ok3] that p3 ids inj_onD [of t_Id "set (rc_rows (rc_commit x s2))" t p'] by (simp add: keyed_def distinct_map)
  moreover have "t_Status p' = StatusWaiting" "t_Status c' = StatusCompleted"
    by (simp_all add: p'_def c'_def stamp_def release_def)
  ultimately have "settled (t_Id p) (\<lambda>t. t_Status t = StatusWaiting) (rc_commit x s2)" by (auto simp: settled_def)
  moreover have "t_Id p \<in> t_Id ` set (rc_rows (rc_commit x s2))" using p3 ids by (metis imageI)
  ultimately show thesis
    using that [OF e1 e2 e3 ok3] c3 ids(1) \<open>t_Status c' = StatusCompleted\<close> by blast
qed

lemma two_commits:
  "r \<in> set (rc_rows s) \<Longrightarrow> version y (rc_commit x s) (version x s r) \<in> set (rc_rows (rc_commit y (rc_commit x s)))"
  by (intro rows_commit)

text \<open>
  Two children of a waiting parent report at the same time: the second worker waits for the first at the parent's row, and
  finds it pending.
\<close>

lemma siblings:
  assumes "rc_ok s" and "rc_vers s = []" and "p \<in> set (rc_rows s)" and "b \<in> set (rc_rows s)" and "c \<in> set (rc_rows s)"
    and "t_Status p = StatusWaiting" and "t_Status b = StatusRunning" and "t_Status c = StatusRunning"
    and "distinct [t_Id p, t_Id b, t_Id c]" and "x \<noteq> y"
  obtains s1 s2 s3 where "rc_exec x (Complete (t_Id b) v) n1 s = Done 1 s1"
    and "rc_exec x (ResumeWaiting (t_Id p)) n2 s1 = Done 1 s2"
    and "rc_exec y (Complete (t_Id c) v') n3 s2 = Done 1 s3" and "rc_exec y (ResumeWaiting (t_Id p)) n4 s3 = Waits"
    and "rc_exec y (ResumeWaiting (t_Id p)) n5 (rc_commit x s3) = Done 0 (rc_commit x s3)"
    and "\<exists>t\<in>set (rc_rows (rc_commit y (rc_commit x s3))). t_Id t = t_Id p \<and> t_Status t = StatusPending"
    and "\<forall>i\<in>{t_Id b, t_Id c}. \<exists>t\<in>set (rc_rows (rc_commit y (rc_commit x s3))). t_Id t = i \<and> t_Status t = StatusCompleted"
    and "rc_vers (rc_commit y (rc_commit x s3)) = []"
proof -
  define b' where "b' = stamp n1 (effect (Complete (t_Id b) v) b)"
  define s1 where "s1 = rc_write x [b'] s"
  define p' where "p' = stamp n2 (effect (ResumeWaiting (t_Id p)) p)"
  define s2 where "s2 = rc_write x [p'] s1"
  define c' where "c' = stamp n3 (effect (Complete (t_Id c) v') c)"
  define s3 where "s3 = rc_write y [c'] s2"
  note defs = s1_def s2_def s3_def version_write locked_write
  note oks = rc_okD(5) [OF assms(1,3)] rc_okD(5) [OF assms(1,4)] rc_okD(5) [OF assms(1,5)]
  note row = task_row_ok_def task_lease_check_def task_error_check_def release_def set_state_def
  have ids: "t_Id b' = t_Id b" "t_Id p' = t_Id p" "t_Id c' = t_Id c" by (simp_all add: b'_def p'_def c'_def)
  have e1: "rc_exec x (Complete (t_Id b) v) n1 s = Done 1 s1"
    using oks assms(7) by (simp add: rc_exec_row [OF assms(1,4)] assms(2) s1_def b'_def row split: option.splits)
  have ok1: "rc_ok s1" by (rule rc_exec_ok [OF assms(1) e1])
  have p1: "p \<in> set (rc_rows s1)" using assms(3) by (simp add: s1_def)
  have v1: "version x s1 p = p" "\<not> locked_for x s1 (t_Id p)" using assms(2,9) ids by (simp_all add: s1_def version_write locked_write)
  have e2: "rc_exec x (ResumeWaiting (t_Id p)) n2 s1 = Done 1 s2"
    using oks assms(6) v1 by (simp add: rc_exec_row [OF ok1 p1] s2_def p'_def row)
  have ok2: "rc_ok s2" by (rule rc_exec_ok [OF ok1 e2])
  have c2: "c \<in> set (rc_rows s2)" using assms(5) by (simp add: s1_def s2_def)
  have v2: "version y s2 c = c" "\<not> locked_for y s2 (t_Id c)"
    using assms(2,9,10) ids by (simp_all add: s1_def s2_def version_write locked_write)
  have e3: "rc_exec y (Complete (t_Id c) v') n3 s2 = Done 1 s3"
    using oks assms(8) v2 by (simp add: rc_exec_row [OF ok2 c2] s3_def c'_def row split: option.splits)
  have ok3: "rc_ok s3" by (rule rc_exec_ok [OF ok2 e3])
  have p3: "p \<in> set (rc_rows s3)" using assms(3) by (simp add: defs)
  have v3: "version y s3 p = p" "locked_for y s3 (t_Id p)" using assms(2,9,10) ids by (simp_all add: defs)
  have e4: "rc_exec y (ResumeWaiting (t_Id p)) n4 s3 = Waits"
    using assms(6) v3 by (simp add: rc_exec_row [OF ok3 p3])
  let ?c = "rc_commit x s3"
  have "version x s3 p = p'" using assms(9,10) ids by (simp add: defs)
  then have pc: "p' \<in> set (rc_rows ?c)" using rows_commit [OF p3, of x] by simp
  have vy: "version y ?c p' = p'" using assms(2,9,10) ids by (simp add: version_commit defs)
  have "t_Status p' = StatusPending" by (simp add: p'_def stamp_def)
  then have e5: "rc_exec y (ResumeWaiting (t_Id p)) n5 ?c = Done 0 ?c"
    using rc_exec_row [OF rc_commit_ok [OF ok3] pc, of "ResumeWaiting (t_Id p)" y n5] ids vy by simp
  have "rc_vers s3 = [(y, c'), (x, p'), (x, b')]" using assms(2,9,10) ids by (simp add: rc_write_def s1_def s2_def s3_def)
  then have "rc_vers ?c = [(y, c')]" using assms(10) by (simp add: rc_commit_def)
  then have "rc_vers (rc_commit y ?c) = []" by (intro commit_clean) simp
  moreover have "p' \<in> set (rc_rows (rc_commit y ?c))" "b' \<in> set (rc_rows (rc_commit y ?c))" "c' \<in> set (rc_rows (rc_commit y ?c))"
    using two_commits [of p s3 y x] two_commits [of b s3 y x] two_commits [of c s3 y x] assms(2-5,9,10) ids
    by (simp_all add: version_commit s1_def s2_def s3_def version_write)
  moreover have "t_Status b' = StatusCompleted" "t_Status c' = StatusCompleted"
    by (simp_all add: b'_def c'_def stamp_def release_def)
  ultimately show thesis
    using that [OF e1 e2 e3 e4 e5] ids \<open>t_Status p' = StatusPending\<close> by (simp add: Bex_def) blast
qed

section \<open>A table for the witnesses\<close>

definition family_row :: "int \<Rightarrow> Status \<Rightarrow> (string \<times> int) option \<Rightarrow> int option \<Rightarrow> Task" where
  "family_row i st lease parent =
     \<lparr>t_Id = i, t_TaskType = ''ingest'', t_State = JObj [], t_Status = st, t_WorkerId = map_option fst lease,
      t_LeaseExpiresAt = map_option snd lease, t_Error = None, t_ParentId = parent, t_CreatedAt = i, t_UpdatedAt = i\<rparr>"

definition family :: shared where
  "family = \<lparr>rc_rows = [family_row 1 StatusRunning (Some (''w1'', 500)) None, family_row 2 StatusRunning (Some (''w2'', 500)) (Some 1),
     family_row 3 StatusPending None (Some 1), family_row 4 StatusPending None None], rc_vers = []\<rparr>"

lemma family_ok: "rc_ok family"
  by (simp add: rc_ok_def family_def family_row_def keyed_def task_row_ok_def task_lease_check_def task_error_check_def)

definition siblings_family :: shared where
  "siblings_family = \<lparr>rc_rows = [family_row 1 StatusWaiting None None, family_row 2 StatusRunning (Some (''w1'', 500)) (Some 1),
     family_row 3 StatusRunning (Some (''w2'', 500)) (Some 1)], rc_vers = []\<rparr>"

lemma siblings_family_ok: "rc_ok siblings_family"
  by (simp add: rc_ok_def siblings_family_def family_row_def keyed_def task_row_ok_def task_lease_check_def task_error_check_def)

end
