(* ===== verification/VM_Stmt.thy ===== *)
theory VM_Stmt
  imports VM_Cards VM_Media
begin

text \<open>
  Statements as they are handed to the driver (src/internal/lib/vmdb/statement.go): the text, and its arguments by position or
  by name. The driver replaces \<^verbatim>\<open>@name\<close> in the text by the argument of that name and \<^verbatim>\<open>$n\<close> by the n-th argument.
  Values of arguments are of any type.
\<close>

datatype 'v Statement = constantSql string | positionalSql string "'v list" | namedSql string "(string \<times> 'v) list"

datatype 'v argument = Value 'v | NamedArgs "(string \<times> 'v) list"

fun Statement_query :: "'v Statement \<Rightarrow> string \<times> 'v argument list" where
  "Statement_query (constantSql c) = (c, [])"
| "Statement_query (positionalSql sql args) = (sql, map Value args)"
| "Statement_query (namedSql sql args) = (sql, [NamedArgs args])"

definition Constant :: "string \<Rightarrow> 'v Statement" where
  "Constant sql = constantSql sql"

definition Positional :: "string \<Rightarrow> 'v list \<Rightarrow> 'v Statement" where
  "Positional sql args = positionalSql sql args"

definition Named :: "string \<Rightarrow> (string \<times> 'v) list \<Rightarrow> 'v Statement" where
  "Named sql args = namedSql sql args"

text \<open>The statement of a listing, with the arguments \<^verbatim>\<open>ListQuery.statement\<close> gives it.\<close>

definition list_statement :: "ListQuery \<Rightarrow> uint32 Statement result" where
  "list_statement lq =
     (case statement lq of
        Ok (n, lastSeenId) \<Rightarrow> Ok (Named (Sql lq) [(''limit'', n), (''lastSeenId'', lastSeenId)])
      | Err e \<Rightarrow> Err e
      | Panic p \<Rightarrow> Panic p)"

section \<open>Placeholders\<close>

definition name_char :: "char \<Rightarrow> bool" where
  "name_char c =
     (CHR ''a'' \<le> c \<and> c \<le> CHR ''z'' \<or> CHR ''A'' \<le> c \<and> c \<le> CHR ''Z'' \<or> CHR ''0'' \<le> c \<and> c \<le> CHR ''9'' \<or> c = CHR ''_'')"

text \<open>The placeholders of a text, each with the character that marks it.\<close>

fun placeholders :: "char \<Rightarrow> string \<Rightarrow> string list" where
  "placeholders m [] = []"
| "placeholders m (c # cs) =
     (let names = placeholders m cs in if c = m then takeWhile name_char cs # names else names)"

definition all_bound :: "'v Statement \<Rightarrow> bool" where
  "all_bound st =
     (case Statement_query st of (text, args) \<Rightarrow>
      case args of
        [NamedArgs nas] \<Rightarrow> set (placeholders (CHR ''@'') text) \<subseteq> set (map fst nas) \<and> distinct (map fst nas)
      | _ \<Rightarrow> placeholders (CHR ''@'') text = [])"

definition listing_texts :: "string list" where
  "listing_texts = [list_cards_sql, list_kinds_sql, list_sets_sql, list_media_sql]"

lemma listing_placeholders: "list_all (\<lambda>text. set (placeholders (CHR ''@'') text) = {''limit'', ''lastSeenId''}) listing_texts"
  by (simp add: listing_texts_def list_cards_sql_def list_kinds_sql_def list_sets_sql_def list_media_sql_def name_char_def
      insert_commute)

text \<open>A listing binds each placeholder of its text once.\<close>

lemma list_statement_bound:
  assumes "list_statement lq = Ok st" and "Sql lq \<in> set listing_texts"
  shows "all_bound st"
proof -
  have "set (placeholders (CHR ''@'') (Sql lq)) = {''limit'', ''lastSeenId''}"
    using listing_placeholders assms(2) by (simp add: list_all_iff)
  moreover obtain n i where "st = Named (Sql lq) [(''limit'', n), (''lastSeenId'', i)]"
    using assms(1) by (auto simp: list_statement_def split: result.splits)
  ultimately show ?thesis by (simp add: all_bound_def Named_def)
qed

text \<open>The claim of a scan: \<^verbatim>\<open>claimSQL\<close>, with the white space collapsed, and its arguments.\<close>

definition claim_sql :: string where
  "claim_sql = ''UPDATE tasks SET status = 'running', worker_id = @workerId, lease_expires_at = @leaseExpires WHERE id = ( SELECT id FROM tasks WHERE ((status = 'pending') OR (status = 'running' AND lease_expires_at < NOW())) AND task_type = ANY(@taskTypes) ORDER BY created_at FOR UPDATE SKIP LOCKED LIMIT 1 ) RETURNING id, task_type, state''"

datatype claim_value = Worker string | Lease int | TaskTypes "string list"

definition claim_statement :: "string \<Rightarrow> int \<Rightarrow> string list \<Rightarrow> claim_value Statement" where
  "claim_statement workerId leaseExpires taskTypes =
     Named claim_sql [(''workerId'', Worker workerId), (''leaseExpires'', Lease leaseExpires), (''taskTypes'', TaskTypes taskTypes)]"

lemma claim_statement_bound: "all_bound (claim_statement w e tys)"
  by (simp add: all_bound_def claim_statement_def Named_def claim_sql_def name_char_def)

end
