(* ===== verification/VM_Shutdown.thy ===== *)
theory VM_Shutdown
  imports VM_Pool
begin

text \<open>
  Starting and stopping the task system (src/internal/lib/vmtask: \<^verbatim>\<open>StartHandlers\<close> with its error paths in
  notify.go, the \<^verbatim>\<open>ctx.Done()\<close> branches of \<^verbatim>\<open>scanner.run\<close>, \<^verbatim>\<open>scanAndAssign\<close> and \<^verbatim>\<open>worker.run\<close>, \<^verbatim>\<open>Wait\<close> in
  registry.go). The state adds to the pool whether the context is cancelled, which goroutines have returned, and
  the counter of the wait group.

  A \<^verbatim>\<open>select\<close> whose other branch is ready may take it although the context is cancelled, so the moves of the pool
  go on for the goroutines that have not returned. Cancelling comes from the caller, or from the goroutine that
  waits for notifications: it returns on any error of its connection and cancels the context of all the others.
\<close>

record run =
  pl :: pool
  cancelled :: bool
  stopped :: "nat set"
  scanner_done :: bool
  dispatcher_done :: bool
  wg :: nat

text \<open>
  \<^verbatim>\<open>connect\<close> and \<^verbatim>\<open>listen_err\<close> are the errors of \<^verbatim>\<open>pgx.Connect\<close> and of LISTEN. The workers and the scanner run before
  LISTEN is sent: \<^verbatim>\<open>moved\<close> is what they, and others on the database, did by the time of its answer. A successful LISTEN has
  taken effect by then; after a failed one they are cancelled, wherever they are.
\<close>

definition spawned :: "int \<Rightarrow> int list \<Rightarrow> run" where
  "spawned workerGoroutines pending =
     (let p = StartHandlers workerGoroutines pending in
      \<lparr>pl = p, cancelled = False, stopped = {}, scanner_done = False, dispatcher_done = True, wg = Suc (length (workers p))\<rparr>)"

definition start_handlers ::
  "goerr option \<Rightarrow> goerr option \<Rightarrow> int \<Rightarrow> int list \<Rightarrow> (run \<Rightarrow> run) \<Rightarrow> unit result \<times> run option" where
  "start_handlers connect listen_err workerGoroutines pending moved =
     (case connect of
        Some e \<Rightarrow> (Err (wrapf ''failed to connect to Postgres: '' e), None)
      | None \<Rightarrow>
          (let r = moved (spawned workerGoroutines pending) in
           case listen_err of
             Some e \<Rightarrow> (Err (wrapf ''failed to LISTEN on channel \"tasks\": '' e), Some (r\<lparr>cancelled := True\<rparr>))
           | None \<Rightarrow> (Ok (), Some (r\<lparr>pl := (pl r)\<lparr>listening := True\<rparr>, dispatcher_done := False, wg := Suc (wg r)\<rparr>))))"

text \<open>\<^verbatim>\<open>Wait\<close> returns at once without a wait group, and otherwise when its counter is zero.\<close>

definition Wait_returns :: "run option \<Rightarrow> bool" where
  "Wait_returns w = (case w of None \<Rightarrow> True | Some r \<Rightarrow> wg r = 0)"

text \<open>A goroutine that has returned takes no part in a move.\<close>

definition alive :: "run \<Rightarrow> pool \<Rightarrow> bool" where
  "alive r p = ((\<forall>i\<in>stopped r. workers p ! i = workers (pl r) ! i) \<and>
     (scanner_done r \<longrightarrow> scan_at p = scan_at (pl r)) \<and>
     (dispatcher_done r \<longrightarrow> event_held p = event_held (pl r)))"

definition scanner_returns :: "run \<Rightarrow> run" where
  "scanner_returns r = r\<lparr>scanner_done := True, wg := wg r - 1\<rparr>"

text \<open>
  The moves of the goroutines. A scan that fails under a cancelled context goes straight through its back-off,
  where only \<^verbatim>\<open>ctx.Done()\<close> is ready; so does a claim that is committed but not handed over.
\<close>

inductive goroutine_step :: "run \<Rightarrow> run \<Rightarrow> bool" where
  move: "internal (pl r) p \<or> claims (pl r) p \<Longrightarrow> alive r p \<Longrightarrow> goroutine_step r (r\<lparr>pl := p\<rparr>)"
| scan_fails: "\<not> cancelled r \<Longrightarrow> \<not> scanner_done r \<Longrightarrow> scan_error (pl r) p \<Longrightarrow> goroutine_step r (r\<lparr>pl := p\<rparr>)"
| scan_stops: "cancelled r \<Longrightarrow> \<not> scanner_done r \<Longrightarrow> scan_at (pl r) = Scanning i \<Longrightarrow>
    goroutine_step r (scanner_returns (r\<lparr>pl := (pl r)\<lparr>scan_at := BackingOff, returning := i # returning (pl r)\<rparr>\<rparr>))"
| claim_dropped: "cancelled r \<Longrightarrow> \<not> scanner_done r \<Longrightarrow> scan_at (pl r) = Scanning i \<Longrightarrow> t \<in> set (todo (pl r)) \<Longrightarrow>
    goroutine_step r (scanner_returns (r\<lparr>pl := (pl r)\<lparr>scan_at := BackingOff, returning := i # returning (pl r),
      todo := remove1 t (todo (pl r))\<rparr>\<rparr>))"
| scanner_stops: "cancelled r \<Longrightarrow> \<not> scanner_done r \<Longrightarrow> (\<forall>i. scan_at (pl r) \<noteq> Scanning i) \<Longrightarrow>
    goroutine_step r (scanner_returns r)"
| worker_stops: "cancelled r \<Longrightarrow> i < length (workers (pl r)) \<Longrightarrow> i \<notin> stopped r \<Longrightarrow> (\<forall>t. workers (pl r) ! i \<noteq> Processing t) \<Longrightarrow>
    goroutine_step r (r\<lparr>stopped := insert i (stopped r), wg := wg r - 1\<rparr>)"
| return_dropped: "cancelled r \<Longrightarrow> i \<in> set (returning (pl r)) \<Longrightarrow>
    goroutine_step r (r\<lparr>pl := (pl r)\<lparr>returning := remove1 i (returning (pl r))\<rparr>\<rparr>)"
| dispatcher_stops: "cancelled r \<Longrightarrow> \<not> dispatcher_done r \<Longrightarrow> goroutine_step r (r\<lparr>dispatcher_done := True, wg := wg r - 1\<rparr>)"

inductive connection_lost :: "run \<Rightarrow> run \<Rightarrow> bool" where
  "\<not> dispatcher_done r \<Longrightarrow> \<not> event_held (pl r) \<Longrightarrow>
    connection_lost r (r\<lparr>dispatcher_done := True, cancelled := True, wg := wg r - 1\<rparr>)"

inductive run_step :: "run \<Rightarrow> run \<Rightarrow> bool" where
  goroutine: "goroutine_step r r' \<Longrightarrow> run_step r r'"
| outside: "environment (pl r) p \<Longrightarrow> run_step r (r\<lparr>pl := p\<rparr>)"
| cancel: "run_step r (r\<lparr>cancelled := True\<rparr>)"
| lost: "connection_lost r r' \<Longrightarrow> run_step r r'"

inductive_cases connection_lostE: "connection_lost r r'"

section \<open>The wait group counts the goroutines that run\<close>

definition running :: "run \<Rightarrow> nat" where
  "running r = card ({..<length (workers (pl r))} - stopped r) + (if scanner_done r then 0 else 1) +
     (if dispatcher_done r then 0 else 1)"

definition run_ok :: "run \<Rightarrow> bool" where
  "run_ok r = (wg r = running r \<and> (\<forall>i\<in>stopped r. i < length (workers (pl r)) \<and> (\<forall>t. workers (pl r) ! i \<noteq> Processing t)))"

lemma spawned_run_ok: "run_ok (spawned n pending)"
  by (simp add: spawned_def run_ok_def running_def Let_def)

lemma pool_workers: "internal p p' \<or> claims p p' \<Longrightarrow> length (workers p') = length (workers p)"
  using any_step_length by (auto simp: any_step_def)

lemma scan_error_workers: "scan_error p p' \<Longrightarrow> workers p' = workers p"
  by (induction rule: scan_error.induct) simp_all

lemma goroutine_step_ok: "goroutine_step r r' \<Longrightarrow> run_ok r \<Longrightarrow> run_ok r'"
proof (induction rule: goroutine_step.induct)
  case (move r p)
  then show ?case using pool_workers [OF move(1)] by (auto simp: run_ok_def running_def alive_def)
next
  case (worker_stops r i)
  then have "card ({..<length (workers (pl r))} - insert i (stopped r)) = card ({..<length (workers (pl r))} - stopped r) - 1"
    by (subst Diff_insert) (simp add: card_Diff_singleton)
  moreover have "0 < card ({..<length (workers (pl r))} - stopped r)"
    using worker_stops by (subst card_gt_0_iff) auto
  ultimately show ?case using worker_stops by (auto simp: run_ok_def running_def)
qed (auto simp: run_ok_def running_def scanner_returns_def scan_error_workers)

lemma goroutine_step_dispatcher: "goroutine_step r r' \<Longrightarrow> dispatcher_done r \<Longrightarrow> dispatcher_done r'"
  by (induction rule: goroutine_step.induct) (simp_all add: scanner_returns_def)

lemma run_step_ok: "run_step r r' \<Longrightarrow> run_ok r \<Longrightarrow> run_ok r'"
proof (induction rule: run_step.induct)
  case (outside r p)
  then have "workers p = workers (pl r)" by (auto elim: environmentE)
  with outside show ?case by (simp add: run_ok_def running_def)
next
  case (lost r r')
  then show ?case by (auto simp: run_ok_def running_def elim: connection_lostE)
next
  case (goroutine r r')
  then show ?case by (rule goroutine_step_ok)
qed (simp add: run_ok_def running_def)

lemma run_steps_ok: "run_step\<^sup>*\<^sup>* r r' \<Longrightarrow> run_ok r \<Longrightarrow> run_ok r'"
  by (induction rule: rtranclp_induct) (auto intro: run_step_ok)

text \<open>What the goroutines may have done before LISTEN was answered; the goroutine for notifications is not there yet.\<close>

definition before_listen :: "int \<Rightarrow> int list \<Rightarrow> (run \<Rightarrow> run) \<Rightarrow> bool" where
  "before_listen n pending moved = run_step\<^sup>*\<^sup>* (spawned n pending) (moved (spawned n pending))"

lemma run_step_dispatcher: "run_step r r' \<Longrightarrow> dispatcher_done r \<Longrightarrow> dispatcher_done r'"
  by (induction rule: run_step.induct)
    (auto elim: connection_lostE dest: goroutine_step_dispatcher)

lemma run_steps_dispatcher: "run_step\<^sup>*\<^sup>* r r' \<Longrightarrow> dispatcher_done r \<Longrightarrow> dispatcher_done r'"
  by (induction rule: rtranclp_induct) (auto intro: run_step_dispatcher)

lemma start_run_ok:
  assumes "start_handlers connect listen_err n pending moved = (res, Some r)" and "before_listen n pending moved"
  shows "run_ok r"
proof -
  let ?r = "moved (spawned n pending)"
  have steps: "run_step\<^sup>*\<^sup>* (spawned n pending) ?r" using assms(2) by (simp add: before_listen_def)
  have "run_ok ?r" using run_steps_ok [OF steps spawned_run_ok] .
  moreover have "dispatcher_done ?r" using run_steps_dispatcher [OF steps] by (simp add: spawned_def Let_def)
  ultimately show ?thesis
    using assms(1) by (auto simp: start_handlers_def Let_def run_ok_def running_def split: option.splits)
qed

text \<open>Until the context is cancelled the system is the pool: each step is one of the pool's.\<close>

lemma goroutine_step_cancelled: "goroutine_step r r' \<Longrightarrow> cancelled r' = cancelled r"
  by (induction rule: goroutine_step.induct) (simp_all add: scanner_returns_def)

lemma run_step_pool:
  assumes "run_step r r'" and "\<not> cancelled r'"
  shows "any_step (pl r) (pl r')"
  using assms(1)
proof cases
  case goroutine
  then show ?thesis
    using goroutine_step_cancelled [OF goroutine] assms(2) by cases (auto simp: any_step_def)
next
  case lost
  then show ?thesis using assms(2) by (auto elim: connection_lostE)
qed (use assms(2) in \<open>auto simp: any_step_def\<close>)

section \<open>A cancelled system comes to rest\<close>

text \<open>\<^verbatim>\<open>will_stop r\<close>: whatever the goroutines do, after finitely many moves all have returned.\<close>

definition will_stop :: "run \<Rightarrow> bool" where
  "will_stop = inevitable goroutine_step (\<lambda>r. wg r = 0)"

fun stop_weight :: "scanner_at \<Rightarrow> nat" where
  "stop_weight BackingOff = 5"
| "stop_weight WantWorker = 4"
| "stop_weight (Scanning i) = 4"
| "stop_weight WaitingEvent = 1"

definition stop_measure :: "pool \<Rightarrow> nat" where
  "stop_measure p =
     sum_list (map worker_weight (workers p)) + 2 * length (returning p) + length (available p) + stop_weight (scan_at p) +
     5 * queued p + (if event_held p then 4 else 0) + 6 * length (todo p)"

lemma remove1_shorter: "x \<in> set xs \<Longrightarrow> Suc (length (remove1 x xs)) = length xs"
  by (induction xs) auto

lemma internal_stop_measure: "internal p p' \<Longrightarrow> stop_measure p' < stop_measure p"
proof (induction rule: internal.induct)
  case (announce i s)
  then show ?case using sum_list_update [of i "workers s" worker_weight AwaitingWork] by (simp add: stop_measure_def)
next
  case (finish i s t)
  then show ?case using sum_list_update [of i "workers s" worker_weight Announcing] by (simp add: stop_measure_def)
next
  case (give_back i s)
  then show ?case using remove1_shorter [of i "returning s"] by (simp add: stop_measure_def)
qed (simp_all add: stop_measure_def)

lemma claims_stop_measure: "claims p p' \<Longrightarrow> stop_measure p' < stop_measure p"
proof (induction rule: claims.induct)
  case (assign s i t)
  have "sum_list (map worker_weight ((workers s)[i := Processing t])) \<le> sum_list (map worker_weight (workers s)) + 4"
    using sum_list_update [of i "workers s" worker_weight "Processing t"] by (cases "i < length (workers s)") (simp_all add: list_update_beyond)
  then show ?case using assign remove1_shorter [of t "todo s"] by (simp add: stop_measure_def)
next
  case (unhandled s i t)
  then show ?case using remove1_shorter [of t "todo s"] by (simp add: stop_measure_def)
qed

definition run_measure :: "run \<Rightarrow> nat" where
  "run_measure r = stop_measure (pl r) + 10 * wg r"

lemma run_ok_wg:
  assumes "run_ok r"
  shows "\<not> scanner_done r \<Longrightarrow> 0 < wg r" and "\<not> dispatcher_done r \<Longrightarrow> 0 < wg r"
    and "i < length (workers (pl r)) \<Longrightarrow> i \<notin> stopped r \<Longrightarrow> 0 < wg r"
    and "wg r = 0 \<Longrightarrow> scanner_done r \<and> dispatcher_done r \<and> (\<forall>i < length (workers (pl r)). i \<in> stopped r)"
  using assms by (auto simp: run_ok_def running_def card_gt_0_iff)

lemma stop_decreases: "goroutine_step r r' \<Longrightarrow> cancelled r \<Longrightarrow> run_ok r \<Longrightarrow> run_measure r' < run_measure r \<and> cancelled r'"
proof (induction rule: goroutine_step.induct)
  case (move r p)
  then show ?case using internal_stop_measure claims_stop_measure by (auto simp: run_measure_def)
next
  case (scan_stops r i)
  then show ?case using run_ok_wg(1) [of r] by (simp add: run_measure_def stop_measure_def scanner_returns_def)
next
  case (claim_dropped r i t)
  then show ?case using run_ok_wg(1) [of r] remove1_shorter [of t "todo (pl r)"]
    by (simp add: run_measure_def stop_measure_def scanner_returns_def)
next
  case (scanner_stops r)
  then show ?case using run_ok_wg(1) [of r] by (simp add: run_measure_def scanner_returns_def)
next
  case (worker_stops r i)
  then show ?case using run_ok_wg(3) [of r i] by (simp add: run_measure_def)
next
  case (return_dropped r i)
  then show ?case using remove1_shorter [of i "returning (pl r)"] by (simp add: run_measure_def stop_measure_def)
next
  case (dispatcher_stops r)
  then show ?case using run_ok_wg(2) [of r] by (simp add: run_measure_def)
qed simp

lemma stop_progress:
  assumes "run_ok r" and "cancelled r" and "wg r \<noteq> 0"
  shows "\<exists>r'. goroutine_step r r'"
proof -
  consider "\<not> scanner_done r" | "\<not> dispatcher_done r" | i where "i < length (workers (pl r))" "i \<notin> stopped r"
  proof -
    have "running r \<noteq> 0" using assms(1,3) by (simp add: run_ok_def)
    then have "\<not> scanner_done r \<or> \<not> dispatcher_done r \<or> {..<length (workers (pl r))} - stopped r \<noteq> {}"
      by (auto simp: running_def)
    then show thesis using that by blast
  qed
  then show ?thesis
  proof cases
    case 1
    then show ?thesis using assms(2) goroutine_step.scan_stops goroutine_step.scanner_stops by blast
  next
    case 2
    then show ?thesis using assms(2) goroutine_step.dispatcher_stops by blast
  next
    case (3 i)
    show ?thesis
    proof (cases "\<exists>t. workers (pl r) ! i = Processing t")
      case True
      then obtain t where "internal (pl r) ((pl r)\<lparr>workers := (workers (pl r))[i := Announcing]\<rparr>)"
        using 3 internal.finish by blast
      moreover have "alive r ((pl r)\<lparr>workers := (workers (pl r))[i := Announcing]\<rparr>)"
        using 3 by (auto simp: alive_def nth_list_update)
      ultimately show ?thesis using goroutine_step.move by blast
    next
      case False
      then show ?thesis using 3 assms(2) goroutine_step.worker_stops by blast
    qed
  qed
qed

interpretation stopping: progress goroutine_step "\<lambda>r. wg r = 0" "\<lambda>r. run_ok r \<and> cancelled r" run_measure
proof
  fix r r' assume ok: "run_ok r \<and> cancelled r"
  then show "wg r = 0 \<or> (\<exists>r'. goroutine_step r r')" using stop_progress by blast
  show "run_ok r' \<and> cancelled r'" "run_measure r' < run_measure r" if "goroutine_step r r'"
    using stop_decreases [OF that] goroutine_step_ok [OF that] ok by simp_all
qed

lemma cancelled_will_stop: "run_ok r \<Longrightarrow> cancelled r \<Longrightarrow> will_stop r"
  unfolding will_stop_def by (intro stopping.reaches_exit) simp

section \<open>A system at rest stays at rest\<close>

text \<open>Nothing starts the goroutines again: no task is claimed any more, and new tasks only pile up.\<close>

lemma internal_todo: "internal p p' \<Longrightarrow> todo p' = todo p"
  by (induction rule: internal.induct) simp_all

lemma claims_scan_at: "claims p p' \<Longrightarrow> scan_at p' \<noteq> scan_at p"
  by (induction rule: claims.induct) simp_all

lemma rest_step:
  assumes "run_step r r'" and "run_ok r" and "wg r = 0"
  shows "wg r' = 0 \<and> (\<exists>new. todo (pl r') = todo (pl r) @ new)"
proof -
  have rest: "scanner_done r" "dispatcher_done r" "\<forall>i < length (workers (pl r)). i \<in> stopped r"
    using run_ok_wg(4) [OF assms(2,3)] by simp_all
  show ?thesis
    using assms(1)
  proof cases
    case goroutine
    then show ?thesis
      using rest assms(3) by cases (auto simp: internal_todo alive_def dest: claims_scan_at)
  next
    case (outside p)
    then show ?thesis using assms(3) by (auto elim: environmentE)
  next
    case lost
    then show ?thesis using rest(2) by (auto elim: connection_lostE)
  qed (use assms(3) in simp)
qed

lemma rest_steps:
  assumes "run_step\<^sup>*\<^sup>* r r'" and "run_ok r" and "wg r = 0"
  shows "wg r' = 0 \<and> (\<exists>new. todo (pl r') = todo (pl r) @ new)"
  using assms(1)
proof (induction rule: rtranclp_induct)
  case (step r1 r2)
  then show ?case using rest_step [OF step(2) run_steps_ok [OF step(1) assms(2)]] by auto
qed (simp add: assms(3))

section \<open>LISTEN fails while a task is processed\<close>

text \<open>A worker that has announced itself, a scan, and a claim, before the answer to LISTEN.\<close>

definition claimed_first :: "int \<Rightarrow> run \<Rightarrow> run" where
  "claimed_first t r = r\<lparr>pl := (pl r)\<lparr>workers := (workers (pl r))[0 := Processing t], todo := remove1 t (todo (pl r))\<rparr>\<rparr>"

lemma claimed_first_reached:
  assumes "t \<in> set pending"
  shows "before_listen n pending (claimed_first t)"
proof -
  let ?r = "spawned n pending" and ?p0 = "StartHandlers n pending"
  let ?p1 = "?p0\<lparr>available := [0], workers := (workers ?p0)[0 := AwaitingWork]\<rparr>"
  let ?p2 = "?p1\<lparr>scan_at := Scanning 0, available := []\<rparr>"
  let ?p3 = "?p2\<lparr>scan_at := WantWorker, workers := (workers ?p0)[0 := Processing t], todo := remove1 t pending\<rparr>"
  have move: "internal (pl r) p \<or> claims (pl r) p \<Longrightarrow> stopped r = {} \<Longrightarrow> \<not> scanner_done r \<Longrightarrow> event_held p = event_held (pl r) \<Longrightarrow>
      run_step r (r\<lparr>pl := p\<rparr>)" for r p
    by (intro run_step.goroutine goroutine_step.move) (simp_all add: alive_def)
  have spawned: "pl ?r = ?p0" "stopped ?r = {}" "\<not> scanner_done ?r" by (simp_all add: spawned_def Let_def)
  have "internal ?p0 ?p1" using internal.announce [of 0 ?p0] by (simp add: StartHandlers_def Let_def room_def)
  then have "run_step ?r (?r\<lparr>pl := ?p1\<rparr>)" using spawned by (intro move) simp_all
  moreover have "internal ?p1 ?p2" using internal.take_worker [of ?p1 0 "[]"] by (simp add: StartHandlers_def Let_def)
  then have "run_step (?r\<lparr>pl := ?p1\<rparr>) (?r\<lparr>pl := ?p2\<rparr>)" using spawned move [of "?r\<lparr>pl := ?p1\<rparr>" ?p2] by simp
  moreover have "claims ?p2 ?p3"
    using claims.assign [of ?p2 0 t] assms by (simp add: StartHandlers_def Let_def)
  then have "run_step (?r\<lparr>pl := ?p2\<rparr>) (?r\<lparr>pl := ?p3\<rparr>)" using spawned move [of "?r\<lparr>pl := ?p2\<rparr>" ?p3] by simp
  moreover have "?r\<lparr>pl := ?p3\<rparr> = claimed_first t ?r" by (simp add: claimed_first_def spawned_def StartHandlers_def Let_def)
  ultimately show ?thesis unfolding before_listen_def by (metis converse_rtranclp_into_rtranclp rtranclp.rtrancl_refl)
qed

lemma lost_cancels: "connection_lost r r' \<Longrightarrow> cancelled r'"
  by (induction rule: connection_lost.induct) simp

end
