(* ===== verification/VM_Options.thy ===== *)
theory VM_Options
  imports VM_Run
begin

text \<open>
  The construction of the connection pool (src/internal/lib/vmdb: options.go, and \<^verbatim>\<open>New\<close> of new.go).
  A pool configuration keeps what the options can change: the query mode, and the hook \<^verbatim>\<open>AfterConnect\<close>,
  which is nil or a chain of statements that set the session's isolation level. Parsing the URL and
  opening the pool belong to the driver and are parameters.
\<close>

datatype Option = WithSimpleProtocol | WithReadCommitted | WithRepeatableRead | WithSerializable

record pool_config =
  SimpleProtocol :: bool
  AfterConnect :: "isolation list option"

text \<open>The hook that an isolation option installs runs its own statement and then the hook it found.\<close>

definition chain :: "isolation \<Rightarrow> pool_config \<Rightarrow> pool_config" where
  "chain level cfg =
     cfg\<lparr>AfterConnect := Some (level # (case AfterConnect cfg of None \<Rightarrow> [] | Some old \<Rightarrow> old))\<rparr>"

fun updatePoolConfig :: "Option \<Rightarrow> pool_config \<Rightarrow> pool_config" where
  "updatePoolConfig WithSimpleProtocol cfg = cfg\<lparr>SimpleProtocol := True\<rparr>"
| "updatePoolConfig WithReadCommitted cfg = chain ReadCommitted cfg"
| "updatePoolConfig WithRepeatableRead cfg = chain RepeatableRead cfg"
| "updatePoolConfig WithSerializable cfg = chain Serializable cfg"

definition New_config :: "Option list \<Rightarrow> pool_config \<Rightarrow> pool_config" where
  "New_config options cfg =
     (let cfg1 = fold updatePoolConfig options cfg in
      fold updatePoolConfig (WithSerializable # options) cfg1)"

definition Db_New ::
  "(string \<Rightarrow> goerr + pool_config) \<Rightarrow> (pool_config \<Rightarrow> goerr + 'pool) \<Rightarrow> (string \<Rightarrow> string) \<Rightarrow> string \<Rightarrow> Option list \<Rightarrow> 'pool result" where
  "Db_New ParseConfig NewWithConfig quote url options =
     (case ParseConfig url of
        Inl err \<Rightarrow> Err (Errorf (Text ''could not parse connection url '' (Text (quote url) (Text '': '' (Wrapped err End)))))
      | Inr cfg \<Rightarrow>
          (case NewWithConfig (New_config options cfg) of
             Inl err \<Rightarrow> Err err
           | Inr pool \<Rightarrow> Ok pool))"

text \<open>
  What a new connection does with the hook: it runs the statements in order, each overwriting the level
  of the session, and gives up at the first one the server refuses (\<^verbatim>\<open>refuse n\<close> for the \<open>n\<close>-th).
\<close>

fun run_hook :: "(nat \<Rightarrow> goerr option) \<Rightarrow> nat \<Rightarrow> isolation list \<Rightarrow> isolation \<Rightarrow> isolation result" where
  "run_hook refuse n [] level = Ok level"
| "run_hook refuse n (l # ls) level =
     (case refuse n of Some e \<Rightarrow> Err e | None \<Rightarrow> run_hook refuse (Suc n) ls l)"

definition session_level :: "(nat \<Rightarrow> goerr option) \<Rightarrow> isolation \<Rightarrow> pool_config \<Rightarrow> isolation result" where
  "session_level refuse server_default cfg =
     run_hook refuse 0 (case AfterConnect cfg of None \<Rightarrow> [] | Some ls \<Rightarrow> ls) server_default"

section \<open>The level of a session\<close>

fun option_level :: "Option \<Rightarrow> isolation option" where
  "option_level WithSimpleProtocol = None"
| "option_level WithReadCommitted = Some ReadCommitted"
| "option_level WithRepeatableRead = Some RepeatableRead"
| "option_level WithSerializable = Some Serializable"

abbreviation hook :: "pool_config \<Rightarrow> isolation list" where
  "hook cfg \<equiv> (case AfterConnect cfg of None \<Rightarrow> [] | Some ls \<Rightarrow> ls)"

lemma hook_update: "hook (updatePoolConfig opt cfg) = (case option_level opt of None \<Rightarrow> [] | Some l \<Rightarrow> [l]) @ hook cfg"
  by (cases opt) (simp_all add: chain_def)

lemma hook_fold: "hook (fold updatePoolConfig options cfg) = rev (List.map_filter option_level options) @ hook cfg"
proof (induction options arbitrary: cfg)
  case (Cons opt options)
  then show ?case
    using hook_update [of opt cfg] by (simp add: List.map_filter_simps split: option.splits)
qed (simp add: List.map_filter_simps)

lemma run_hook_reliable: "(\<And>n. refuse n = None) \<Longrightarrow> run_hook refuse n ls level = Ok (last (level # ls))"
  by (induction ls arbitrary: n level) simp_all

lemma New_hook:
  "hook (New_config options cfg) =
     (let ls = List.map_filter option_level options in rev ls @ Serializable # rev ls @ hook cfg)"
proof -
  have "hook (New_config options cfg) = rev (List.map_filter option_level (WithSerializable # options)) @
      rev (List.map_filter option_level options) @ hook cfg"
    unfolding New_config_def Let_def hook_fold ..
  then show ?thesis by (simp add: List.map_filter_simps Let_def)
qed

lemma session_level_New:
  assumes "\<And>n. refuse n = None" and "AfterConnect cfg = None"
  shows "session_level refuse server_default (New_config options cfg) =
    Ok (case List.map_filter option_level options of [] \<Rightarrow> Serializable | l # _ \<Rightarrow> l)"
proof -
  have "session_level refuse server_default (New_config options cfg) =
      Ok (last (server_default # hook (New_config options cfg)))"
    unfolding session_level_def using run_hook_reliable [of refuse, OF assms(1)] .
  also have "hook (New_config options cfg) =
      (let ls = List.map_filter option_level options in rev ls @ Serializable # rev ls)"
    unfolding New_hook by (simp add: assms(2) Let_def)
  finally show ?thesis by (simp add: Let_def split: list.splits)
qed

end
