(* ===== verification/VM_Startup.thy ===== *)
theory VM_Startup
  imports VM_EndToEnd VM_Shutdown VM_Options
begin

text \<open>
  The start of the program (src/main.go) and the migrations it runs (src/internal/lib/migrate/migrate.go), with
  the database of the tests that is built from the same parts (src/internal/lib/vmtest/postgres.go).

  The migration library, the driver, the file system and the HTTP server are parameters. The library acts on a
  database of any type; what \<^verbatim>\<open>main\<close> does is the list of its actions in order, and a call of \<^verbatim>\<open>main\<close> returns when
  the server ends or a step fails. A printed line is given without its line feed.
\<close>

section \<open>Migrations\<close>

record 'd migrate_lib =
  iofs_New :: "goerr option"
  NewWithSourceInstance :: "string \<Rightarrow> goerr option"
  m_Up :: "'d \<Rightarrow> goerr option \<times> 'd"
  m_Down :: "'d \<Rightarrow> goerr option \<times> 'd"

definition migration_error :: "string \<Rightarrow> goerr \<Rightarrow> goerr" where
  "migration_error msg e = Errorf (Wrapped (Sentinel ErrMigration) (Text msg (Wrapped e End)))"

definition migrate_setup :: "'d migrate_lib \<Rightarrow> Postgres \<Rightarrow> unit result" where
  "migrate_setup lib cfg =
     (case iofs_New lib of
        Some e \<Rightarrow> Err (migration_error '': failed to create iofs source: '' e)
      | None \<Rightarrow>
          (case NewWithSourceInstance lib (URL cfg) of
             Some e \<Rightarrow> Err (migration_error '': failed to create migrate instance: '' e)
           | None \<Rightarrow> Ok ()))"

text \<open>\<^verbatim>\<open>Up\<close> and \<^verbatim>\<open>Down\<close> share their body; having nothing to do is no error.\<close>

definition migrate_run :: "'d migrate_lib \<Rightarrow> Postgres \<Rightarrow> ('d \<Rightarrow> goerr option \<times> 'd) \<Rightarrow> 'd \<Rightarrow> unit result \<times> 'd" where
  "migrate_run lib cfg act d =
     (case migrate_setup lib cfg of
        Ok _ \<Rightarrow>
          (case act d of
             (Some e, d1) \<Rightarrow>
               (if e = Sentinel ErrNoChange then Ok () else Err (migration_error '': migration failed: '' e), d1)
           | (None, d1) \<Rightarrow> (Ok (), d1))
      | Err e \<Rightarrow> (Err e, d)
      | Panic p \<Rightarrow> (Panic p, d))"

definition migrate_Up :: "'d migrate_lib \<Rightarrow> Postgres \<Rightarrow> 'd \<Rightarrow> unit result \<times> 'd" where
  "migrate_Up lib cfg = migrate_run lib cfg (m_Up lib)"

definition migrate_Down :: "'d migrate_lib \<Rightarrow> Postgres \<Rightarrow> 'd \<Rightarrow> unit result \<times> 'd" where
  "migrate_Down lib cfg = migrate_run lib cfg (m_Down lib)"

section \<open>The start of the program\<close>

record ('pool, 'd) host =
  h_env :: env
  h_MkdirAll :: "string \<Rightarrow> goerr option"
  h_ParseConfig :: "string \<Rightarrow> goerr + pool_config"
  h_NewWithConfig :: "pool_config \<Rightarrow> goerr + 'pool"
  h_quote :: "string \<Rightarrow> string"
  h_migrate :: "'d migrate_lib"
  h_rename :: os_rename
  h_Connect :: "string \<Rightarrow> goerr option"
  h_Listen :: "goerr option"
  h_moved :: "run \<Rightarrow> run"
  h_claimable :: "'d \<Rightarrow> string list \<Rightarrow> int list"
  h_ListenAndServe :: "string \<Rightarrow> goerr option"

datatype action =
    MadeDirs "string list"
  | Printed string
  | Opened string
  | Migrated string
  | Started "string list" int
  | Served string
  | Closed

text \<open>
  Once goroutines run, \<^verbatim>\<open>Started\<close> is an action, also when \<^verbatim>\<open>StartHandlers\<close> then fails at LISTEN: they may have claimed
  tasks by then. The deferred \<^verbatim>\<open>db.Close()\<close> runs on every way out once the pool is open; nothing waits for the goroutines.
\<close>

definition main_tasks :: "('pool, 'd) host \<Rightarrow> Config \<Rightarrow> 'd \<Rightarrow> action list \<times> unit result" where
  "main_tasks h c d =
     (case main_registry (cfg_Paths c) (h_rename h) of
        Ok reg \<Rightarrow>
          (case Types (Some reg) of
             Ok taskTypes \<Rightarrow>
               (case start_handlers (h_Connect h (URL (cfg_Postgres c))) (h_Listen h) (WorkerGoroutines c)
                       (h_claimable h d taskTypes) (h_moved h) of
                  (r, run) \<Rightarrow>
                    (let started = (case run of None \<Rightarrow> [] | Some g \<Rightarrow> [Started taskTypes (WorkerGoroutines c)]);
                         addr = ''0.0.0.0:'' @ go_int (HttpPort c) in
                     case r of
                       Ok _ \<Rightarrow>
                         (started @ [Printed (''Starting server on port '' @ go_int (HttpPort c)), Served addr] @
                           (case h_ListenAndServe h addr of
                              Some e \<Rightarrow> [Printed (''Server error: '' @ error_text e)]
                            | None \<Rightarrow> []), Ok ())
                     | Err e \<Rightarrow> (started @ [Printed (''Failed to start handlers: '' @ error_text e)], Ok ())
                     | Panic p \<Rightarrow> (started, Panic p)))
           | Err e \<Rightarrow> ([], Err e)
           | Panic p \<Rightarrow> ([], Panic p))
      | Err e \<Rightarrow> ([], Err e)
      | Panic p \<Rightarrow> ([], Panic p))"

definition main_db :: "('pool, 'd) host \<Rightarrow> Config \<Rightarrow> 'd \<Rightarrow> action list \<times> unit result" where
  "main_db h c d =
     (let url = URL (cfg_Postgres c) in
      case Db_New (h_ParseConfig h) (h_NewWithConfig h) (h_quote h) url [] of
        Ok pool \<Rightarrow>
          (case migrate_Up (h_migrate h) (cfg_Postgres c) d of
             (Ok _, d1) \<Rightarrow> (case main_tasks h c d1 of (acts, r) \<Rightarrow> (Opened url # Migrated url # acts @ [Closed], r))
           | (Err e, d1) \<Rightarrow> ([Opened url, Printed (''Database migration error: '' @ error_text e), Closed], Ok ())
           | (Panic p, d1) \<Rightarrow> ([Opened url, Closed], Panic p))
      | Err e \<Rightarrow> ([Printed (''Unable to connect to database: '' @ error_text e)], Ok ())
      | Panic p \<Rightarrow> ([], Panic p))"

definition main :: "('pool, 'd) host \<Rightarrow> 'd \<Rightarrow> action list \<times> unit result" where
  "main h d =
     (case Config_New (h_env h) of
        Ok c \<Rightarrow>
          (case Bootstrap (h_MkdirAll h) (cfg_Paths c) of
             (dirs, Some e) \<Rightarrow> ([MadeDirs dirs, Printed (''Failed to bootstrap paths: '' @ error_text e)], Ok ())
           | (dirs, None) \<Rightarrow>
               (case main_db h c d of (acts, r) \<Rightarrow>
                 (MadeDirs dirs # Printed (''Connecting to Postgres at '' @ URL (cfg_Postgres c)) # acts, r)))
      | Err e \<Rightarrow> ([], Err e)
      | Panic p \<Rightarrow> ([], Panic p))"

section \<open>When the service is reached\<close>

definition can_run_tasks :: "('pool, 'd) host \<Rightarrow> 'd \<Rightarrow> Config \<Rightarrow> bool" where
  "can_run_tasks h d c =
     (Config_New (h_env h) = Ok c \<and> snd (Bootstrap (h_MkdirAll h) (cfg_Paths c)) = None \<and>
      (\<exists>pool. Db_New (h_ParseConfig h) (h_NewWithConfig h) (h_quote h) (URL (cfg_Postgres c)) [] = Ok pool) \<and>
      fst (migrate_Up (h_migrate h) (cfg_Postgres c) d) = Ok () \<and>
      h_Connect h (URL (cfg_Postgres c)) = None)"

definition can_start :: "('pool, 'd) host \<Rightarrow> 'd \<Rightarrow> Config \<Rightarrow> bool" where
  "can_start h d c = (can_run_tasks h d c \<and> h_Listen h = None)"

lemma Config_New_port: "Config_New e = Ok c \<Longrightarrow> HttpPort c = 25009"
  by (auto simp: Config_New_def call_def split: result.splits)

definition listen_failed :: "goerr \<Rightarrow> goerr" where
  "listen_failed = wrapf ''failed to LISTEN on channel \"tasks\": ''"

lemma start_handlers_cases:
  obtains (refused) e where "connect = Some e"
      "start_handlers connect listen_err n pending moved = (Err (wrapf ''failed to connect to Postgres: '' e), None)"
  | (deaf) e g where "connect = None" "listen_err = Some e"
      "start_handlers connect listen_err n pending moved = (Err (listen_failed e), Some g)"
  | (started) g where "connect = None" "listen_err = None" "start_handlers connect listen_err n pending moved = (Ok (), Some g)"
  by (cases connect; cases listen_err) (auto simp: start_handlers_def listen_failed_def Let_def)

definition serving :: "Config \<Rightarrow> action list" where
  "serving c = [Started [TaskTypeDvdIngestion] (WorkerGoroutines c),
     Printed (''Starting server on port '' @ go_int (HttpPort c)), Served (''0.0.0.0:'' @ go_int (HttpPort c))]"

definition only_prints :: "action list \<Rightarrow> bool" where
  "only_prints acts = list_all (\<lambda>x. case x of Printed msg \<Rightarrow> True | _ \<Rightarrow> False) acts"

text \<open>\<^verbatim>\<open>main_tasks\<close> once the connection for notifications is there: what follows depends on LISTEN.\<close>

lemma main_tasks_connected:
  assumes "h_Connect h (URL (cfg_Postgres c)) = None"
  shows "main_tasks h c d =
    (case h_Listen h of
       Some e \<Rightarrow> ([Started [TaskTypeDvdIngestion] (WorkerGoroutines c), Printed (''Failed to start handlers: '' @ error_text (listen_failed e))], Ok ())
     | None \<Rightarrow> (serving c @ (case h_ListenAndServe h (''0.0.0.0:'' @ go_int (HttpPort c)) of
         Some e \<Rightarrow> [Printed (''Server error: '' @ error_text e)] | None \<Rightarrow> []), Ok ()))"
  by (rule start_handlers_cases [of "h_Connect h (URL (cfg_Postgres c))" "h_Listen h" "WorkerGoroutines c"
        "h_claimable h d [TaskTypeDvdIngestion]" "h_moved h"])
    (simp_all add: main_tasks_def main_registry_eq Types_def assms Let_def serving_def)

lemma main_tasks_refused:
  assumes "h_Connect h (URL (cfg_Postgres c)) = Some e"
  shows "\<exists>msg. main_tasks h c d = ([Printed msg], Ok ())"
  by (simp add: main_tasks_def main_registry_eq Types_def assms start_handlers_def)

text \<open>The actions before the task handlers are started.\<close>

definition preparing :: "string list \<Rightarrow> Config \<Rightarrow> action list" where
  "preparing dirs c = [MadeDirs dirs, Printed (''Connecting to Postgres at '' @ URL (cfg_Postgres c)),
     Opened (URL (cfg_Postgres c)), Migrated (URL (cfg_Postgres c))]"

lemma main_runs:
  assumes "can_run_tasks h d c"
  obtains dirs d1 where "main h d = (preparing dirs c @ fst (main_tasks h c d1) @ [Closed], snd (main_tasks h c d1))"
proof -
  have c: "Config_New (h_env h) = Ok c"
    and up: "fst (migrate_Up (h_migrate h) (cfg_Postgres c) d) = Ok ()"
    and boot: "snd (Bootstrap (h_MkdirAll h) (cfg_Paths c)) = None"
    using assms by (simp_all add: can_run_tasks_def)
  obtain pool where pool: "Db_New (h_ParseConfig h) (h_NewWithConfig h) (h_quote h) (URL (cfg_Postgres c)) [] = Ok pool"
    using assms by (auto simp: can_run_tasks_def)
  obtain d1 where up1: "migrate_Up (h_migrate h) (cfg_Postgres c) d = (Ok (), d1)" using up by (metis prod.collapse)
  obtain dirs where dirs: "Bootstrap (h_MkdirAll h) (cfg_Paths c) = (dirs, None)" using boot by (metis prod.collapse)
  show thesis
    by (rule that [of dirs d1]) (simp add: main_def c dirs main_db_def pool up1 preparing_def Let_def split: prod.split)
qed

lemma main_starts:
  assumes "can_start h d c"
  obtains dirs rest where "main h d = (preparing dirs c @ serving c @ rest @ [Closed], Ok ())" and "only_prints rest"
proof -
  have run: "can_run_tasks h d c" and con: "h_Connect h (URL (cfg_Postgres c)) = None" "h_Listen h = None"
    using assms by (simp_all add: can_start_def can_run_tasks_def)
  obtain dirs d1 where "main h d = (preparing dirs c @ fst (main_tasks h c d1) @ [Closed], snd (main_tasks h c d1))"
    by (rule main_runs [OF run])
  moreover let ?rest = "case h_ListenAndServe h (''0.0.0.0:'' @ go_int (HttpPort c)) of
      Some e \<Rightarrow> [Printed (''Server error: '' @ error_text e)] | None \<Rightarrow> []"
  have "only_prints ?rest" by (cases "h_ListenAndServe h (''0.0.0.0:'' @ go_int (HttpPort c))") (simp_all add: only_prints_def)
  ultimately show thesis by (intro that [of dirs ?rest]) (simp_all add: main_tasks_connected con)
qed

lemma main_deaf:
  assumes "can_run_tasks h d c" and "h_Listen h = Some e"
  obtains dirs where "main h d = (preparing dirs c @
    [Started [TaskTypeDvdIngestion] (WorkerGoroutines c), Printed (''Failed to start handlers: '' @ error_text (listen_failed e)), Closed], Ok ())"
proof -
  have con: "h_Connect h (URL (cfg_Postgres c)) = None" using assms(1) by (simp add: can_run_tasks_def)
  obtain dirs d1 where "main h d = (preparing dirs c @ fst (main_tasks h c d1) @ [Closed], snd (main_tasks h c d1))"
    by (rule main_runs [OF assms(1)])
  then show thesis by (intro that) (simp add: main_tasks_connected con assms(2))
qed

text \<open>A step that fails ends the program before any later one.\<close>

definition serves :: "action list \<Rightarrow> bool" where
  "serves acts = (\<exists>addr. Served addr \<in> set acts)"

definition runs_tasks :: "action list \<Rightarrow> bool" where
  "runs_tasks acts = (\<exists>types n. Started types n \<in> set acts)"

lemma main_tasks_reached:
  assumes "fst (main_tasks h c d1) = acts"
  shows "serves acts \<longleftrightarrow> h_Connect h (URL (cfg_Postgres c)) = None \<and> h_Listen h = None"
    and "runs_tasks acts \<longleftrightarrow> h_Connect h (URL (cfg_Postgres c)) = None"
proof -
  show "serves acts \<longleftrightarrow> h_Connect h (URL (cfg_Postgres c)) = None \<and> h_Listen h = None"
  proof (cases "h_Connect h (URL (cfg_Postgres c))")
    case None
    then show ?thesis
      using assms by (auto simp: main_tasks_connected serves_def serving_def split: option.splits)
  next
    case (Some e)
    then show ?thesis using assms main_tasks_refused [OF Some, of d1] by (auto simp: serves_def)
  qed
  show "runs_tasks acts \<longleftrightarrow> h_Connect h (URL (cfg_Postgres c)) = None"
  proof (cases "h_Connect h (URL (cfg_Postgres c))")
    case None
    then show ?thesis
      using assms by (auto simp: main_tasks_connected runs_tasks_def serving_def split: option.splits)
  next
    case (Some e)
    then show ?thesis using assms main_tasks_refused [OF Some, of d1] by (auto simp: runs_tasks_def)
  qed
qed

text \<open>Either the program comes to the task handlers, or it neither serves nor runs tasks.\<close>

lemma main_cases:
  obtains (prepared) c dirs d1 where "Config_New (h_env h) = Ok c" "snd (Bootstrap (h_MkdirAll h) (cfg_Paths c)) = None"
      "\<exists>pool. Db_New (h_ParseConfig h) (h_NewWithConfig h) (h_quote h) (URL (cfg_Postgres c)) [] = Ok pool"
      "fst (migrate_Up (h_migrate h) (cfg_Postgres c) d) = Ok ()"
      "main h d = (preparing dirs c @ fst (main_tasks h c d1) @ [Closed], snd (main_tasks h c d1))"
  | (ended) "\<not> serves (fst (main h d))" "\<not> runs_tasks (fst (main h d))" "\<And>c. \<not> can_run_tasks h d c"
proof (cases "Config_New (h_env h)")
  case (Ok c)
  obtain dirs berr where boot: "Bootstrap (h_MkdirAll h) (cfg_Paths c) = (dirs, berr)" by fastforce
  obtain u d1 where up: "migrate_Up (h_migrate h) (cfg_Postgres c) d = (u, d1)" by fastforce
  show thesis
  proof (cases "berr = None \<and> (\<exists>pool. Db_New (h_ParseConfig h) (h_NewWithConfig h) (h_quote h) (URL (cfg_Postgres c)) [] = Ok pool)
      \<and> u = Ok ()")
    case True
    then show thesis
      using Ok boot up by (intro prepared [of c dirs d1]) (auto simp: main_def main_db_def preparing_def Let_def split: prod.splits)
  next
    case False
    then have "\<not> can_run_tasks h d c'" for c' using Ok boot up by (auto simp: can_run_tasks_def)
    moreover have "\<not> serves (fst (main h d)) \<and> \<not> runs_tasks (fst (main h d))"
      using False Ok boot up
      by (auto simp: main_def main_db_def serves_def runs_tasks_def Let_def split: option.splits result.splits)
    ultimately show thesis using ended by blast
  qed
qed (use ended in \<open>auto simp: main_def serves_def runs_tasks_def can_run_tasks_def\<close>)

lemma main_reaches:
  "serves (fst (main h d)) \<longleftrightarrow> (\<exists>c. can_start h d c)" "runs_tasks (fst (main h d)) \<longleftrightarrow> (\<exists>c. can_run_tasks h d c)"
proof -
  have "(serves (fst (main h d)) \<longleftrightarrow> (\<exists>c. can_start h d c)) \<and> (runs_tasks (fst (main h d)) \<longleftrightarrow> (\<exists>c. can_run_tasks h d c))"
  proof (cases rule: main_cases [of h d])
    case (prepared c dirs d1)
    have c: "can_run_tasks h d c' \<longleftrightarrow> c' = c \<and> h_Connect h (URL (cfg_Postgres c)) = None" for c'
      using prepared(1-4) by (auto simp: can_run_tasks_def)
    have "serves (fst (main h d)) \<longleftrightarrow> serves (fst (main_tasks h c d1))" "runs_tasks (fst (main h d)) \<longleftrightarrow> runs_tasks (fst (main_tasks h c d1))"
      by (simp_all add: prepared(5) serves_def runs_tasks_def preparing_def)
    then show ?thesis by (auto simp: main_tasks_reached c can_start_def)
  next
    case ended
    then show ?thesis by (simp add: can_start_def)
  qed
  then show "serves (fst (main h d)) \<longleftrightarrow> (\<exists>c. can_start h d c)" "runs_tasks (fst (main h d)) \<longleftrightarrow> (\<exists>c. can_run_tasks h d c)"
    by simp_all
qed

lemma main_db_closes: "main_db h c d = (acts, r) \<Longrightarrow> Opened url \<in> set acts \<Longrightarrow> acts \<noteq> [] \<and> last acts = Closed"
  by (auto simp: main_db_def Let_def split: result.splits prod.splits)

lemma main_closes: "Opened url \<in> set (fst (main h d)) \<Longrightarrow> last (fst (main h d)) = Closed"
  by (auto simp: main_def split: result.splits prod.splits option.splits dest: main_db_closes)

section \<open>The database of the tests\<close>

record test_postgres =
  externalHost :: string
  externalPort :: int
  tp_user :: string
  tp_password :: string
  tp_dbName :: string

definition test_URL :: "test_postgres \<Rightarrow> string" where
  "test_URL p =
     ''postgres://'' @ QueryEscape (tp_user p) @ '':'' @ QueryEscape (tp_password p) @ ''@'' @
     QueryEscape (externalHost p) @ '':'' @ go_int (externalPort p) @ ''/'' @ QueryEscape (tp_dbName p) @ ''?sslmode=disable''"

definition test_Config :: "test_postgres \<Rightarrow> Postgres" where
  "test_Config p = \<lparr>pg_Host = externalHost p, pg_Port = externalPort p, pg_User = tp_user p,
     pg_Password = tp_password p, pg_DBName = tp_dbName p\<rparr>"

text \<open>\<^verbatim>\<open>Reset\<close> ends the test (\<^verbatim>\<open>e.Fatalf\<close>, the value \<^verbatim>\<open>Err\<close> here) at the first migration that fails.\<close>

definition test_Reset :: "'d migrate_lib \<Rightarrow> test_postgres \<Rightarrow> 'd \<Rightarrow> unit result \<times> 'd" where
  "test_Reset lib p d =
     (case migrate_Down lib (test_Config p) d of
        (Ok _, d1) \<Rightarrow>
          (case migrate_Up lib (test_Config p) d1 of
             (Ok _, d2) \<Rightarrow> (Ok (), d2)
           | (Err e, d2) \<Rightarrow> (Err (New (''failed to migrate database: '' @ error_text e)), d2)
           | (Panic x, d2) \<Rightarrow> (Panic x, d2))
      | (Err e, d1) \<Rightarrow> (Err (New (''failed to reset database: '' @ error_text e)), d1)
      | (Panic x, d1) \<Rightarrow> (Panic x, d1))"

lemma test_database_is_configured: "test_URL p = URL (test_Config p)"
  by (simp add: test_URL_def test_Config_def URL_def)

text \<open>
  What the library documents: \<^verbatim>\<open>Down\<close> leaves the empty schema or reports that there was nothing to undo, and
  \<^verbatim>\<open>Up\<close> builds the latest schema from the empty one. Then a reset forgets what the database held before.
\<close>

lemma Reset_forgets:
  assumes "migrate_setup lib (test_Config p) = Ok ()"
    and down: "\<And>d. m_Down lib d = (None, empty) \<or> d = empty \<and> m_Down lib d = (Some (Sentinel ErrNoChange), empty)"
    and up: "m_Up lib empty = (None, latest)"
  shows "test_Reset lib p d = (Ok (), latest)"
proof -
  have "migrate_Down lib (test_Config p) d = (Ok (), empty)"
    using down [of d] by (auto simp: migrate_Down_def migrate_run_def assms(1))
  moreover have "migrate_Up lib (test_Config p) empty = (Ok (), latest)"
    by (simp add: migrate_Up_def migrate_run_def assms(1) up)
  ultimately show ?thesis by (simp add: test_Reset_def)
qed

section \<open>A host on which the program starts\<close>

definition demo_env :: env where
  "demo_env = map_of [(EnvRootDir, ''/srv''), (EnvPostgresHost, ''db''), (EnvPostgresUser, ''vm''),
     (EnvPostgresPassword, ''p@ss''), (EnvPostgresDBName, ''videos''), (EnvWorkerGoroutines, ''4'')]"

definition demo_config :: Config where
  "demo_config = \<lparr>cfg_Paths = \<lparr>RootDir = ''/srv''\<rparr>, HttpPort = 25009,
     cfg_Postgres = \<lparr>pg_Host = ''db'', pg_Port = 5432, pg_User = ''vm'', pg_Password = ''p@ss'', pg_DBName = ''videos''\<rparr>,
     WorkerGoroutines = 4\<rparr>"

definition demo_host :: "(unit, unit) host" where
  "demo_host =
     \<lparr>h_env = demo_env, h_MkdirAll = (\<lambda>_. None),
      h_ParseConfig = (\<lambda>_. Inr \<lparr>SimpleProtocol = False, AfterConnect = None\<rparr>), h_NewWithConfig = (\<lambda>_. Inr ()),
      h_quote = go_quote,
      h_migrate = \<lparr>iofs_New = None, NewWithSourceInstance = (\<lambda>_. None),
        m_Up = (\<lambda>_. (Some (Sentinel ErrNoChange), ())), m_Down = (\<lambda>_. (None, ()))\<rparr>,
      h_rename = (\<lambda>_ _ _. None), h_Connect = (\<lambda>_. None), h_Listen = None, h_moved = id, h_claimable = (\<lambda>_ _. []),
      h_ListenAndServe = (\<lambda>_. Some (New ''http: Server closed''))\<rparr>"

lemma demo_can_start: "can_start demo_host () demo_config"
proof -
  have "Config_New demo_env = Ok demo_config" by code_simp
  then show ?thesis
    by (simp add: can_start_def can_run_tasks_def demo_host_def Bootstrap_def Db_New_def migrate_Up_def migrate_run_def migrate_setup_def)
qed

end
