(* ===== verification/VM_Testing.thy ===== *)
theory VM_Testing
  imports VM_Startup
begin

text \<open>
  The database the tests share (src/internal/lib/vmtest/postgres.go) and \<^verbatim>\<open>FileExists\<close> (file.go). A test that calls
  \<^verbatim>\<open>e.Fatalf\<close> ends there: that is the value \<^verbatim>\<open>Err\<close>. The containers of docker are parameters; the migrations act on the
  schema inside the container, as in VM\_Startup.
\<close>

section \<open>sync.Once\<close>

text \<open>
  \<^verbatim>\<open>once.Do(f)\<close> counts \<open>f\<close> as done also when it panics or ends the goroutine, as \<^verbatim>\<open>Fatalf\<close> does.
\<close>

definition once_Do :: "bool \<Rightarrow> ('s \<Rightarrow> unit result \<times> 's) \<Rightarrow> 's \<Rightarrow> unit result \<times> 's \<times> bool" where
  "once_Do over f s = (if over then (Ok (), s, True) else (case f s of (r, s1) \<Rightarrow> (r, s1, True)))"

section \<open>The container\<close>

record container_request =
  cr_Image :: string
  cr_Hostname :: string
  cr_ExposedPorts :: "string list"
  cr_Env :: "(string \<times> string) list"
  cr_Networks :: "string list"
  cr_ForLog :: string
  cr_Occurrence :: int

record docker =
  network_New :: "goerr + string"
  GenericContainer :: "container_request \<Rightarrow> goerr option"
  dk_Host :: "goerr + string"
  dk_MappedPort :: "string \<Rightarrow> goerr + int"

record 'pool test_db =
  td_base :: test_postgres
  td_db :: "'pool option"
  td_once :: bool
  td_network :: string

definition ExternalHost :: "'pool test_db \<Rightarrow> string" where
  "ExternalHost p = externalHost (td_base p)"

definition ExternalPort :: "'pool test_db \<Rightarrow> int" where
  "ExternalPort p = externalPort (td_base p)"

definition InternalHost :: "'pool test_db \<Rightarrow> string" where
  "InternalHost p = ''postgres''"

definition InternalPort :: "'pool test_db \<Rightarrow> int" where
  "InternalPort p = 5432"

definition ExternalPortString :: "'pool test_db \<Rightarrow> string" where
  "ExternalPortString p = go_int (externalPort (td_base p))"

definition InternalPortString :: "'pool test_db \<Rightarrow> string" where
  "InternalPortString p = go_int (InternalPort p)"

definition User :: "'pool test_db \<Rightarrow> string" where
  "User p = tp_user (td_base p)"

definition Password :: "'pool test_db \<Rightarrow> string" where
  "Password p = tp_password (td_base p)"

definition DBName :: "'pool test_db \<Rightarrow> string" where
  "DBName p = tp_dbName (td_base p)"

definition Network :: "'pool test_db \<Rightarrow> string" where
  "Network p = td_network p"

definition postgres_request :: "string \<Rightarrow> string \<Rightarrow> string \<Rightarrow> string \<Rightarrow> container_request" where
  "postgres_request network user password dbName =
     \<lparr>cr_Image = ''postgres:17'', cr_Hostname = ''postgres'', cr_ExposedPorts = [''5432/tcp''],
      cr_Env = [(''POSTGRES_USER'', user), (''POSTGRES_PASSWORD'', password), (''POSTGRES_DB'', dbName)],
      cr_Networks = [network], cr_ForLog = ''database system is ready to accept connections'', cr_Occurrence = 2\<rparr>"

definition fatal :: "string \<Rightarrow> goerr \<Rightarrow> 'a result" where
  "fatal msg e = Err (New (msg @ error_text e))"

definition newPostgres :: "docker \<Rightarrow> 'd migrate_lib \<Rightarrow> 'd \<Rightarrow> 'pool test_db result \<times> 'd" where
  "newPostgres dk lib d =
     (case network_New dk of
        Inl e \<Rightarrow> (fatal ''failed to create docker network: '' e, d)
      | Inr network \<Rightarrow>
     (case GenericContainer dk (postgres_request network ''testuser'' ''testpassword'' ''testdb'') of
        Some e \<Rightarrow> (fatal ''failed to start postgres container: '' e, d)
      | None \<Rightarrow>
     (case dk_Host dk of
        Inl e \<Rightarrow> (fatal ''failed to get postgres container host: '' e, d)
      | Inr host \<Rightarrow>
     (case dk_MappedPort dk ''5432'' of
        Inl e \<Rightarrow> (fatal ''failed to get postgres container port: '' e, d)
      | Inr port \<Rightarrow>
          (let pg = \<lparr>td_base = \<lparr>externalHost = host, externalPort = port, tp_user = ''testuser'',
                       tp_password = ''testpassword'', tp_dbName = ''testdb''\<rparr>,
                     td_db = None, td_once = False, td_network = network\<rparr> in
           case test_Reset lib (td_base pg) d of
             (Ok _, d1) \<Rightarrow> (Ok pg, d1)
           | (Err e, d1) \<Rightarrow> (Err e, d1)
           | (Panic x, d1) \<Rightarrow> (Panic x, d1))))))"

section \<open>The instance of all tests\<close>

record ('pool, 'd) test_world =
  pgOnce :: bool
  pgInstance :: "'pool test_db option"
  schema :: 'd

definition PostgresOnce ::
  "docker \<Rightarrow> 'd migrate_lib \<Rightarrow> ('pool, 'd) test_world \<Rightarrow> 'pool test_db option result \<times> ('pool, 'd) test_world" where
  "PostgresOnce dk lib w =
     (case once_Do (pgOnce w)
             (\<lambda>w. case newPostgres dk lib (schema w) of
                (Ok pg, d) \<Rightarrow> (Ok (), w\<lparr>pgInstance := Some pg, schema := d\<rparr>)
              | (Err e, d) \<Rightarrow> (Err e, w\<lparr>schema := d\<rparr>)
              | (Panic x, d) \<Rightarrow> (Panic x, w\<lparr>schema := d\<rparr>)) w of
        (Ok _, w1, b) \<Rightarrow> (Ok (pgInstance w1), w1\<lparr>pgOnce := b\<rparr>)
      | (Err e, w1, b) \<Rightarrow> (Err e, w1\<lparr>pgOnce := b\<rparr>)
      | (Panic x, w1, b) \<Rightarrow> (Panic x, w1\<lparr>pgOnce := b\<rparr>))"

text \<open>The pool of a test database; \<^verbatim>\<open>open\<close> is \<^verbatim>\<open>vmdb.New\<close> over the driver's parameters.\<close>

definition DbRunner ::
  "(string \<Rightarrow> Option list \<Rightarrow> 'pool result) \<Rightarrow> 'pool test_db \<Rightarrow> 'pool option result \<times> 'pool test_db" where
  "DbRunner open_pool p =
     (case once_Do (td_once p)
             (\<lambda>p. case open_pool (test_URL (td_base p)) [WithSimpleProtocol] of
                Ok pool \<Rightarrow> (Ok (), p\<lparr>td_db := Some pool\<rparr>)
              | Err e \<Rightarrow> (fatal ''failed to create vmdb DbRunner: '' e, p\<lparr>td_db := None\<rparr>)
              | Panic x \<Rightarrow> (Panic x, p)) p of
        (Ok _, p1, b) \<Rightarrow> (Ok (td_db p1), p1\<lparr>td_once := b\<rparr>)
      | (Err e, p1, b) \<Rightarrow> (Err e, p1\<lparr>td_once := b\<rparr>)
      | (Panic x, p1, b) \<Rightarrow> (Panic x, p1\<lparr>td_once := b\<rparr>))"

text \<open>\<^verbatim>\<open>os.Stat\<close> is the parameter \<^verbatim>\<open>stat\<close>, \<^verbatim>\<open>os.IsNotExist\<close> the parameter \<^verbatim>\<open>is_not_exist\<close>.\<close>

definition FileExists :: "(string \<Rightarrow> goerr option) \<Rightarrow> (goerr \<Rightarrow> bool) \<Rightarrow> string \<Rightarrow> bool result" where
  "FileExists stat is_not_exist filePath =
     (case stat filePath of
        None \<Rightarrow> Ok True
      | Some err \<Rightarrow>
          if is_not_exist err then Ok False
          else Err (New (''error checking file '' @ go_quote filePath @ '': '' @ error_text err)))"

section \<open>One container, one pool\<close>

lemma once_done: "once_Do True f s = (Ok (), s, True)"
  by (simp add: once_Do_def)

text \<open>After the first call, whatever it did, every call returns what is there and changes nothing.\<close>

lemma PostgresOnce_again:
  assumes "PostgresOnce dk lib w = (r, w1)"
  shows "PostgresOnce dk' lib' w1 = (Ok (pgInstance w1), w1)"
proof -
  have "pgOnce w1" using assms by (auto simp: PostgresOnce_def once_Do_def split: prod.splits result.splits if_splits)
  then show ?thesis by (simp add: PostgresOnce_def once_done)
qed

lemma DbRunner_again:
  assumes "DbRunner open_pool p = (r, p1)"
  shows "DbRunner open_pool' p1 = (Ok (td_db p1), p1)"
proof -
  have "td_once p1" using assms by (auto simp: DbRunner_def once_Do_def split: prod.splits result.splits if_splits)
  then show ?thesis by (simp add: DbRunner_def once_done)
qed

text \<open>A first call that fails leaves nothing behind, and the tests after it get nil instead of its error.\<close>

lemma PostgresOnce_failed:
  assumes "\<not> pgOnce w" and "pgInstance w = None" and "PostgresOnce dk lib w = (Err e, w1)"
  shows "PostgresOnce dk' lib' w1 = (Ok None, w1)"
proof -
  have "pgInstance w1 = None"
    using assms by (auto simp: PostgresOnce_def once_Do_def split: prod.splits result.splits)
  then show ?thesis using PostgresOnce_again [OF assms(3)] by simp
qed

text \<open>The pool of the tests speaks the simple protocol to the configured database, and its sessions are serializable.\<close>

lemma DbRunner_opens:
  assumes "\<not> td_once p" and "ParseConfig (URL (test_Config (td_base p))) = Inr cfg"
    and "NewWithConfig (New_config [WithSimpleProtocol] cfg) = Inr pool"
  shows "fst (DbRunner (Db_New ParseConfig NewWithConfig quote) p) = Ok (Some pool)"
    and "SimpleProtocol (New_config [WithSimpleProtocol] cfg)"
  using assms
  by (simp_all add: DbRunner_def once_Do_def Db_New_def test_database_is_configured New_config_def chain_def Let_def)

text \<open>A container that starts and migrations that work give the tests a fresh schema.\<close>

lemma PostgresOnce_starts:
  assumes "\<not> pgOnce w" and "network_New dk = Inr n" and "dk_Host dk = Inr h" and "dk_MappedPort dk ''5432'' = Inr port"
    and "GenericContainer dk (postgres_request n ''testuser'' ''testpassword'' ''testdb'') = None"
    and "\<And>cfg. migrate_setup lib cfg = Ok ()"
    and down: "\<And>d. m_Down lib d = (None, empty) \<or> d = empty \<and> m_Down lib d = (Some (Sentinel ErrNoChange), empty)"
    and up: "m_Up lib empty = (None, latest)"
  shows "\<exists>pg w1. PostgresOnce dk lib w = (Ok (Some pg), w1) \<and> schema w1 = latest \<and>
    test_URL (td_base pg) = URL (test_Config (td_base pg)) \<and> ExternalHost pg = h \<and> ExternalPort pg = port \<and>
    PostgresOnce dk lib w1 = (Ok (Some pg), w1)"
proof -
  have "test_Reset lib p d = (Ok (), latest)" for p d
    using Reset_forgets [OF assms(6) down up] .
  then obtain pg w1 where "PostgresOnce dk lib w = (Ok (Some pg), w1)" "schema w1 = latest" "pgInstance w1 = Some pg"
      "ExternalHost pg = h" "ExternalPort pg = port"
    using assms(1-5)
    by (simp add: PostgresOnce_def once_Do_def newPostgres_def Let_def ExternalHost_def ExternalPort_def)
  then show ?thesis using PostgresOnce_again test_database_is_configured by metis
qed

end
