(* ===== verification/VM_Service.thy ===== *)
theory VM_Service
  imports VM_System VM_Inbox VM_Startup
begin

text \<open>
  The service that \<^verbatim>\<open>main\<close> hands to the HTTP layer (src/combined\_service.go, src/main.go), which embeds the services of the
  catalog, the inbox, the media and TMDb (src/internal/services/tmdb/rpc.go). An embedded service is what it is configured
  with. The catalog and the media share the pool; the inbox and the search do not touch the database.
\<close>

record 'pool CombinedService =
  CatalogDb :: 'pool
  InboxPaths :: Paths
  MediaDb :: 'pool

definition new_service :: "Config \<Rightarrow> 'pool \<Rightarrow> 'pool CombinedService" where
  "new_service c pool = \<lparr>CatalogDb = pool, InboxPaths = cfg_Paths c, MediaDb = pool\<rparr>"

text \<open>The search is not implemented: no response and no error.\<close>

definition SearchTmdbMovies :: "'req \<Rightarrow> 'resp option prog" where
  "SearchTmdbMovies req = ret None"

text \<open>A request of the API; those of the catalog and of the media are the \<^verbatim>\<open>request\<close>s of VM\_System.\<close>

datatype 'req api_request =
    DbRequest request
  | ReqListInboxDVDs "uint32 option" "string option"
  | ReqSearchTmdbMovies 'req

datatype api_answer = Served_by_db | Inbox "(string list \<times> string option) result" | Search "unit option result"

fun serve_api ::
  "pg \<Rightarrow> (string \<Rightarrow> goerr + DirEntry list) \<Rightarrow> 'pool CombinedService \<Rightarrow> 'req api_request \<Rightarrow> sess \<Rightarrow> api_answer \<times> sess" where
  "serve_api P os_ReadDir sv (DbRequest req) s = (Served_by_db, serve P req s)"
| "serve_api P os_ReadDir sv (ReqListInboxDVDs w t) s = (Inbox (ListInboxDVDs os_ReadDir (InboxPaths sv) w t), s)"
| "serve_api P os_ReadDir sv (ReqSearchTmdbMovies q) s = (case SearchTmdbMovies q s of (r, s1) \<Rightarrow> (Search r, s1))"

text \<open>Every request of the API leaves the database consistent, and no transaction open.\<close>

lemma serve_api_good: "at_rest s \<Longrightarrow> at_rest (snd (serve_api P os_ReadDir sv req s))"
  by (cases req) (simp_all add: serve_good SearchTmdbMovies_def ret_def)

end
