(* ===== verification/Spec2Isabelle.thy ===== *)
theory Spec2Isabelle
  imports VM_DemoMedia VM_Client VM_Heartbeat VM_Overlap VM_Lease VM_Stmt VM_Testing VM_Service
begin

text \<open>
  Verification of the video manager (krelinga/video-manager): an HTTP service that keeps a catalog of movies, a
  library of media on disk and an inbox of DVDs that are moved into the library by background tasks. The state is a
  Postgres database and the file system.

  \<^bold>\<open>The program and its model.\<close> A handler of the program is a function from a driver \<^verbatim>\<open>P\<close> and a session \<^verbatim>\<open>s\<close> to
  a result and a session: \<^verbatim>\<open>Ok\<close>, \<^verbatim>\<open>Err\<close> (a returned Go error) or \<^verbatim>\<open>Panic\<close>. A session has the committed tables, the
  sequences, the open transaction, the number of calls to the driver so far and the directories moved so far. The driver is
  the code that is not in the repository (pgx and the server): it decides, call by call, whether a call is refused or its
  answer lost, what time it is, how JSON is stored and what \<^verbatim>\<open>LOWER\<close> does. SQL statements are functions on
  the tables with the errors of the constraints. \<^verbatim>\<open>reliable P\<close> is the driver without faults.

  \<^item> VM\_Prelude: lists of rows, updates by key, 32-bit and 64-bit words. VM\_Err: error values and
    src/internal/lib/vmerr. VM\_Json, VM\_Base64: what the program uses of encoding/json and encoding/base64.
  \<^item> VM\_Db: the tables, cascades, triggers and constraints of src/internal/lib/migrate/migrations; \<^verbatim>\<open>schema_ok\<close> and
    \<^verbatim>\<open>good\<close> are the invariant. VM\_Run: src/internal/lib/vmdb (statements and transactions); VM\_Options: the construction of the
    pool (\<^verbatim>\<open>New\<close> and its options). VM\_Atomic: what faults can do to a handler. VM\_Inv: invariants through programs
    (locale \<^verbatim>\<open>db_invariant\<close>), and the rules that run a handler on a reliable session.
  \<^item> VM\_Token, VM\_Page: src/internal/lib/vmpage, page tokens and pages; the locales \<^verbatim>\<open>paged_query\<close>, \<^verbatim>\<open>paged_listing\<close> and
    \<^verbatim>\<open>paged_table\<close> hold the contract of a listing, and every listing of the services interprets them.
  \<^item> VM\_Kinds, VM\_Cards, VM\_CardOps: src/internal/services/catalog.
  \<^item> VM\_Tasks, VM\_Worker: src/internal/lib/vmtask (registry and API; scanner and worker). VM\_TaskInv, VM\_TaskOps,
    VM\_Process: the invariant of the tasks, single operations, and a task from claim to result. VM\_Heartbeat: renewal of
    leases. VM\_Overlap: transactions of the task system that overlap, with the row versions and row locks of READ COMMITTED; one on
    its own does what the sequential statements of VM\_Worker do.
    VM\_Progress: liveness of step relations (locale \<^verbatim>\<open>progress\<close>). VM\_Pool: the goroutines and channels of the scanner
    and the workers as a state machine; VM\_Scan: each scan of VM\_Worker is a move of it; VM\_Shutdown: how they are started,
    cancelled and waited for.
  \<^item> VM\_Config: src/internal/lib/config. VM\_Inbox: src/internal/services/inbox.
  \<^item> VM\_Links (locale \<^verbatim>\<open>link_table\<close>, the links from media and media sets to cards), VM\_MediaSets, VM\_Media, VM\_MediaOps:
    src/internal/services/media; VM\_Ingest: its dvd\_ingestion\_task.go, with \<^verbatim>\<open>os.Rename\<close> as a parameter.
  \<^item> VM\_Frame (locale \<^verbatim>\<open>tasks_invariant\<close>), VM\_System: the whole program as a step relation. VM\_Lease: its steps before the end of a lease. VM\_EndToEnd: a DVD from the post
    to its final place. VM\_Crash: a failure between the move and the end of its transaction. VM\_SetSpec: media sets as a
    map, and the refinement. VM\_Resource: the contract of reading and deleting (locale \<^verbatim>\<open>resource\<close>), interpreted on
    all four kinds of resources.
  \<^item> VM\_Startup: src/main.go and src/internal/lib/migrate, with the database of the tests (src/internal/lib/vmtest/postgres.go).
    VM\_Testing: the rest of that file, the container and the pool that the tests share, and file.go. VM\_Stmt: the statements as
    they are handed to the driver (src/internal/lib/vmdb/statement.go) and their named arguments. VM\_Service: the combined
    service (src/combined\_service.go) with the search of src/internal/services/tmdb.
    VM\_Client: the client of the cards API (src/internal/lib/vmtest/client.go) against the handlers of VM\_Cards; its lemmas
    extend the locale \<^verbatim>\<open>paged_listing\<close>.
  \<^item> VM\_Demo, VM\_DemoMedia: the concrete driver, tables and file system on which the theorems are instantiated.

  \<^bold>\<open>What is shown.\<close> Handlers under any faults are all or nothing. From empty tables, any sequence of requests,
  scans, handler runs and renewals, under any faults, keeps the constraints of the schema and one ingestion task per
  media, and no failed task is revived. For each handler: when a request is accepted, what it stores and
  answers, and that a refused one changes nothing. Walks along page tokens end and enumerate every row once. Tokens are
  decoded to what was encoded. A scan claims the oldest task, under a lease that is exclusive, whatever steps the program takes before its end, and also among transactions that overlap; results, failures and
  cancellation do what they say. Children that finish together resume their parent. A posted DVD is ingested or
  reported as failed. Media sets refine a map. The
  goroutine model refines to the scans of the database model. Every worker is in one place; an announced task is claimed; a cancelled system comes to rest. The heartbeat survives failed renewals. The
  program starts its parts in order, and serves only when all have started. Some theorems state behaviour that is not what a comment or the rest of the
  program leads one to expect: page size zero, a stale worker's result, a requeued task without notification, the wake-up
  lost before LISTEN, the tasks run although LISTEN fails, the inbox with a name that is not UTF-8, the parent that misses a child, the lost connection that ends all tasks, the move that is not undone, the paths of the inbox, the
  defaults of the test client.

  \<^bold>\<open>Fuel.\<close> Handlers are total functions; \<^verbatim>\<open>delete_cards\<close> and \<^verbatim>\<open>cancelRecursive\<close> recurse along editions and children, with the
  termination shown from the finite tables. Fuel bounds only the clients that follow page tokens (\<^verbatim>\<open>walk\<close>, \<^verbatim>\<open>walk_inbox\<close>);
  the theorems show that one page more than there are rows is enough. The loop of the test client is a \<^verbatim>\<open>partial_function\<close>,
  whose value \<^verbatim>\<open>None\<close> is not returning; theorems show when it returns and when it does not.

  \<^bold>\<open>Assumptions.\<close> Times are in microseconds. \<^verbatim>\<open>jsonb_ok\<close>: the server stores the JSON object of an ingestion task so that it reads
  back as the same value and \<^verbatim>\<open>state->>'media_id'\<close> finds its number; VM\_DemoMedia has a server that does. The generated API
  types (vmapi) appear as records with the fields the handlers use. \<^verbatim>\<open>relays\<close>: the generated client and server carry the answers of
  a handler to the client; VM\_Client has a connection that does. \<^verbatim>\<open>driver_errors\<close>: the driver does not return errors of vmerr.

  \<^bold>\<open>Not modelled.\<close> Interleavings of the statements of two open transactions outside the table of tasks, and in that table rows that
  are inserted meanwhile: VM\_Overlap interleaves the updates and claims of existing tasks, and in the other theories a step is
  a whole operation. What READ COMMITTED does there is the server's documented behaviour. The NUL byte, which the server refuses in a text and the model stores. Errors of scanning a row into a Go
  struct, and of the cast in the index on tasks. The texts of errors of the JSON and base64 libraries, and of \<^verbatim>\<open>%q\<close> on
  bytes above 127. The routing and decoding of requests in the generated code, the health endpoint, the migration library
  itself, and docker, which is a parameter of the tests' database.
\<close>

section \<open>Handlers under a failing driver\<close>

text \<open>
  C1. Whatever the driver does at each call (errors before or after the effect), a request that
  changes the catalog either succeeds with exactly the result and tables of an undisturbed run, or
  fails and leaves the committed tables as they were, or as the undisturbed, successful run leaves
  them (an error reported after the commit took effect).
\<close>

theorem catalog_all_or_nothing:
  "all_or_nothing P (\<lambda>P. PostCard P body) s \<and> all_or_nothing P (\<lambda>P. PatchCard P i patches) s \<and>
   all_or_nothing P (\<lambda>P. DeleteCard P i) s \<and> all_or_nothing P (\<lambda>P. PostMovieEditionKind P kbody) s \<and>
   all_or_nothing P (\<lambda>P. PatchMovieEditionKind P i kpatches) s \<and>
   all_or_nothing P (\<lambda>P. DeleteMovieEditionKind P i) s"
  by (intro conjI all_or_nothingI atomic_PostCard clean_PostCard atomic_PatchCard clean_PatchCard
      atomic_DeleteCard clean_DeleteCard atomic_PostMovieEditionKind clean_PostMovieEditionKind
      atomic_PatchMovieEditionKind clean_PatchMovieEditionKind atomic_DeleteMovieEditionKind
      clean_DeleteMovieEditionKind)

section \<open>Cards\<close>

text \<open>
  C9. Posting a card with a fresh name and valid details answers the card with the next id of the
  sequence and exactly the posted name, note and details, and adds exactly that card with its one
  detail row; reading the card back afterwards gives the same answer.
\<close>

theorem PostCard_then_GetCard:
  assumes "good (committed s) (seqs_of s)" and "pc_Name b \<noteq> []"
    and "\<not> card_name_taken P (committed s) (pc_Name b)"
    and "card_seq (seqs_of s) < max_serial" and "valid_details (committed s) (pc_Details b)"
    and "i = card_seq (seqs_of s) + 1"
    and "c = \<lparr>ca_Id = i, ca_Name = pc_Name b, ca_Note = pc_Note b, ca_Details = pc_Details b\<rparr>"
  shows "outcome (PostCard (reliable P) (Some b)) s =
      (Ok c, add_card i b (committed s), (seqs_of s)\<lparr>card_seq := i\<rparr>) \<and>
    outcome (bind (PostCard (reliable P) (Some b)) (\<lambda>card. GetCard (reliable P) (ca_Id card))) s =
      (Ok c, add_card i b (committed s), (seqs_of s)\<lparr>card_seq := i\<rparr>)"
proof
  show post: "outcome (PostCard (reliable P) (Some b)) s =
      (Ok c, add_card i b (committed s), (seqs_of s)\<lparr>card_seq := i\<rparr>)"
    using PostCard_creates [OF assms(1-6)] assms(7) by simp
  show "outcome (bind (PostCard (reliable P) (Some b)) (\<lambda>card. GetCard (reliable P) (ca_Id card))) s =
      (Ok c, add_card i b (committed s), (seqs_of s)\<lparr>card_seq := i\<rparr>)"
    using assms(7) by (intro outcome_bind [OF post]) (simp add: GetCard_added [OF assms(1,4,5,6)])
qed

theorem PostCard_then_GetCard_witness:
  "card_seq demo_seqs < max_serial \<and> \<not> card_name_taken demo_pg demo_db (pc_Name demo_post) \<and>
   valid_details demo_db (pc_Details demo_post) \<and>
   outcome (PostCard (reliable demo_pg) (Some demo_post)) demo_sess =
     (Ok \<lparr>ca_Id = 3, ca_Name = ''Aliens'', ca_Note = None, ca_Details = pc_Details demo_post\<rparr>,
      add_card 3 demo_post demo_db, demo_seqs\<lparr>card_seq := 3\<rparr>)"
  using PostCard_then_GetCard [of demo_sess demo_post demo_pg 3] demo_good demo_post_ok
  by (simp add: demo_post_def)

text \<open>
  C27. On consistent tables a card is accepted exactly when the request has a body with a non-empty
  name that no card has (up to case), details that are one movie or one edition of an existing movie
  and kind, and ids are left; a request that is not accepted changes no table.
\<close>

theorem PostCard_accepts_iff:
  assumes "good (committed s) (seqs_of s)"
  shows "(is_Ok (fst (PostCard (reliable P) body s)) \<longleftrightarrow>
      (\<exists>b. body = Some b \<and> pc_Name b \<noteq> [] \<and> \<not> card_name_taken P (committed s) (pc_Name b) \<and>
           valid_details (committed s) (pc_Details b) \<and> card_seq (seqs_of s) < max_serial)) \<and>
    (is_Ok (fst (PostCard (reliable P) body s)) \<or>
      committed (snd (PostCard (reliable P) body s)) = committed s)"
  using PostCard_Ok_iff [OF assms] clean_PostCard [of P body] unfolding clean_def by blast

theorem PostCard_accepts_iff_witness:
  "good demo_db demo_seqs \<and> is_Ok (fst (PostCard (reliable demo_pg) (Some demo_post) demo_sess)) \<and>
   \<not> is_Ok (fst (PostCard (reliable demo_pg) None demo_sess))"
  using PostCard_accepts_iff [of demo_sess demo_pg "Some demo_post"] PostCard_accepts_iff [of demo_sess demo_pg None]
    demo_good demo_post_ok by auto

text \<open>
  C13. Deleting a card removes exactly the card and the cards of its editions, with their detail rows
  and their links, and nothing else; deleting a card that is not there answers 404 and changes nothing.
\<close>

theorem DeleteCard_exact:
  assumes "good (committed s) q0" and "i \<noteq> 0" and "i \<le> max_serial"
  shows "outcome (DeleteCard (reliable P) i) s =
    (if i \<in> c_id ` set (catalog_cards (committed s))
     then (Ok (), drop_cards (doomed (committed s) i) (committed s), seqs_of s)
     else (Err (HttpError ProblemNotFound 404 (errorf (card_not_found i))), committed s, seqs_of s))"
  using DeleteCard_cascade [OF assms] DeleteCard_absent [OF assms(2,3)] by simp

theorem DeleteCard_exact_witness:
  "good demo_db demo_seqs \<and> (1 :: uint32) \<le> max_serial \<and>
   outcome (DeleteCard (reliable demo_pg) 1) demo_sess = (Ok (), drop_cards (doomed demo_db 1) demo_db, demo_seqs) \<and>
   catalog_cards (drop_cards (doomed demo_db 1) demo_db) = []"
proof -
  have "(1 :: uint32) \<in> c_id ` set (catalog_cards demo_db)" "(1 :: uint32) \<le> max_serial"
    "catalog_cards (drop_cards (doomed demo_db 1) demo_db) = []" by code_simp+
  then show ?thesis using DeleteCard_exact [of demo_sess demo_seqs 1 demo_pg] demo_good by simp
qed

text \<open>
  C28. A list of patches that each set one applicable field is applied to the card in order, in one
  transaction; the answer is the card as the tables then have it.
\<close>

theorem PatchCard_in_order:
  assumes "good (committed s) q0" and "i \<noteq> 0" and "i \<le> max_serial"
    and "i \<in> c_id ` set (catalog_cards (committed s))"
    and "list_all (card_patch_ok (committed s) i) ps"
    and "d' = fold (apply_card_patch i) ps (committed s)"
  shows "\<exists>c'\<in>set (catalog_cards d'). c_id c' = i \<and>
    outcome (PatchCard (reliable P) i (Some ps)) s = (Ok (card_view d' c'), d', seqs_of s)"
  using assms by (rule PatchCard_applies)

theorem PatchCard_in_order_witness:
  "\<exists>c'. list_all (card_patch_ok demo_db 1) [demo_rename] \<and> c_id c' = 1 \<and> c_name c' = ''Alien (1979)'' \<and>
     outcome (PatchCard (reliable demo_pg) 1 (Some [demo_rename])) demo_sess =
       (Ok (card_view (apply_card_patch 1 demo_rename demo_db) c'), apply_card_patch 1 demo_rename demo_db, demo_seqs)"
proof -
  have ok: "(1 :: uint32) \<in> c_id ` set (catalog_cards demo_db)" "(1 :: uint32) \<le> max_serial"
    "list_all (card_patch_ok demo_db 1) [demo_rename]" by code_simp+
  have name: "\<forall>c\<in>set (catalog_cards (apply_card_patch 1 demo_rename demo_db)). c_id c = 1 \<longrightarrow> c_name c = ''Alien (1979)''"
    by code_simp
  show ?thesis
    using PatchCard_in_order [of demo_sess demo_seqs 1 "[demo_rename]" "apply_card_patch 1 demo_rename demo_db" demo_pg]
      demo_good ok name by auto
qed

section \<open>Listings\<close>

text \<open>
  C12. Following the page tokens of the card listing from the first page, with any page size but
  zero, terminates and enumerates every card once, in the order of the ids, with its details.
\<close>

theorem ListCards_walk:
  assumes "good (committed s) q0" and "want \<noteq> Some 0" and "length (catalog_cards (committed s)) < fuel"
  shows "outcome (walk fuel (ListCards (reliable P) want) None) s =
    (Ok (map (card_view (committed s)) (sort_key c_id (catalog_cards (committed s)))), committed s, seqs_of s)"
proof -
  have ok: "schema_ok (committed s) q0" using assms(1) by (simp add: good_def)
  then have "consistent (committed s)" by (auto simp: consistent_def)
  with assms(2,3) card_pages.walk_all [of s want fuel P] show ?thesis
    by (simp add: card_joins_map [OF ok] sort_key_map_key card_view_def comp_def)
qed

theorem ListCards_walk_witness:
  "good demo_db demo_seqs \<and> outcome (walk 3 (ListCards (reliable demo_pg) (Some 1)) None) demo_sess =
    (Ok (map (card_view demo_db) (sort_key c_id (catalog_cards demo_db))), demo_db, demo_seqs)"
  using ListCards_walk [of demo_sess demo_seqs "Some 1" 3 demo_pg] demo_good by (simp add: demo_db_def)

text \<open>
  C31. A page of the card listing holds at most 100 cards, 50 when the request names no size, those
  next in id order after the token's id, and has a token exactly when more cards follow.
\<close>

theorem ListCards_page:
  assumes "good (committed s) q0" and "toLastSeenId tok = Ok v" and "v \<le> max_serial"
  shows "outcome (ListCards (reliable P) want tok) s =
    (let rs = rows_above cj_Id v (card_joins (committed s)); n = page_size want in
     (Ok (map card_of_join (take (unat n) rs), next_token cj_Id n rs), committed s, seqs_of s))"
  using assms card_pages.page [of s tok v P want] by (auto simp: consistent_def good_def)

theorem ListCards_page_witness:
  "toLastSeenId (Some (fromLastSeenId 1)) = Ok 1 \<and>
   outcome (ListCards (reliable demo_pg) (Some 5) (Some (fromLastSeenId 1))) demo_sess =
     (Ok (map card_of_join (take 5 (rows_above cj_Id 1 (card_joins demo_db))), None), demo_db, demo_seqs)"
proof -
  have "length (rows_above cj_Id 1 (card_joins demo_db)) \<le> 5" "unat (page_size (Some 5)) = 5" by code_simp+
  then show ?thesis
    using ListCards_page [of demo_sess demo_seqs "Some (fromLastSeenId 1)" 1 demo_pg "Some 5"] demo_good
    by (simp add: toLastSeenId_fromLastSeenId max_serial_def Let_def next_token_def)
qed

text \<open>
  A page size of zero is passed through: the page is empty although cards follow, and its token
  leads back to the first page, so that a client that follows the tokens never ends.
\<close>

lemma ListCards_page_zero:
  assumes "good (committed s) q0" and "catalog_cards (committed s) \<noteq> []"
  shows "outcome (walk fuel (ListCards (reliable P) (Some 0)) None) s =
    (Err (HttpError ProblemInternalError 500 (New ''too many pages'')), committed s, seqs_of s)"
proof -
  have ok: "schema_ok (committed s) q0" using assms(1) by (simp add: good_def)
  moreover have "card_joins (committed s) \<noteq> []" using assms(2) by (simp add: card_joins_map [OF ok])
  ultimately show ?thesis by (intro card_pages.walk_zero) (auto simp: consistent_def)
qed

text \<open>
  C24. Page tokens round trip: an id token gives back its id, a string token its text (with invalid
  UTF-8 replaced), and a token of one kind is refused where the other kind is expected.
\<close>

theorem page_tokens_round_trip:
  "toLastSeenId (Some (fromLastSeenId i)) = Ok i \<and>
   toLastSeenString (Some (fromLastSeenString t)) = Ok (to_valid_utf8 t) \<and>
   toLastSeenId (Some (fromLastSeenString t)) = Err bad_magic \<and>
   toLastSeenString (Some (fromLastSeenId i)) = Err bad_magic"
  by (simp add: toLastSeenId_fromLastSeenId toLastSeenString_fromLastSeenString
      toLastSeenId_fromLastSeenString toLastSeenString_fromLastSeenId)

section \<open>Movie edition kinds\<close>

text \<open>
  C33. Posting a kind refuses a name that is taken (up to case) with 409; otherwise it adds one row
  with the next id, and if the new kind is the default, it is the only default afterwards.
\<close>

theorem PostMovieEditionKind_default:
  assumes "good (committed s) q0" and "pk_Name b \<noteq> []" and "kind_seq (seqs_of s) < max_serial"
    and "isDefault = (case pk_IsDefault b of None \<Rightarrow> False | Some v \<Rightarrow> v)"
    and "i = kind_seq (seqs_of s) + 1"
    and "row = \<lparr>k_id = i, k_name = pk_Name b, k_is_default = isDefault\<rparr>"
    and "rows = (if isDefault then unset_rows (movie_edition_kinds (committed s))
      else movie_edition_kinds (committed s)) @ [row]"
  shows "outcome (PostMovieEditionKind (reliable P) (Some b)) s =
      (if kind_name_taken P (committed s) (pk_Name b)
       then (Err (HttpError ProblemAlreadyExists 409
               (New ''movie edition kind with the given name already exists'')), committed s, seqs_of s)
       else (Ok (kind_of_row row), (committed s)\<lparr>movie_edition_kinds := rows\<rparr>, (seqs_of s)\<lparr>kind_seq := i\<rparr>)) \<and>
    (isDefault \<longrightarrow> filter k_is_default rows = [row])"
  using PostMovieEditionKind_outcome [OF assms(1,2,4,5) refl, of P] assms(3,6,7)
  by (simp add: kind_of_row_def filter_unset)

theorem PostMovieEditionKind_default_witness:
  "\<exists>rows. outcome (PostMovieEditionKind (reliable demo_pg) (Some \<lparr>pk_Name = ''Final'', pk_IsDefault = Some True\<rparr>)) demo_sess =
      (Ok \<lparr>mek_Id = 3, mek_Name = ''Final'', mek_IsDefault = True\<rparr>, demo_db\<lparr>movie_edition_kinds := rows\<rparr>,
       demo_seqs\<lparr>kind_seq := 3\<rparr>) \<and>
    filter k_is_default rows = [\<lparr>k_id = 3, k_name = ''Final'', k_is_default = True\<rparr>]"
proof -
  have "\<not> kind_name_taken demo_pg demo_db ''Final''" "kind_seq demo_seqs < max_serial" "kind_seq demo_seqs + 1 = 3"
    by code_simp+
  then show ?thesis
    using PostMovieEditionKind_default [of demo_sess demo_seqs "\<lparr>pk_Name = ''Final'', pk_IsDefault = Some True\<rparr>" True 3
        "\<lparr>k_id = 3, k_name = ''Final'', k_is_default = True\<rparr>"
        "unset_rows (movie_edition_kinds demo_db) @ [\<lparr>k_id = 3, k_name = ''Final'', k_is_default = True\<rparr>]" demo_pg]
      demo_good by (auto simp: kind_of_row_def)
qed

text \<open>
  Patches of a kind that each set one field are applied in order in one transaction; setting
  the default unsets it elsewhere, and at most one kind is the default afterwards.
\<close>

lemma PatchMovieEditionKind_in_order:
  assumes "good (committed s) q0" and "i \<noteq> 0" and "i \<le> max_serial"
    and "i \<in> k_id ` set (movie_edition_kinds (committed s))" and "list_all one_field ps"
    and "rows = fold (apply_kind_patch i) ps (movie_edition_kinds (committed s))"
  shows "(\<exists>k\<in>set rows. k_id k = i \<and>
      outcome (PatchMovieEditionKind (reliable P) i (Some ps)) s =
        (Ok (kind_of_row k), (committed s)\<lparr>movie_edition_kinds := rows\<rparr>, seqs_of s)) \<and>
    count_where k_is_default rows \<le> 1"
  using PatchMovieEditionKind_outcome [OF assms] fold_kind_patch_default [of "movie_edition_kinds (committed s)" i ps]
    goodD(1,2) [OF assms(1)] assms(6) by (simp add: serial_ok_def del: One_nat_def)

text \<open>
  Deleting a kind removes exactly its row; a kind that an edition uses is kept and the
  foreign-key error of the server is answered with 500; an unknown kind is answered with 404.
\<close>

lemma DeleteMovieEditionKind_exact:
  assumes "good (committed s) q0" and "i \<noteq> 0" and "i \<le> max_serial"
  shows "outcome (DeleteMovieEditionKind (reliable P) i) s =
    (if i \<in> e_kind_id ` set (catalog_movie_editions (committed s))
     then (Err (HttpError ProblemInternalError 500 foreign_key_violation), committed s, seqs_of s)
     else if i \<in> k_id ` set (movie_edition_kinds (committed s))
     then (Ok (), (committed s)\<lparr>movie_edition_kinds :=
             filter (\<lambda>k. k_id k \<noteq> i) (movie_edition_kinds (committed s))\<rparr>, seqs_of s)
     else (Err (HttpError ProblemNotFound 404
             (errorf (''movie_edition_kind_id '' @ decimal (unat i) @ '' not found''))), committed s, seqs_of s))"
  using DeleteMovieEditionKind_used [OF assms] DeleteMovieEditionKind_removes [OF assms]
    DeleteMovieEditionKind_absent [OF assms(2,3)] by simp

section \<open>Tasks\<close>

text \<open>
  C22. A scan claims the oldest eligible task (pending, or running with an expired lease, of a handled
  type, not locked) and hands it to the worker with a lease; without an eligible task it changes
  nothing.
\<close>

theorem scan_claims_oldest:
  assumes "good (committed s) q0" and "\<forall>ty\<in>set tys. registry_Get reg ty = Ok (Some (h ty))"
    and "now = clock_at P (calls s)"
  shows "if \<exists>u\<in>set (tasks (committed s)). eligible locked tys now u
    then \<exists>t\<in>set (tasks (committed s)). eligible locked tys now t \<and>
      (\<forall>u\<in>set (tasks (committed s)). eligible locked tys now u \<longrightarrow> t_CreatedAt t \<le> t_CreatedAt u) \<and>
      outcome (scanAndAssign (reliable P) reg tys locked False wall w) s =
        (Ok (Assigned \<lparr>a_taskId = t_Id t, a_taskType = t_TaskType t, a_state = jsonb_out P (t_State t),
                        a_handler = h (t_TaskType t)\<rparr>),
         claim_in (committed s) (t_Id t) now w (wall + LeaseDuration), seqs_of s)
    else outcome (scanAndAssign (reliable P) reg tys locked False wall w) s = (Ok NoTask, committed s, seqs_of s)"
proof (cases rule: next_task_cases [of locked tys now "committed s"])
  case none
  then show ?thesis using assms(3) by (simp add: scanAndAssign_idle)
next
  case (some t)
  have "registry_Get reg (t_TaskType t) = Ok (Some (h (t_TaskType t)))"
    using some(3) assms(2) by (simp add: eligible_def)
  from scanAndAssign_claims [OF assms(1) some(1) [unfolded assms(3)] this] some(2-) show ?thesis
    unfolding assms(3) by auto
qed

theorem scan_claims_oldest_witness:
  "\<exists>t\<in>set (tasks demo_db). t_Id t = 2 \<and>
     outcome (scanAndAssign (reliable demo_pg) demo_registry [''ingest''] (\<lambda>_. False) False 1000 ''w2'') demo_sess =
       (Ok (Assigned \<lparr>a_taskId = t_Id t, a_taskType = t_TaskType t, a_state = ''{}'', a_handler = demo_handler Completed\<rparr>),
        claim_in demo_db (t_Id t) 1000 ''w2'' (1000 + LeaseDuration), demo_seqs)"
proof -
  have el: "\<exists>u\<in>set (tasks demo_db). eligible (\<lambda>_. False) [''ingest''] 1000 u"
    "\<forall>t\<in>set (tasks demo_db). eligible (\<lambda>_. False) [''ingest''] 1000 t \<and>
       (\<forall>u\<in>set (tasks demo_db). eligible (\<lambda>_. False) [''ingest''] 1000 u \<longrightarrow> t_CreatedAt t \<le> t_CreatedAt u) \<longrightarrow> t_Id t = 2"
    by code_simp+
  have "\<forall>ty\<in>set [''ingest'']. registry_Get demo_registry ty = Ok (Some (demo_handler Completed))"
    by (simp add: demo_registry_def registry_Get_def)
  from scan_claims_oldest [OF _ this, of demo_sess demo_seqs 1000 demo_pg "\<lambda>_. False" 1000 "''w2''"] demo_good el(1)
  obtain t where "t \<in> set (tasks demo_db)" "eligible (\<lambda>_. False) [''ingest''] 1000 t"
    "\<forall>u\<in>set (tasks demo_db). eligible (\<lambda>_. False) [''ingest''] 1000 u \<longrightarrow> t_CreatedAt t \<le> t_CreatedAt u"
    "outcome (scanAndAssign (reliable demo_pg) demo_registry [''ingest''] (\<lambda>_. False) False 1000 ''w2'') demo_sess =
       (Ok (Assigned \<lparr>a_taskId = t_Id t, a_taskType = t_TaskType t, a_state = ''{}'', a_handler = demo_handler Completed\<rparr>),
        claim_in demo_db (t_Id t) 1000 ''w2'' (1000 + LeaseDuration), demo_seqs)"
    by auto
  with el(2) show ?thesis by blast
qed

text \<open>
  C4. A lease excludes: after a scan assigned a task to a worker, no scan by any worker that the
  server runs before the lease ends is assigned the same task, whatever the program does in between and whatever faults the
  driver has: requests, other scans before the end of the lease, runs of the ingestion handler for any task, the assigned one
  included, with any outcome, and renewals, of which those of the task itself do not set an earlier end. The only handler of the program ends its
  task or leaves the row alone; a handler that returned \<^verbatim>\<open>Pending\<close> would put its task back into the queue.
\<close>

theorem lease_is_exclusive:
  assumes "jsonb_ok S" and "system_ok S {} s" and "same_server P S"
    and "scanAndAssign P reg tys locked c now w s = (Ok (Assigned a), s1)"
    and "(lease_step S p (a_taskId a) (now + LeaseDuration))\<^sup>*\<^sup>* s1 s2"
    and "scanAndAssign P' reg' tys' locked' c' now' w' s2 = (Ok (Assigned a'), s3)"
    and "clock_at P' (calls s2) \<le> now + LeaseDuration"
  shows "a_taskId a' \<noteq> a_taskId a"
  using lease_excludes_scan [OF lease_steps_inv [OF assms(5,1) claim_starts_lease [OF assms(1,3,2,4)]] assms(6,7)] .

theorem lease_is_exclusive_witness:
  "\<exists>a s1 a' s3. scanAndAssign media_pg demo_registry [''ingest''] (\<lambda>_. False) False 1000 ''w2'' demo_sess = (Ok (Assigned a), s1) \<and>
     scanAndAssign media_pg demo_registry [''ingest''] (\<lambda>_. False) False 2000 ''w3'' (snd (renewLease media_pg ''w2'' 1500 2 s1)) =
       (Ok (Assigned a'), s3) \<and> a_taskId a' \<noteq> a_taskId a"
proof -
  obtain a s1 where a: "scanAndAssign media_pg demo_registry [''ingest''] (\<lambda>_. False) False 1000 ''w2'' demo_sess = (Ok (Assigned a), s1)"
    and i: "a_taskId a = 2" and s1: "committed s1 = claim_in demo_db 2 1000 ''w2'' (1000 + LeaseDuration)"
    by (rule demo_lease)
  have same: "same_server media_pg media_pg" by (simp add: same_server_def)
  obtain s2 where s2: "snd (renewLease media_pg ''w2'' 1500 2 s1) = s2" by simp
  have step: "lease_step media_pg media_paths (a_taskId a) (1000 + LeaseDuration) s1 s2"
    using lease_step.renew [OF same, where k = 2 and now = 1500 and w = "''w2''" and s = s1] s2 i by (simp add: LeaseDuration_def)
  obtain a' s3 where a': "scanAndAssign media_pg demo_registry [''ingest''] (\<lambda>_. False) False 2000 ''w3'' s2 = (Ok (Assigned a'), s3)"
    using demo_lease_scan [OF a s2] by blast
  have "clock_at media_pg (calls s2) \<le> 1000 + LeaseDuration" by (simp add: LeaseDuration_def)
  moreover from step have "(lease_step media_pg media_paths (a_taskId a) (1000 + LeaseDuration))\<^sup>*\<^sup>* s1 s2" by blast
  ultimately have "a_taskId a' \<noteq> a_taskId a" using lease_is_exclusive [OF media_jsonb_ok demo_system_ok same a _ a'] by blast
  with a a' s2 show ?thesis by metis
qed

text \<open>
  C5. Leases hold among transactions that overlap: a transaction has claimed a task, committed or not, and then any transactions
  update other rows or renew the task, claim, commit and roll back (not the claiming one), in any order. Then no
  claim before the end of the lease gets the same task.
\<close>

theorem overlapping_claims:
  assumes "rc_ok s" and "rc_claim x tys w e now s = Some (i, s1)" and "rc_run s1 es s2" and "list_all (undisturbed x i e) es"
    and "rc_claim y tys' w' e' now' s2 = Some (j, s3)" and "now' \<le> e"
  shows "j \<noteq> i"
  using assms by (rule overlap_excludes)

theorem overlapping_claims_witness:
  "\<exists>s1 s3 j. rc_claim 0 [''ingest''] ''w3'' 600 400 family = Some (3, s1) \<and>
     rc_claim 1 [''ingest''] ''w4'' 610 410 (rc_commit 0 s1) = Some (j, s3) \<and> j \<noteq> 3"
proof -
  note eval = rc_claim_def next_task_def visible_def version_def locked_for_def claimable_def family_row_def rc_write_def
    stamp_def claim_row_def rc_commit_def
  obtain s1 where 1: "rc_claim 0 [''ingest''] ''w3'' 600 400 family = Some (3, s1)" by (simp add: eval family_def)
  obtain j s3 where 2: "rc_claim 1 [''ingest''] ''w4'' 610 410 (rc_commit 0 s1) = Some (j, s3)"
    using 1 by (auto simp: eval family_def)
  have "rc_run s1 ([] @ [Committed 0]) (rc_commit 0 s1)" by (rule rc_run.step [OF rc_run.nil rc_step.committed])
  from overlapping_claims [OF family_ok 1 this _ 2] have "j \<noteq> 3" by simp
  with 1 2 show ?thesis by blast
qed



text \<open>
  C19. When a handler completes or fails its task, the worker commits, in one transaction with the
  handler's own changes, the row without lease and, if the parent waits, the parent as pending
  together with a notification.
\<close>

theorem finished_child_resumes_parent:
  assumes "handles P a s r n d q" and "tasks_ok d q0" and "t \<in> set (tasks d)" and "t_Id t = a_taskId a"
    and "\<forall>u\<in>set (tasks d). task_id_ok (t_Id u)"
    and "NewStatus r = StatusFailed \<or>
      NewStatus r = StatusCompleted \<and> t_Status t \<noteq> StatusFailed \<and> state_of P (NewState r) v"
  shows "outcome (processTask (reliable P) a) s =
    (Ok (), resume_parent (finished d (a_taskId a) (clock_at P (calls s)) (done_row r v)) (t_ParentId t)
       (clock_at P (calls s)), q)"
  using assms by (rule processTask_finishes)

theorem finished_child_resumes_parent_witness:
  "\<exists>d'. outcome (processTask (reliable demo_pg) (demo_assignment 2 Completed)) demo_sess = (Ok (), d', demo_seqs) \<and>
     map (\<lambda>t. (t_Id t, t_Status t)) (tasks d') =
       [(1, StatusPending), (2, StatusCompleted), (3, StatusPending), (4, StatusCompleted)] \<and> notified d' = 1"
proof -
  let ?t = "demo_task 2 StatusRunning (Some ''w1'') (Some 500) (Some 1) 20"
  let ?d = "resume_parent (finished demo_db 2 1000 (done_row Completed None)) (Some 1) 1000"
  have "outcome (processTask (reliable demo_pg) (demo_assignment 2 Completed)) demo_sess = (Ok (), ?d, demo_seqs)"
    using finished_child_resumes_parent [OF demo_handles [where s = demo_sess], of demo_seqs ?t 2 Completed None]
      demo_tasks_ok demo_ids
    by (simp add: demo_db_def demo_task_def Completed_def state_of_def)
  moreover have "map (\<lambda>t. (t_Id t, t_Status t)) (tasks ?d) =
       [(1, StatusPending), (2, StatusCompleted), (3, StatusPending), (4, StatusCompleted)]" "notified ?d = 1"
    by (simp_all add: resume_parent_def finished_def resumed_def done_row_def update_where_def demo_db_def demo_task_def
        empty_db_def Completed_def set_state_def release_def stamp_def)
  ultimately show ?thesis by (intro exI conjI)
qed

text \<open>
  A result that asks for a retry or for waiting puts the task back without worker and lease, but
  sends no notification, although a task that is pending again could be claimed at once.
\<close>

lemma requeue_sends_no_notification:
  assumes "handles P a s r n d q" and "tasks_ok d q0" and "t \<in> set (tasks d)" and "t_Id t = a_taskId a"
    and "task_id_ok (a_taskId a)" and "t_Status t \<noteq> StatusFailed"
    and "NewStatus r = StatusPending \<or> NewStatus r = StatusWaiting" and "state_of P (NewState r) v"
  shows "\<exists>d'. outcome (processTask (reliable P) a) s = (Ok (), d', q) \<and> notified d' = notified d \<and>
    d' = finished d (a_taskId a) (clock_at P (calls s)) (\<lambda>t. release ((set_state v t)\<lparr>t_Status := NewStatus r\<rparr>))"
  using processTask_requeues [OF assms] by (simp add: finished_def)

text \<open>
  C37. A child that finishes while its parent still runs is missed: the worker of the child finds the parent not waiting and
  resumes nothing; when the parent, which has read the child as running, then gives a waiting result, it waits for a child that
  is completed, and stays waiting in every run of transactions that do not update it. Only other children, or a caller of
  Resume, can end that.
\<close>

theorem parent_misses_child:
  assumes "rc_ok s" and "rc_vers s = []" and "p \<in> set (rc_rows s)" and "c \<in> set (rc_rows s)" and "t_ParentId c = Some (t_Id p)"
    and "t_Status p = StatusRunning" and "t_Status c = StatusRunning" and "t_Id p \<noteq> t_Id c"
  shows "\<exists>s1 s2. rc_exec y (Complete (t_Id c) v) n1 s = Done 1 s1 \<and> rc_exec y (ResumeWaiting (t_Id p)) n2 s1 = Done 0 s1 \<and>
    rc_exec x (SetState (t_Id p) v' StatusWaiting) n3 (rc_commit y s1) = Done 1 s2 \<and>
    (\<exists>t\<in>set (rc_rows (rc_commit x s2)). t_Id t = t_Id c \<and> t_Status t = StatusCompleted) \<and>
    (\<forall>es s3. rc_run (rc_commit x s2) es s3 \<longrightarrow> list_all (untouched (t_Id p)) es \<longrightarrow>
       (\<exists>t\<in>set (rc_rows s3). t_Id t = t_Id p \<and> t_Status t = StatusWaiting))"
proof (rule missed_child [OF assms(1-4,6-8), of y v n1 n2 x v' n3])
  fix s1 s2
  let ?s = "rc_commit x s2"
  assume *: "rc_ok ?s" "settled (t_Id p) (\<lambda>t. t_Status t = StatusWaiting) ?s" "t_Id p \<in> t_Id ` set (rc_rows ?s)"
  have "\<exists>t\<in>set (rc_rows s3). t_Id t = t_Id p \<and> t_Status t = StatusWaiting"
    if "rc_run ?s es s3" "list_all (untouched (t_Id p)) es" for es s3
    by (rule settled_run [OF that * (1,2) _ *(3)]) (simp add: claimable_def)
  moreover assume "rc_exec y (Complete (t_Id c) v) n1 s = Done 1 s1" "rc_exec y (ResumeWaiting (t_Id p)) n2 s1 = Done 0 s1"
    "rc_exec x (SetState (t_Id p) v' StatusWaiting) n3 (rc_commit y s1) = Done 1 s2"
    "\<exists>t\<in>set (rc_rows ?s). t_Id t = t_Id c \<and> t_Status t = StatusCompleted"
  ultimately show ?thesis by blast
qed

theorem parent_misses_child_witness:
  "\<exists>s1 s2. rc_exec 1 (Complete 2 None) 450 family = Done 1 s1 \<and> rc_exec 1 (ResumeWaiting 1) 460 s1 = Done 0 s1 \<and>
    rc_exec 0 (SetState 1 None StatusWaiting) 470 (rc_commit 1 s1) = Done 1 s2"
proof -
  let ?p = "family_row 1 StatusRunning (Some (''w1'', 500)) None" and ?c = "family_row 2 StatusRunning (Some (''w2'', 500)) (Some 1)"
  have rows: "?p \<in> set (rc_rows family)" "?c \<in> set (rc_rows family)" "rc_vers family = []" by (simp_all add: family_def)
  have "t_ParentId ?c = Some (t_Id ?p)" "t_Status ?p = StatusRunning" "t_Status ?c = StatusRunning" "t_Id ?p \<noteq> t_Id ?c"
    "t_Id ?p = 1" "t_Id ?c = 2" by (simp_all add: family_row_def)
  with parent_misses_child [OF family_ok rows(3,1,2), of 1 None 450 460 0 None 470] show ?thesis by auto
qed

text \<open>
  C20. Two children of a waiting parent that finish at the same time do not lose its resumption: the second worker waits at the
  parent's row until the first has committed, then finds the parent pending and resumes nothing, and in the end both
  children are completed, the parent is pending, and nothing is left uncommitted.
\<close>

theorem siblings_resume_parent:
  assumes "rc_ok s" and "rc_vers s = []" and "p \<in> set (rc_rows s)" and "b \<in> set (rc_rows s)" and "c \<in> set (rc_rows s)"
    and "t_Status p = StatusWaiting" and "t_Status b = StatusRunning" and "t_Status c = StatusRunning"
    and "distinct [t_Id p, t_Id b, t_Id c]" and "x \<noteq> y"
  shows "\<exists>s1 s2 s3. rc_exec x (Complete (t_Id b) v) n1 s = Done 1 s1 \<and> rc_exec x (ResumeWaiting (t_Id p)) n2 s1 = Done 1 s2 \<and>
    rc_exec y (Complete (t_Id c) v') n3 s2 = Done 1 s3 \<and> rc_exec y (ResumeWaiting (t_Id p)) n4 s3 = Waits \<and>
    rc_exec y (ResumeWaiting (t_Id p)) n5 (rc_commit x s3) = Done 0 (rc_commit x s3) \<and>
    (let s4 = rc_commit y (rc_commit x s3) in
       (\<exists>t\<in>set (rc_rows s4). t_Id t = t_Id p \<and> t_Status t = StatusPending) \<and>
       (\<forall>i\<in>{t_Id b, t_Id c}. \<exists>t\<in>set (rc_rows s4). t_Id t = i \<and> t_Status t = StatusCompleted) \<and> rc_vers s4 = [])"
  unfolding Let_def by (rule siblings [OF assms]) blast

theorem siblings_resume_parent_witness:
  "\<exists>s1 s2 s3. rc_exec 0 (Complete 2 None) 450 siblings_family = Done 1 s1 \<and> rc_exec 0 (ResumeWaiting 1) 451 s1 = Done 1 s2 \<and>
    rc_exec 1 (Complete 3 None) 452 s2 = Done 1 s3 \<and> rc_exec 1 (ResumeWaiting 1) 453 s3 = Waits \<and>
    rc_exec 1 (ResumeWaiting 1) 454 (rc_commit 0 s3) = Done 0 (rc_commit 0 s3)"
proof -
  let ?p = "family_row 1 StatusWaiting None None" and ?b = "family_row 2 StatusRunning (Some (''w1'', 500)) (Some 1)"
    and ?c = "family_row 3 StatusRunning (Some (''w2'', 500)) (Some 1)"
  have fam: "rc_vers siblings_family = []" "?p \<in> set (rc_rows siblings_family)" "?b \<in> set (rc_rows siblings_family)"
    "?c \<in> set (rc_rows siblings_family)" by (simp_all add: siblings_family_def)
  have "t_Status ?p = StatusWaiting" "t_Status ?b = StatusRunning" "t_Status ?c = StatusRunning" "t_Id ?p = 1" "t_Id ?b = 2" "t_Id ?c = 3"
    by (simp_all add: family_row_def)
  with siblings_resume_parent [OF siblings_family_ok fam, of 0 1 None 450 451 None 452 453 454] show ?thesis by auto
qed

text \<open>
  C34. A worker that is not the owner any more is not told apart: a task that another worker has
  completed becomes pending again when the result of the first worker's handler asks for a retry.
\<close>

theorem stale_worker_reopens:
  assumes "handles P a s r n d q" and "tasks_ok d q0" and "t \<in> set (tasks d)" and "t_Id t = a_taskId a"
    and "task_id_ok (a_taskId a)" and "t_Status t = StatusCompleted"
    and "NewStatus r = StatusPending" and "state_of P (NewState r) v"
  shows "\<exists>d'. outcome (processTask (reliable P) a) s = (Ok (), d', q) \<and>
    (\<exists>t'\<in>set (tasks d'). t_Id t' = a_taskId a \<and> t_Status t' = StatusPending)"
proof -
  let ?g = "\<lambda>t. release ((set_state v t)\<lparr>t_Status := StatusPending\<rparr>)"
  let ?d = "finished d (a_taskId a) (clock_at P (calls s)) ?g"
  have "outcome (processTask (reliable P) a) s = (Ok (), ?d, q)"
    using processTask_requeues [OF assms(1-5) _ _ assms(8)] assms(6,7) by simp
  moreover have "stamp (clock_at P (calls s)) (?g t) \<in> set (tasks ?d)"
    using set_finished [OF assms(3,4), of "clock_at P (calls s)" ?g] .
  moreover have "t_Id (?g t) = a_taskId a" "t_Status (?g t) = StatusPending"
    using assms(4) by (simp_all add: release_def set_state_def split: option.splits)
  ultimately show ?thesis by (metis (no_types, lifting) stamp_simps(1,3))
qed

theorem stale_worker_reopens_witness:
  "\<exists>d'. outcome (processTask (reliable demo_pg) (demo_assignment 4 (Pending None))) demo_sess = (Ok (), d', demo_seqs) \<and>
     (\<exists>t'\<in>set (tasks d'). t_Id t' = 4 \<and> t_Status t' = StatusPending)"
proof -
  let ?t = "demo_task 4 StatusCompleted None None None 40"
  have "?t \<in> set (tasks demo_db)" "task_id_ok 4" by (simp_all add: demo_db_def task_id_ok_def max_task_id_def)
  then show ?thesis
    using stale_worker_reopens [OF demo_handles [where s = demo_sess], of demo_seqs ?t 4 "Pending None" None] demo_tasks_ok
    by (simp add: Pending_def state_of_def demo_task_def)
qed

text \<open>
  C23. A cancelled task is not revived: whatever its handler returned but a failure, the worker's
  transaction is rolled back and the committed tables stay as they were.
\<close>

theorem cancelled_task_not_revived:
  assumes "handles P a s r n d q" and "tasks_ok d q0" and "t \<in> set (tasks d)" and "t_Id t = a_taskId a"
    and "task_id_ok (a_taskId a)" and "t_Status t = StatusFailed" and "NewStatus r \<noteq> StatusFailed"
  shows "\<exists>e. outcome (processTask (reliable P) a) s = (Err e, committed s, q)"
  using assms by (rule processTask_refused)

theorem cancelled_task_not_revived_witness:
  "\<exists>e. outcome (processTask (reliable demo_pg) (demo_assignment 3 Completed)) demo_cancelled =
     (Err e, committed demo_cancelled, demo_seqs)"
proof -
  let ?t = "stamp 900 (cancelled_row (demo_task 3 StatusPending None None (Some 1) 30))"
  have "?t \<in> set (tasks (committed demo_cancelled))"
    by (simp add: demo_cancelled_def mark_cancelled_def update_where_def demo_db_def demo_task_def live_def)
  moreover have "tasks_ok (committed demo_cancelled) demo_seqs" "seqs_of demo_cancelled = demo_seqs"
    using demo_tasks_ok by (simp_all add: demo_cancelled_def mark_tasks_ok)
  ultimately show ?thesis
    using cancelled_task_not_revived [OF demo_handles [where s = demo_cancelled], of demo_seqs ?t 3 Completed]
    by (simp add: Completed_def demo_task_def task_id_ok_def max_task_id_def cancelled_row_def)
qed

text \<open>
  C21. Cancelling a task terminates within the depth of the tree of tasks and marks exactly the
  unfinished tasks among the task and its descendants as failed with the error "cancelled".
\<close>

theorem Cancel_exact:
  assumes "good (committed s) q0" and "\<forall>u\<in>set (tasks (committed s)). task_id_ok (t_Id u)" and "task_id_ok i"
    and "length (tasks (committed s)) < depth"
  shows "outcome (cancel_in_tx depth (reliable P) i) s =
    (Ok (), mark_cancelled (clock_at P (calls s)) (descendants (committed s) i) (committed s), seqs_of s)"
  using Cancel_outcome [OF assms(1-3) le_less_trans [OF younger_le assms(4)]] .

theorem Cancel_exact_witness:
  "good demo_db demo_seqs \<and> outcome (cancel_in_tx 5 (reliable demo_pg) 1) demo_sess =
     (Ok (), mark_cancelled 1000 (descendants demo_db 1) demo_db, demo_seqs)"
proof -
  have "task_id_ok 1" "length (tasks demo_db) < 5" by code_simp+
  then show ?thesis using Cancel_exact [of demo_sess demo_seqs 1 5 demo_pg] demo_good demo_ids by simp
qed

section \<open>The whole system\<close>

text \<open>
  C2. Whatever requests, scans, handler runs and lease renewals follow each other, with whatever faults of
  the driver, from empty tables on: between two operations no transaction is open, the tables satisfy every
  constraint of the schema, every card has exactly one kind of details, and no media has two ingestion
  tasks.
\<close>

theorem system_invariant:
  assumes "reachable S p initial_sess s" and "jsonb_ok S"
  shows "txn s = None \<and> good (committed s) (seqs_of s) \<and> one_ingestion S (committed s)"
  using reachable_system_ok [OF assms initial_system_ok] ingest_ok_one
  by (auto simp: system_ok_def at_rest_def sys_tasks_def)

theorem system_invariant_witness:
  "jsonb_ok media_pg \<and> good (committed (serve media_pg (ReqPostSet None) initial_sess)) (seqs_of (serve media_pg (ReqPostSet None) initial_sess))"
proof -
  have "reachable media_pg media_paths initial_sess (serve media_pg (ReqPostSet None) initial_sess)"
    by (intro reachable.next_step [OF reachable.start] step.request) (simp add: same_server_def)
  then show ?thesis using system_invariant media_jsonb_ok by blast
qed

text \<open>
  C10. A task that has failed stays failed: no request, scan, late result of a handler or lease renewal, in
  any order and under any faults, revives it.
\<close>

theorem failed_stays_failed:
  assumes "reachable S p s0 s" and "jsonb_ok S" and "system_ok S {} s0"
    and "t \<in> set (tasks (committed s0))" and "t_Status t = StatusFailed"
  shows "\<exists>u\<in>set (tasks (committed s)). t_Id u = t_Id t \<and> t_Status u = StatusFailed"
proof -
  have "system_ok S {t_Id t} s0" using assms(3-5) by (auto simp: system_ok_def sys_tasks_def failed_tasks_def)
  from reachable_system_ok [OF assms(1,2) this] show ?thesis
    by (simp add: system_ok_def sys_tasks_def failed_tasks_def)
qed

theorem failed_stays_failed_witness:
  "system_ok media_pg {} failed_sess \<and>
   (\<exists>u\<in>set (tasks (committed (snd (renewLease media_pg ''w1'' 0 1 failed_sess)))). t_Id u = 1 \<and> t_Status u = StatusFailed)"
proof -
  have "reachable media_pg media_paths failed_sess (snd (renewLease media_pg ''w1'' 0 1 failed_sess))"
    by (intro reachable.next_step [OF reachable.start] step.renew) (simp add: same_server_def)
  from failed_stays_failed [OF this media_jsonb_ok failed_system_ok, of failed_task] failed_system_ok show ?thesis
    by (simp add: failed_sess_def failed_task_def media_task_def)
qed

text \<open>
  C3. A DVD is posted, claimed, moved and reported: from a system at rest with no other ingestion in the
  queue, an acceptable post answers the media with a pending ingestion; the next scan hands its task to a
  worker; the worker's run commits; and a read then shows, when the directory could be moved, the final
  path and the state done, with that one move made, and otherwise the old path, the state error and the
  reason, with nothing moved.
\<close>

theorem posted_dvd_is_ingested:
  assumes "ready P s b path" and "jsonb_ok P" and "main_registry p os_Rename = Ok reg"
    and "i = media_seq (seqs_of s) + 1" and "k = task_seq (seqs_of s) + 1" and "\<not> locked k"
    and "PostMedia (reliable P) (Some b) s = (r1, s1)"
    and "scanAndAssign (reliable P) (Some reg) [TaskTypeDvdIngestion] locked False now w s1 = (r2, s2)"
  shows "r1 = Ok (new_media_view i b path) \<and>
    (\<exists>a. r2 = Ok (Assigned a) \<and>
      (let (r3, s3) = processTask (reliable P) a s2; target = MediaDvdId p PathKindAbsolute i in
       r3 = Ok () \<and>
       (case os_Rename (renames s) (Absolute p path) target of
          None \<Rightarrow>
            renames s3 = renames s @ [(Absolute p path, target)] \<and>
            fst (GetMedia (reliable P) i s3) =
              Ok (ingested_view i b (''media/dvd/'' @ decimal (unat i)) \<lparr>ing_State = DVDIngestionStateDone, ing_ErrorMessage = None\<rparr>)
        | Some e \<Rightarrow>
            renames s3 = renames s \<and>
            fst (GetMedia (reliable P) i s3) =
              Ok (ingested_view i b path \<lparr>ing_State = DVDIngestionStateError,
                ing_ErrorMessage = Some (''failed to rename DVD path: '' @ error_text e)\<rparr>))))"
  using assms by (rule posted_dvd_ingested)

theorem posted_dvd_is_ingested_witness:
  "ready media_pg media_sess demo_media_body ''inbox/dvd/ALIENS'' \<and>
   (\<exists>s1 s2 a. PostMedia media_pg (Some demo_media_body) media_sess =
       (Ok (new_media_view 2 demo_media_body ''inbox/dvd/ALIENS''), s1) \<and>
     scanAndAssign media_pg (Some (Some [(TaskTypeDvdIngestion, Handle media_paths rename_ok)])) [TaskTypeDvdIngestion]
       (\<lambda>_. False) False 1000 ''w1'' s1 = (Ok (Assigned a), s2) \<and>
     fst (GetMedia media_pg 2 (snd (processTask media_pg a s2))) =
       Ok (ingested_view 2 demo_media_body (''media/dvd/'' @ decimal 2) \<lparr>ing_State = DVDIngestionStateDone, ing_ErrorMessage = None\<rparr>))"
proof -
  let ?reg = "Some [(TaskTypeDvdIngestion, Handle media_paths rename_ok)]"
  obtain r1 s1 where 1: "PostMedia (reliable media_pg) (Some demo_media_body) media_sess = (r1, s1)" by fastforce
  obtain r2 s2 where 2: "scanAndAssign (reliable media_pg) (Some ?reg) [TaskTypeDvdIngestion] (\<lambda>_. False) False 1000 ''w1'' s1 = (r2, s2)"
    by fastforce
  from posted_dvd_is_ingested [OF media_ready media_jsonb_ok main_registry_eq refl refl _ 1 2] 1 2 media_ready
  show ?thesis by (auto simp: rename_ok_def Let_def split_def)
qed

text \<open>
  C35. When the database refuses the statement that completes an ingestion, after the directory was moved, the
  transaction is rolled back and the move is not: the next attempt does not find the directory, the task ends
  as failed, and the media keeps the path that is empty now.
\<close>

theorem ingestion_lost_after_move:
  assumes "good (committed s) (seqs_of s)" and "\<forall>u\<in>set (tasks (committed s)). task_id_ok (t_Id u)"
    and "ingestion_of p (moves_once enoent) i a" and "t \<in> set (tasks (committed s))" and "t_Id t = a_taskId a"
    and "v \<in> set (media_dvds (committed s))" and "d_media_id v = i" and "Absolute p (d_path v) \<notin> fst ` set (renames s)"
    and "\<forall>n. fault_at P n = (if n = calls s + 3 then Refused e else NoFault)"
    and "processTask P a s = (r, s1)" and "processTask (reliable P') a s1 = (r', s2)"
  shows "r \<noteq> Ok () \<and> r' = Ok () \<and>
    renames s2 = renames s @ [(Absolute p (d_path v), MediaDvdId p PathKindAbsolute i)] \<and>
    media_dvds (committed s2) = media_dvds (committed s) \<and>
    (\<exists>u\<in>set (tasks (committed s2)). t_Id u = a_taskId a \<and> t_Status u = StatusFailed \<and>
       t_Error u = Some (''failed to rename DVD path: '' @ error_text enoent))"
  using assms by (rule lost_ingestion)

theorem ingestion_lost_after_move_witness:
  "good (committed crash_sess) (seqs_of crash_sess) \<and>
   (\<exists>s1 r s2. processTask crash_pg crash_assignment crash_sess = (r, s1) \<and> r \<noteq> Ok () \<and>
      processTask media_pg crash_assignment s1 = (Ok (), s2) \<and>
      map d_path (media_dvds (committed s2)) = [''inbox/dvd/ALIEN''] \<and> length (renames s2) = 1)"
proof -
  let ?v = "\<lparr>d_media_id = 1, d_path = ''inbox/dvd/ALIEN''\<rparr>"
  obtain r s1 where 1: "processTask crash_pg crash_assignment crash_sess = (r, s1)" by fastforce
  obtain r' s2 where 2: "processTask (reliable media_pg) crash_assignment s1 = (r', s2)" by fastforce
  have "media_task 1 ''1'' StatusRunning \<in> set (tasks (committed crash_sess))" "?v \<in> set (media_dvds (committed crash_sess))"
    by (simp_all add: crash_sess_def)
  from ingestion_lost_after_move [OF crash_good crash_ids crash_assigned this(1) _ this(2) _ _ _ 1 2, of "New ''connection reset''"] 1 2 crash_good
  show ?thesis by (simp add: crash_assignment_def media_task_def crash_sess_def crash_pg_def)
qed

section \<open>Media\<close>

text \<open>
  C11. On a consistent system with ids left, a media is accepted exactly when the request has a body that names a non-empty
  DVD path that no DVD has, an existing media set or none, and existing cards without repetition. It is then
  stored with its DVD, its links and one pending ingestion task, in one transaction with one
  notification; a request that is not accepted changes no table, and one without body or path is refused with 400.
\<close>

theorem PostMedia_accepts_iff:
  assumes "system_ok P X s" and "jsonb_ok P" and "media_seq (seqs_of s) < max_serial" and "task_seq (seqs_of s) < max_task_id"
    and "i = media_seq (seqs_of s) + 1" and "k = task_seq (seqs_of s) + 1"
  shows "(is_Ok (fst (PostMedia (reliable P) body s)) \<longleftrightarrow>
      (\<exists>b path. body = Some b \<and> pm_DvdInboxPath b = Some path \<and> post_media_ok (committed s) b path)) \<and>
    (case body of
       None \<Rightarrow> \<exists>e. outcome (PostMedia (reliable P) body) s = (Err (HttpError ProblemBadRequest 400 e), committed s, seqs_of s)
     | Some b \<Rightarrow>
         (case pm_DvdInboxPath b of
            None \<Rightarrow> \<exists>e. outcome (PostMedia (reliable P) body) s = (Err (HttpError ProblemBadRequest 400 e), committed s, seqs_of s)
          | Some path \<Rightarrow>
              if post_media_ok (committed s) b path
              then outcome (PostMedia (reliable P) body) s =
                (Ok (new_media_view i b path),
                 add_ingestion (new_ingestion P k i (clock_at P (calls s))) (add_media i b path (committed s)),
                 (seqs_of s)\<lparr>media_seq := i, task_seq := k\<rparr>)
              else \<exists>e q. outcome (PostMedia (reliable P) body) s = (Err e, committed s, q)))"
proof (cases "posted_path body")
  case None
  then have "\<exists>e. outcome (PostMedia (reliable P) body) s = (Err (HttpError ProblemBadRequest 400 e), committed s, seqs_of s)"
    by (rule PostMedia_no_path)
  with None show ?thesis by (auto simp: posted_path_def outcome_def split: option.splits)
next
  case (Some path)
  then obtain b where b: "body = Some b" "pm_DvdInboxPath b = Some path" by (auto simp: posted_path_def split: option.splits)
  have "if post_media_ok (committed s) b path
    then outcome (PostMedia (reliable P) body) s =
      (Ok (new_media_view i b path),
       add_ingestion (new_ingestion P k i (clock_at P (calls s))) (add_media i b path (committed s)),
       (seqs_of s)\<lparr>media_seq := i, task_seq := k\<rparr>)
    else \<exists>e q. outcome (PostMedia (reliable P) body) s = (Err e, committed s, q)"
    using system_okD [OF assms(1,3)] PostMedia_outcome [OF _ _ assms(2) b(2) assms(3,4,5,6)] assms(5) by (simp add: b(1))
  with b show ?thesis by (auto simp: outcome_def split: if_splits)
qed

theorem PostMedia_accepts_iff_witness:
  "system_ok media_pg {} media_sess \<and> is_Ok (fst (PostMedia (reliable media_pg) (Some demo_media_body) media_sess)) \<and>
   \<not> is_Ok (fst (PostMedia (reliable media_pg) (Some (demo_media_body\<lparr>pm_CardIds := [2, 2]\<rparr>)) media_sess)) \<and>
   \<not> is_Ok (fst (PostMedia (reliable media_pg) None media_sess))"
proof -
  have ok: "post_media_ok media_db demo_media_body ''inbox/dvd/ALIENS''"
    "\<not> post_media_ok media_db (demo_media_body\<lparr>pm_CardIds := [2, 2]\<rparr>) ''inbox/dvd/ALIENS''" by code_simp+
  have room: "media_seq (seqs_of media_sess) < max_serial" "task_seq (seqs_of media_sess) < max_task_id"
    by (simp_all add: max_serial_def max_task_id_def)
  have path: "pm_DvdInboxPath demo_media_body = Some ''inbox/dvd/ALIENS''" by (simp add: demo_media_body_def)
  from PostMedia_accepts_iff [OF media_system_ok media_jsonb_ok room refl refl] ok path media_system_ok
  show ?thesis by simp
qed

text \<open>
  C26. What a client reads of a media is well formed: it has the id asked for, its cards in order and once
  each, a non-empty path when it is a DVD, and an error message exactly when its ingestion failed.
\<close>

theorem GetMedia_well_formed:
  assumes "system_ok P X s" and "i \<le> max_serial" and "GetMedia (reliable P) i s = (Ok m, s')"
  shows "media_wf i m"
  using assms by (rule GetMedia_wf)

theorem GetMedia_well_formed_witness:
  "\<exists>m s'. system_ok media_pg {} media_sess \<and> GetMedia (reliable media_pg) 1 media_sess = (Ok m, s') \<and> media_wf 1 m"
proof -
  have m: "\<lparr>m_id = 1, m_media_set_id = Some 1, m_note = None\<rparr> \<in> set (media_tbl (committed media_sess))"
    by (simp add: media_db_def)
  have "outcome (GetMedia (reliable media_pg) 1) media_sess =
      (Ok (media_view media_pg media_db \<lparr>m_id = 1, m_media_set_id = Some 1, m_note = None\<rparr>), media_db, media_seqs)"
    using GetMedia_outcome(1) [of media_sess media_seqs media_pg 1, OF _ _ _ m] media_good
      system_okD(2) [OF media_system_ok] by (simp add: max_serial_def)
  then obtain m s' where run: "GetMedia (reliable media_pg) 1 media_sess = (Ok m, s')"
    by (metis fst_conv outcome_def prod.collapse)
  have "(1 :: uint32) \<le> max_serial" by (simp add: max_serial_def)
  from GetMedia_well_formed [OF media_system_ok this run] run media_system_ok show ?thesis by blast
qed

text \<open>
  Following the page tokens of the media listing, with any page size but zero, terminates and enumerates
  every media once, in the order of the ids, each with its DVD, the state of its ingestion and its cards.
\<close>

lemma ListMedia_walk:
  assumes "system_ok P X s" and "want \<noteq> Some 0" and "length (media_tbl (committed s)) < fuel"
  shows "outcome (walk fuel (ListMedia (reliable P) want) None) s =
    (Ok (map (media_view P (committed s)) (sort_key m_id (media_tbl (committed s)))), committed s, seqs_of s)"
proof -
  have "media_consistent P (committed s)"
    using assms(1) ingest_ok_one by (auto simp: media_consistent_def consistent_def system_ok_def at_rest_def sys_tasks_def good_def)
  from media_pages.walk_all [OF this assms(2,3)] show ?thesis .
qed

text \<open>
  C29. Patches of a media that each set one applicable field are applied in order, in one transaction; the
  answer is the media as the tables then have it.
\<close>

theorem PatchMedia_in_order:
  assumes "system_ok P X s" and "i \<noteq> 0" and "i \<in> m_id ` set (media_tbl (committed s))"
    and "media_patches_ok (committed s) i ps" and "d' = fold (apply_media_patch i) ps (committed s)"
  shows "\<exists>m\<in>set (media_tbl d'). m_id m = i \<and>
    outcome (PatchMedia (reliable P) i (Some ps)) s = (Ok (media_view P d' m), d', seqs_of s)"
proof -
  have "good (committed s) (seqs_of s)" "one_ingestion P (committed s)"
    using assms(1) ingest_ok_one by (auto simp: system_ok_def at_rest_def sys_tasks_def)
  from PatchMedia_outcome [OF this assms(2-5)] show ?thesis .
qed

theorem PatchMedia_in_order_witness:
  "media_patches_ok media_db 1 demo_media_patches \<and>
   (\<exists>m. m_media_set_id m = None \<and> m_note m = Some ''rip again'' \<and>
      outcome (PatchMedia (reliable media_pg) 1 (Some demo_media_patches)) media_sess =
        (Ok (media_view media_pg (fold (apply_media_patch 1) demo_media_patches media_db) m),
         fold (apply_media_patch 1) demo_media_patches media_db, media_seqs))"
proof -
  have ok: "media_patches_ok media_db 1 demo_media_patches" "(1 :: uint32) \<in> m_id ` set (media_tbl media_db)" "(1 :: uint32) \<noteq> 0"
    "\<forall>m\<in>set (media_tbl (fold (apply_media_patch 1) demo_media_patches media_db)). m_media_set_id m = None \<and> m_note m = Some ''rip again''"
    by code_simp+
  show ?thesis
    using PatchMedia_in_order [OF media_system_ok, of 1 demo_media_patches] ok by auto
qed

text \<open>
  C18. Whatever the driver does at each call, a request that changes media or media sets either succeeds with
  exactly the result and tables of an undisturbed run, or fails and leaves the committed tables as they
  were, or as the undisturbed, successful run leaves them.
\<close>

theorem media_all_or_nothing:
  "all_or_nothing P (\<lambda>P. PostMedia P body) s \<and> all_or_nothing P (\<lambda>P. PatchMedia P i patches) s \<and>
   all_or_nothing P (\<lambda>P. DeleteMedia P i) s \<and>
   all_or_nothing P (\<lambda>P. PostMediaSet P sbody) s \<and> all_or_nothing P (\<lambda>P. PatchMediaSet P i spatches) s \<and>
   all_or_nothing P (\<lambda>P. DeleteMediaSet P i) s"
  by (intro conjI all_or_nothingI atomic_media atomic_media_sets clean_media clean_media_sets)

section \<open>Media sets and resources\<close>

text \<open>
  C8. The handlers of media sets implement a map from ids to media sets: a read is a lookup (404 without
  entry), an accepted post adds the posted set under a fresh id, an accepted delete (of a set without
  media) removes the entry, and accepted patches edit it; each answers the entry as the map then has it.
\<close>

theorem media_sets_refine_map:
  assumes "good (committed s) (seqs_of s)"
  shows "(i \<noteq> 0 \<longrightarrow> i \<le> max_serial \<longrightarrow> outcome (GetMediaSet (reliable P) i) s =
      (case sets_of (committed s) i of
         Some e \<Rightarrow> Ok e | None \<Rightarrow> Err (HttpError ProblemNotFound 404 (errorf (set_not_found i))),
       committed s, seqs_of s)) \<and>
    (i = media_set_seq (seqs_of s) + 1 \<longrightarrow> media_set_seq (seqs_of s) < max_serial \<longrightarrow> ps_Name b \<noteq> [] \<longrightarrow>
       cards_ok (committed s) (ps_CardIds b) \<longrightarrow>
       (case PostMediaSet (reliable P) (Some b) s of (r, s') \<Rightarrow>
          sets_of (committed s) i = None \<and> sets_of (committed s') = post_spec i b (sets_of (committed s)) \<and>
          r = Ok (the (sets_of (committed s') i)))) \<and>
    (i \<noteq> 0 \<longrightarrow> i \<le> max_serial \<longrightarrow>
       (case DeleteMediaSet (reliable P) i s of (r, s') \<Rightarrow>
          ((\<exists>u. r = Ok u) \<longleftrightarrow>
             sets_of (committed s) i \<noteq> None \<and> (\<forall>m\<in>set (media_tbl (committed s)). m_media_set_id m \<noteq> Some i)) \<and>
          sets_of (committed s') = (if \<exists>u. r = Ok u then delete_spec i (sets_of (committed s)) else sets_of (committed s)))) \<and>
    (i \<noteq> 0 \<longrightarrow> sets_of (committed s) i \<noteq> None \<longrightarrow> set_patches_ok (committed s) i ps \<longrightarrow>
       (case PatchMediaSet (reliable P) i (Some ps) s of (r, s') \<Rightarrow>
          sets_of (committed s') = patch_spec i ps (sets_of (committed s)) \<and> r = Ok (the (sets_of (committed s') i))))"
proof (intro conjI impI)
  show "outcome (GetMediaSet (reliable P) i) s =
      (case sets_of (committed s) i of
         Some e \<Rightarrow> Ok e | None \<Rightarrow> Err (HttpError ProblemNotFound 404 (errorf (set_not_found i))),
       committed s, seqs_of s)" if "i \<noteq> 0" "i \<le> max_serial"
    using GetMediaSet_refines [OF assms that] .
next
  assume post: "i = media_set_seq (seqs_of s) + 1" "media_set_seq (seqs_of s) < max_serial" "ps_Name b \<noteq> []"
    "cards_ok (committed s) (ps_CardIds b)"
  obtain r s' where run: "PostMediaSet (reliable P) (Some b) s = (r, s')" by fastforce
  from PostMediaSet_refines [OF assms post(2,1,3,4) run]
  show "case PostMediaSet (reliable P) (Some b) s of (r, s') \<Rightarrow>
      sets_of (committed s) i = None \<and> sets_of (committed s') = post_spec i b (sets_of (committed s)) \<and>
      r = Ok (the (sets_of (committed s') i))" unfolding run by simp
next
  assume i: "i \<noteq> 0" "i \<le> max_serial"
  obtain r s' where run: "DeleteMediaSet (reliable P) i s = (r, s')" by fastforce
  from DeleteMediaSet_refines [OF assms i run]
  show "case DeleteMediaSet (reliable P) i s of (r, s') \<Rightarrow>
      ((\<exists>u. r = Ok u) \<longleftrightarrow>
         sets_of (committed s) i \<noteq> None \<and> (\<forall>m\<in>set (media_tbl (committed s)). m_media_set_id m \<noteq> Some i)) \<and>
      sets_of (committed s') = (if \<exists>u. r = Ok u then delete_spec i (sets_of (committed s)) else sets_of (committed s))"
    unfolding run by simp
next
  assume patch: "i \<noteq> 0" "sets_of (committed s) i \<noteq> None" "set_patches_ok (committed s) i ps"
  obtain r s' where run: "PatchMediaSet (reliable P) i (Some ps) s = (r, s')" by fastforce
  from PatchMediaSet_refines [OF assms patch run]
  show "case PatchMediaSet (reliable P) i (Some ps) s of (r, s') \<Rightarrow>
      sets_of (committed s') = patch_spec i ps (sets_of (committed s)) \<and> r = Ok (the (sets_of (committed s') i))"
    unfolding run by simp
qed

theorem media_sets_refine_map_witness:
  "good media_db media_seqs \<and> set_patches_ok media_db 1 demo_set_patches \<and>
   (case PatchMediaSet (reliable media_pg) 1 (Some demo_set_patches) media_sess of (r, s') \<Rightarrow>
      r = Ok \<lparr>mset_Id = 1, mset_Name = ''Alien saga'', mset_Note = None, mset_CardIds = [1, 2]\<rparr>)"
proof -
  have ok: "set_patches_ok media_db 1 demo_set_patches"
    "patch_spec 1 demo_set_patches (sets_of media_db) 1 =
       Some \<lparr>mset_Id = 1, mset_Name = ''Alien saga'', mset_Note = None, mset_CardIds = [1, 2]\<rparr>"
    "sets_of media_db 1 \<noteq> None" by code_simp+
  show ?thesis
    using media_sets_refine_map [of media_sess 1 media_pg _ demo_set_patches] media_good ok
    by (simp add: split_def)
qed

text \<open>
  C25. A resource that was deleted is not found afterwards, and every other resource of its kind reads as
  before: for cards (with the cards of a movie's editions), kinds of editions, media sets and media.
\<close>

theorem deleted_is_missing:
  assumes "media_rest P s" and "i \<noteq> 0" and "i \<le> max_serial" and "j \<noteq> 0" and "j \<le> max_serial"
  shows "(DeleteCard (reliable P) i s = (Ok (), s') \<longrightarrow> fst (GetCard (reliable P) j s') =
      (if j \<in> doomed (committed s) i then Err (HttpError ProblemNotFound 404 (errorf (card_not_found j)))
       else fst (GetCard (reliable P) j s))) \<and>
    (DeleteMovieEditionKind (reliable P) i s = (Ok (), s') \<longrightarrow> fst (GetMovieEditionKind (reliable P) j s') =
      (if j = i then Err (HttpError ProblemNotFound 404 (errorf (''movie_edition_kind with id '' @ decimal (unat j) @ '' not found'')))
       else fst (GetMovieEditionKind (reliable P) j s))) \<and>
    (DeleteMediaSet (reliable P) i s = (Ok (), s') \<longrightarrow> fst (GetMediaSet (reliable P) j s') =
      (if j = i then Err (HttpError ProblemNotFound 404 (errorf (set_not_found j))) else fst (GetMediaSet (reliable P) j s))) \<and>
    (DeleteMedia (reliable P) i s = (Ok (), s') \<longrightarrow> fst (GetMedia (reliable P) j s') =
      (if j = i then Err (HttpError ProblemNotFound 404 (errorf (media_not_found j))) else fst (GetMedia (reliable P) j s)))"
proof -
  have rest: "at_rest s" using assms(1) by (simp add: media_rest_def)
  show ?thesis
    using card_resource.read_after_remove [OF rest assms(2,3) _ assms(4,5)]
      kind_resource.read_after_remove [OF rest assms(2,3) _ assms(4,5)]
      set_resource.read_after_remove [OF rest assms(2,3) _ assms(4,5)]
      media_resource.read_after_remove [OF assms(1-3) _ assms(4,5)]
    by auto
qed

theorem deleted_is_missing_witness:
  "media_rest media_pg media_sess \<and>
   (\<exists>s'. DeleteMedia (reliable media_pg) 1 media_sess = (Ok (), s') \<and>
      fst (GetMedia (reliable media_pg) 1 s') = Err (HttpError ProblemNotFound 404 (errorf (media_not_found 1))))"
proof -
  have one: "(1 :: uint32) \<le> max_serial" "(1 :: uint32) \<in> m_id ` set (media_tbl media_db)" by code_simp+
  obtain r s' where run: "DeleteMedia (reliable media_pg) 1 media_sess = (r, s')" by fastforce
  then have "r = Ok ()" using DeleteMedia_outcome [of media_sess media_seqs 1 media_pg] media_good one by (simp add: outcome_def)
  with deleted_is_missing [OF media_rest_system [OF media_system_ok], of 1 1 s'] run one media_rest_system [OF media_system_ok]
  show ?thesis by auto
qed

section \<open>Inbox and paths\<close>

text \<open>
  C30. Below an absolute root directory, following the page tokens of the inbox, with any page size but zero, terminates and
  gives the path of every directory in the inbox once, in order, and of nothing else, and at most one page more than there are
  entries is read, when the listed paths are UTF-8. File names need not be: where the first path carries a token that sorts
  below it (a name with the byte FF, which the token replaces by U+FFFD, does), a walk with pages of size one gets the
  same page again and again and does not end.
\<close>

theorem ListInboxDVDs_walk:
  assumes "os_ReadDir (InboxDvd p PathKindAbsolute) = Inr files" and "is_rooted (RootDir p)"
    and "\<forall>d\<in>set files. plain (de_Name d)" and "distinct (map de_Name files)" and "length files < 2 ^ 32"
  shows "(\<forall>want fuel. (\<forall>t\<in>set (inbox_dirs (InboxDvd p PathKindAbsolute) files). to_valid_utf8 t = t) \<longrightarrow>
      want \<noteq> Some 0 \<longrightarrow> length files < fuel \<longrightarrow>
      walk_inbox fuel os_ReadDir p want None = Some (sort (inbox_dirs (InboxDvd p PathKindAbsolute) files))) \<and>
    (\<forall>t rest fuel. sort (inbox_dirs (InboxDvd p PathKindAbsolute) files) = t # rest \<longrightarrow> to_valid_utf8 t < t \<longrightarrow>
      walk_inbox fuel os_ReadDir p (Some 1) None = None)"
  using walk_inbox_all [where os_ReadDir = os_ReadDir and p = p, OF assms]
    walk_inbox_repeats [where os_ReadDir = os_ReadDir and p = p, OF assms(1,5)] by blast

theorem ListInboxDVDs_walk_witness:
  "walk_inbox 4 (\<lambda>_. Inr demo_files) media_paths (Some 1) None = Some [''/srv/inbox/dvd/ALIEN'', ''/srv/inbox/dvd/ALIENS''] \<and>
   (\<forall>fuel. walk_inbox fuel (\<lambda>_. Inr [\<lparr>de_Name = [char_of (255 :: nat)], de_IsDir = True\<rparr>]) media_paths (Some 1) None = None)"
proof -
  let ?bad = "[\<lparr>de_Name = [char_of (255 :: nat)], de_IsDir = True\<rparr>]" and ?t = "''/srv/inbox/dvd/'' @ [char_of (255 :: nat)]"
  have "is_rooted (RootDir media_paths)" "\<forall>d\<in>set demo_files. plain (de_Name d)" "distinct (map de_Name demo_files)"
    "length demo_files < 4" "\<forall>t\<in>set (inbox_dirs (InboxDvd media_paths PathKindAbsolute) demo_files). to_valid_utf8 t = t"
    "sort (inbox_dirs (InboxDvd media_paths PathKindAbsolute) demo_files) = [''/srv/inbox/dvd/ALIEN'', ''/srv/inbox/dvd/ALIENS'']"
    by code_simp+
  moreover have "\<forall>d\<in>set ?bad. plain (de_Name d)" "sort (inbox_dirs (InboxDvd media_paths PathKindAbsolute) ?bad) = ?t # []"
    "to_valid_utf8 ?t < ?t" by code_simp+
  ultimately show ?thesis
    using ListInboxDVDs_walk [of "\<lambda>_. Inr demo_files" media_paths demo_files] ListInboxDVDs_walk [of "\<lambda>_. Inr ?bad" media_paths ?bad]
    by simp
qed

text \<open>
  C38. A path as the inbox lists it is not a path the ingestion finds: it is absolute, and the ingestion joins
  it to the root directory once more.
\<close>

theorem inbox_path_not_ingestible:
  assumes "is_rooted (RootDir p)" and "clean_comps (RootDir p) \<noteq> []" and "\<forall>d\<in>set files. plain (de_Name d)"
    and "path \<in> set (inbox_dirs (InboxDvd p PathKindAbsolute) files)"
  shows "Absolute p path \<noteq> path \<and> (\<exists>cs. path = rooted_path cs \<and> Absolute p path = rooted_path (clean_comps (RootDir p) @ cs))"
  using assms(4) inbox_entry [OF assms(1)] inbox_entry_doubled [OF assms(1) _ assms(2)] assms(3)
  by (auto simp: inbox_dirs_map)

theorem inbox_path_not_ingestible_witness:
  "''/srv/inbox/dvd/ALIEN'' \<in> set (inbox_dirs (InboxDvd media_paths PathKindAbsolute) demo_files) \<and>
   Absolute media_paths ''/srv/inbox/dvd/ALIEN'' \<noteq> ''/srv/inbox/dvd/ALIEN''"
proof -
  have "is_rooted (RootDir media_paths)" "clean_comps (RootDir media_paths) \<noteq> []" "\<forall>d\<in>set demo_files. plain (de_Name d)"
    "''/srv/inbox/dvd/ALIEN'' \<in> set (inbox_dirs (InboxDvd media_paths PathKindAbsolute) demo_files)" by code_simp+
  then show ?thesis using inbox_path_not_ingestible [of media_paths demo_files "''/srv/inbox/dvd/ALIEN''"] by blast
qed

text \<open>
  C32. The relative path that is stored after an ingestion and the absolute path to which the directory was
  moved name the same place, for every root directory; so do the two paths of an entry of the inbox.
\<close>

theorem stored_path_is_target:
  "Absolute p (MediaDvdId p PathKindRelative i) = MediaDvdId p PathKindAbsolute i \<and>
   (plain name \<longrightarrow> Absolute p (InboxDvdName p PathKindRelative name) = InboxDvdName p PathKindAbsolute name)"
proof (intro conjI impI)
  show "Absolute p (InboxDvdName p PathKindRelative name) = InboxDvdName p PathKindAbsolute name" if "plain name"
    unfolding InboxDvdName_def using that by (intro Absolute_relative) (simp_all add: plain_def)
qed (rule MediaDvdId_Absolute)

theorem stored_path_is_target_witness:
  "Absolute media_paths (InboxDvdName media_paths PathKindRelative ''ALIEN'') = InboxDvdName media_paths PathKindAbsolute ''ALIEN'' \<and>
   InboxDvdName media_paths PathKindAbsolute ''ALIEN'' = ''/srv/inbox/dvd/ALIEN''"
proof -
  have "plain ''ALIEN''" "InboxDvdName media_paths PathKindAbsolute ''ALIEN'' = ''/srv/inbox/dvd/ALIEN''" by code_simp+
  then show ?thesis using stored_path_is_target [of media_paths _ "''ALIEN''"] by blast
qed

text \<open>
  A stored path without dot-dot elements stays below the root directory, whatever slashes and dots it
  has: its elements follow those of the root.
\<close>

lemma path_below_root:
  assumes "is_rooted (RootDir p)" and "''..'' \<notin> set (split_slash rel)"
  shows "Absolute p rel = rooted_path (clean_comps (RootDir p) @ filter (\<lambda>c. c \<noteq> [] \<and> c \<noteq> ''.'') (split_slash rel))"
  using Absolute_below [OF assms] by (simp add: rooted_path_def)

text \<open>With them it may leave it.\<close>

lemma root_can_be_left: "Absolute media_paths ''../etc'' = ''/etc''"
  by code_simp

section \<open>Connections\<close>

text \<open>
  A user name, password, host or database name without spaces survives the connection URL: it brings no
  character into the URL that separates its parts, and reading it back gives it unchanged.
\<close>

lemma url_part_round_trip:
  assumes "CHR '' '' \<notin> set part"
  shows "userinfo_unescape (QueryEscape part) = part \<and>
    set (QueryEscape part) \<inter> {CHR '':'', CHR ''@'', CHR ''/'', CHR ''?'', CHR ''#''} = {}"
proof
  have "map (\<lambda>c. if c = CHR '' '' then CHR ''+'' else c) part = part"
    using assms by (intro map_idI) auto
  then show "userinfo_unescape (QueryEscape part) = part" by (simp add: userinfo_QueryEscape)
  have sep: "\<not> unreserved c \<and> c \<noteq> CHR ''+'' \<and> c \<noteq> CHR ''%''" if "c \<in> {CHR '':'', CHR ''@'', CHR ''/'', CHR ''?'', CHR ''#''}" for c
    using that by (auto simp: unreserved_def between_def)
  have "c \<notin> {CHR '':'', CHR ''@'', CHR ''/'', CHR ''?'', CHR ''#''}" if "c \<in> set (QueryEscape part)" for c
  proof
    assume "c \<in> {CHR '':'', CHR ''@'', CHR ''/'', CHR ''?'', CHR ''#''}"
    from sep [OF this] QueryEscape_chars [OF that] show False by (elim disjE) simp_all
  qed
  then show "set (QueryEscape part) \<inter> {CHR '':'', CHR ''@'', CHR ''/'', CHR ''?'', CHR ''#''} = {}"
    by (rule disjoint_iff [THEN iffD2, OF allI, OF impI])
qed

section \<open>Goroutines\<close>

text \<open>
  C14. However the goroutines and the database interleave, no worker is lost or used twice: there are as many
  as configured (at least one), and those that wait for work are exactly those in the channel of available
  workers, on their way back into it, or held by the scanner, each in one of these places once.
\<close>

theorem workers_accounted_for:
  assumes "any_step\<^sup>*\<^sup>* (StartHandlers n pending) s"
  shows "length (workers s) = (if n < 1 then 1 else nat n) \<and> distinct (held s) \<and>
    (\<forall>i. i \<in> set (held s) \<longleftrightarrow> i < length (workers s) \<and> workers s ! i = AwaitingWork)"
  using any_steps_workers_ok [OF assms start_workers_ok] any_steps_length [OF assms]
  by (simp add: workers_ok_def StartHandlers_def Let_def)

theorem workers_accounted_for_witness:
  "any_step\<^sup>*\<^sup>* (StartHandlers 1 []) (lost_state 1 7) \<and> held (lost_state 1 7) = [0] \<and> length (workers (lost_state 1 7)) = 1"
  using workers_accounted_for [OF announced_steps_any [OF lost_reachable [of 1 7]]] announced_steps_any [OF lost_reachable [of 1 7]]
  by (simp add: lost_state_def held_def StartHandlers_def Let_def)

text \<open>
  C6. As long as every claimable task was announced to a listening connection, or was there at the
  start, a claimable task is claimed: whatever the goroutines do, a claim comes after finitely many of their
  moves, and until then there is always a move to make. This holds whatever claims, errors of scans
  and heard creations came before.
\<close>

theorem announced_task_is_claimed:
  assumes "heard_step\<^sup>*\<^sup>* (StartHandlers n pending) s" and "todo s \<noteq> []"
  shows "will_claim s"
  using heard_steps_pool_ok [OF assms(1) start_pool_ok] assms(2) by (rule pool_will_claim)

theorem announced_task_is_claimed_witness:
  "will_claim (StartHandlers 2 [1, 2]) \<and> will_claim ((StartHandlers 0 [])\<lparr>listening := True, todo := [5], queued := 1\<rparr>)"
proof -
  let ?s = "(StartHandlers 0 [])\<lparr>listening := True\<rparr>"
  have "heard_step (StartHandlers 0 []) ?s" by (rule heard_step.listens)
  moreover have "heard_step ?s (?s\<lparr>todo := todo ?s @ [5], queued := Suc (queued ?s)\<rparr>)"
    by (rule heard_step.heard) simp
  ultimately have "heard_step\<^sup>*\<^sup>* (StartHandlers 0 []) (?s\<lparr>todo := todo ?s @ [5], queued := Suc (queued ?s)\<rparr>)" by simp
  from announced_task_is_claimed [OF this] announced_task_is_claimed [of 2 "[1, 2]" "StartHandlers 2 [1, 2]"]
  show ?thesis by (simp add: StartHandlers_def Let_def)
qed

text \<open>
  C7. The goroutine model refines to the database: whatever a scan returns (short of a panic), under any faults of the driver,
  with any locks and handlers, the pool with that scan under way has a move that ends where \<^verbatim>\<open>scanner.run\<close> goes with that
  result, and after which the tasks it holds to be claimable are those of the tables the scan leaves. The clock of the server
  is not ahead of the worker's by a lease.
\<close>

theorem scan_refines_pool:
  assumes "tasks_ok (committed s) q0" and "plain_faults P" and "clock_at P (calls s) \<le> now + LeaseDuration"
    and "scanAndAssign P reg tys locked c now w s = (r, s1)" and "\<And>x. r \<noteq> Panic x"
    and "workers_ok p" and "scan_at p = Scanning i" and "distinct (todo p)"
    and "set (todo p) = eligible_ids locked tys (clock_at P (calls s)) (committed s)"
  shows "\<exists>p'. any_step p p' \<and> after_scan i r p' \<and> distinct (todo p') \<and>
    set (todo p') = eligible_ids locked tys (clock_at P (calls s)) (committed s1)"
  using assms by (rule scan_moves)

theorem scan_refines_pool_witness:
  "\<exists>r s1 p'. scanAndAssign demo_pg demo_registry [''ingest''] (\<lambda>_. False) False 1000 ''w2'' demo_sess = (r, s1) \<and>
     any_step (scanning_pool [2, 3]) p' \<and> after_scan 0 r p' \<and> set (todo p') = eligible_ids (\<lambda>_. False) [''ingest''] 1000 (committed s1)"
proof -
  obtain r s1 where scan: "scanAndAssign demo_pg demo_registry [''ingest''] (\<lambda>_. False) False 1000 ''w2'' demo_sess = (r, s1)"
    by fastforce
  have np: "r \<noteq> Panic x" for x using demo_first_scan scan by (auto simp: outcome_def)
  have el: "eligible_ids (\<lambda>_. False) [''ingest''] 1000 demo_db = {2, 3}" by code_simp
  have "tasks_ok (committed demo_sess) demo_seqs" "plain_faults demo_pg" by (simp_all add: plain_faults_def demo_tasks_ok)
  from scan_refines_pool [OF this _ scan np scanning_pool_ok [of "[2, 3]"]] scan el
  show ?thesis by (auto simp: LeaseDuration_def scanning_pool_def)
qed

text \<open>
  C36. The workers and the scanner run before LISTEN takes effect, so that an announced task can be missed: with any number
  of workers and any task, the system started on empty tables comes, by moves of its goroutines, the creation of the task and LISTEN, to a state
  that listens, where the task can be claimed, but no move of the goroutines leads to a claim. The order is the cause: had the
  connection listened at the start, then in every state that is reached by such moves a claimable task would be claimed.
\<close>

theorem wake_up_lost:
  "(\<forall>n t. \<exists>s. announced_step\<^sup>*\<^sup>* (StartHandlers n []) s \<and> listening s \<and> t \<in> set (todo s) \<and>
      (\<forall>s' s''. internal\<^sup>*\<^sup>* s s' \<longrightarrow> \<not> claims s' s'')) \<and>
   (\<forall>n pending s. announced_step\<^sup>*\<^sup>* ((StartHandlers n pending)\<lparr>listening := True\<rparr>) s \<longrightarrow> todo s \<noteq> [] \<longrightarrow> will_claim s)"
proof (intro conjI allI impI)
  fix n t
  have "listening (lost_state n t)" "t \<in> set (todo (lost_state n t))" by (simp_all add: lost_state_def)
  then show "\<exists>s. announced_step\<^sup>*\<^sup>* (StartHandlers n []) s \<and> listening s \<and> t \<in> set (todo s) \<and>
      (\<forall>s' s''. internal\<^sup>*\<^sup>* s s' \<longrightarrow> \<not> claims s' s'')"
    using lost_reachable lost_stuck stuck_never_claims by blast
qed (rule listening_will_claim)

theorem wake_up_lost_witness:
  "(\<exists>s. announced_step\<^sup>*\<^sup>* (StartHandlers 1 []) s \<and> 7 \<in> set (todo s) \<and> \<not> will_claim s) \<and>
   will_claim ((StartHandlers 1 [7])\<lparr>listening := True\<rparr>)"
proof -
  obtain s where s: "announced_step\<^sup>*\<^sup>* (StartHandlers 1 []) s" "7 \<in> set (todo s)"
    "\<forall>s' s''. internal\<^sup>*\<^sup>* s s' \<longrightarrow> \<not> claims s' s''" using wake_up_lost by blast
  have "will_claim s \<Longrightarrow> \<exists>s' s''. internal\<^sup>*\<^sup>* s s' \<and> claims s' s''" by (rule will_claim_reaches)
  with s have "\<not> will_claim s" by blast
  moreover have "todo ((StartHandlers 1 [7])\<lparr>listening := True\<rparr>) \<noteq> []" by (simp add: StartHandlers_def Let_def)
  with wake_up_lost have "will_claim ((StartHandlers 1 [7])\<lparr>listening := True\<rparr>)" by blast
  ultimately show ?thesis using s by blast
qed

text \<open>
  C15. A cancelled task system comes to rest, so that \<^verbatim>\<open>Wait\<close> returns: from any reachable state with a cancelled
  context, whatever the goroutines do, after finitely many of their moves (at most the weight
  of the state) all have returned, and until then there is a move to make. When \<^verbatim>\<open>Wait\<close> returns, no worker is in the middle of a task.
\<close>

theorem shutdown_completes:
  assumes "start_handlers None listen_err n pending moved = (res, Some r0)" and "before_listen n pending moved"
    and "run_step\<^sup>*\<^sup>* r0 r" and "cancelled r"
  shows "will_stop r \<and> (\<forall>k r'. (goroutine_step ^^ k) r r' \<longrightarrow> k \<le> run_measure r) \<and>
    (Wait_returns (Some r) \<longrightarrow> (\<forall>i < length (workers (pl r)). \<forall>t. workers (pl r) ! i \<noteq> Processing t))"
proof -
  have ok: "run_ok r" using run_steps_ok [OF assms(3) start_run_ok [OF assms(1,2)]] .
  moreover have "\<forall>i < length (workers (pl r)). \<forall>t. workers (pl r) ! i \<noteq> Processing t" if "wg r = 0"
    using run_ok_wg(4) [OF ok that] ok by (simp add: run_ok_def)
  moreover have "k \<le> run_measure r" if "(goroutine_step ^^ k) r r'" for k r'
    using stopping.run_bounded [OF _ that] ok assms(4) by simp
  ultimately show ?thesis using cancelled_will_stop assms(4) by (simp add: Wait_returns_def)
qed

theorem shutdown_completes_witness:
  "\<exists>r. start_handlers None (Some (New ''permission denied'')) 3 [7] (claimed_first 7) =
     (Err (listen_failed (New ''permission denied'')), Some r) \<and> workers (pl r) ! 0 = Processing 7 \<and> wg r = 4 \<and> will_stop r"
proof -
  let ?r = "(claimed_first 7 (spawned 3 [7]))\<lparr>cancelled := True\<rparr>"
  have start: "start_handlers None (Some (New ''permission denied'')) 3 [7] (claimed_first 7) =
     (Err (listen_failed (New ''permission denied'')), Some ?r)"
    by (simp add: start_handlers_def listen_failed_def Let_def)
  have "workers (pl ?r) ! 0 = Processing 7" "wg ?r = 4"
    by (simp_all add: claimed_first_def spawned_def StartHandlers_def Let_def)
  moreover have "before_listen 3 [7] (claimed_first 7)" by (rule claimed_first_reached) simp
  ultimately show ?thesis using shutdown_completes [OF start, of ?r] start by simp
qed

text \<open>
  C39. The task system does not outlive its connection for notifications: when waiting on it fails once, all
  goroutines come to rest, and from then on no task is claimed although new ones arrive; nothing starts them again.
\<close>

theorem connection_loss_ends_tasks:
  assumes "start_handlers None None n pending moved = (Ok (), Some r0)" and "before_listen n pending moved"
    and "run_step\<^sup>*\<^sup>* r0 r" and "connection_lost r r1"
  shows "will_stop r1 \<and>
    (\<forall>r2 r3. run_step\<^sup>*\<^sup>* r1 r2 \<longrightarrow> wg r2 = 0 \<longrightarrow> run_step\<^sup>*\<^sup>* r2 r3 \<longrightarrow> (\<exists>new. todo (pl r3) = todo (pl r2) @ new))"
proof -
  have "run_ok r" using run_steps_ok [OF assms(3) start_run_ok [OF assms(1,2)]] .
  then have "run_ok r1" using run_step.lost [OF assms(4)] run_step_ok by blast
  then show ?thesis
    using cancelled_will_stop lost_cancels [OF assms(4)] rest_steps run_steps_ok by blast
qed

theorem connection_loss_ends_tasks_witness:
  "\<exists>r0 r1. start_handlers None None 1 [] id = (Ok (), Some r0) \<and> connection_lost r0 r1 \<and> will_stop r1"
proof -
  let ?r = "(spawned 1 [])\<lparr>pl := (StartHandlers 1 [])\<lparr>listening := True\<rparr>, dispatcher_done := False, wg := 3\<rparr>"
  have start: "start_handlers None None 1 [] id = (Ok (), Some ?r)"
    by (simp add: start_handlers_def spawned_def StartHandlers_def Let_def)
  have lost: "connection_lost ?r (?r\<lparr>dispatcher_done := True, cancelled := True, wg := wg ?r - 1\<rparr>)"
    by (rule connection_lost.intros) (simp_all add: StartHandlers_def Let_def)
  have "before_listen 1 [] id" by (simp add: before_listen_def)
  from connection_loss_ends_tasks [OF start this _ lost] start lost show ?thesis by blast
qed

section \<open>Start\<close>

text \<open>
  C17. The program serves requests exactly when every step before succeeds: the configuration, the
  directories, the pool, the migrations, the connection for notifications, and LISTEN; and it runs tasks exactly when every step but
  LISTEN succeeds, because the goroutines are started before LISTEN is sent. Then the steps come in this order, on
  the database of the configuration and port 25009, with the handler of ingestions only. When LISTEN fails the program ends with its
  message after tasks may have been run. A pool that was opened is closed last.
\<close>

theorem main_starts_in_order:
  "(serves (fst (main h d)) \<longleftrightarrow> (\<exists>c. can_start h d c)) \<and> (runs_tasks (fst (main h d)) \<longleftrightarrow> (\<exists>c. can_run_tasks h d c)) \<and>
   (\<forall>c. can_start h d c \<longrightarrow> HttpPort c = 25009 \<and>
      (\<exists>dirs rest. main h d = (preparing dirs c @ serving c @ rest @ [Closed], Ok ()) \<and> only_prints rest)) \<and>
   (\<forall>c e. can_run_tasks h d c \<longrightarrow> h_Listen h = Some e \<longrightarrow>
      (\<exists>dirs. main h d = (preparing dirs c @ [Started [TaskTypeDvdIngestion] (WorkerGoroutines c),
         Printed (''Failed to start handlers: '' @ error_text (listen_failed e)), Closed], Ok ()))) \<and>
   (\<forall>url. Opened url \<in> set (fst (main h d)) \<longrightarrow> last (fst (main h d)) = Closed)"
proof (intro conjI allI impI)
  fix c assume start: "can_start h d c"
  then show "HttpPort c = 25009" by (auto simp: can_start_def can_run_tasks_def intro: Config_New_port)
  from start show "\<exists>dirs rest. main h d = (preparing dirs c @ serving c @ rest @ [Closed], Ok ()) \<and> only_prints rest"
    by (rule main_starts) blast
next
  fix c e assume "can_run_tasks h d c" "h_Listen h = Some e"
  then show "\<exists>dirs. main h d = (preparing dirs c @ [Started [TaskTypeDvdIngestion] (WorkerGoroutines c),
      Printed (''Failed to start handlers: '' @ error_text (listen_failed e)), Closed], Ok ())"
    by (rule main_deaf) blast
qed (rule main_reaches main_closes, assumption?)+

theorem main_starts_in_order_witness:
  "can_start demo_host () demo_config \<and> serves (fst (main demo_host ())) \<and>
   \<not> serves (fst (main (demo_host\<lparr>h_Listen := Some (New ''refused'')\<rparr>) ())) \<and>
   runs_tasks (fst (main (demo_host\<lparr>h_Listen := Some (New ''refused'')\<rparr>) ()))"
proof -
  let ?deaf = "demo_host\<lparr>h_Listen := Some (New ''refused'')\<rparr>"
  have "can_run_tasks ?deaf () demo_config" using demo_can_start by (simp add: can_start_def can_run_tasks_def)
  then show ?thesis
    using main_starts_in_order [of demo_host "()"] demo_can_start main_starts_in_order [of ?deaf "()"]
    by (auto simp: can_start_def)
qed

section \<open>The client of the cards API\<close>

text \<open>
  The client's listing, given a page token and any page size but zero, returns: the cards after the token's id, each
  once, in the order of the ids, and no error; the service is left as it was.
\<close>

lemma client_lists_from_token:
  assumes "good (committed s) q0" and "relays send (\<lambda>p. ListCards (reliable P) (lp_PageSize p) (lp_PageToken p))"
    and "lp_PageToken (list_params opts) = Some tok" and "lp_PageSize (list_params opts) \<noteq> Some 0"
    and "toLastSeenId (Some tok) = Ok v" and "v \<le> max_serial"
  shows "\<exists>r s1. client_ListCards sprint send opts s = Some (Ok r, s1) \<and>
    paged_Get r = (map card_of_join (rows_above cj_Id v (card_joins (committed s))), None) \<and>
    committed s1 = committed s \<and> seqs_of s1 = seqs_of s"
  using assms by (rule client_lists_cards)

text \<open>
  With a page size of zero and a token for the first page the client's listing never returns, as soon as there is
  a card: every page is empty and its token leads back to the first page.
\<close>

lemma client_page_zero_never_returns:
  assumes "good (committed s) q0" and "relays send (\<lambda>p. ListCards (reliable P) (lp_PageSize p) (lp_PageToken p))"
    and "lp_PageToken (list_params opts) = Some tok" and "lp_PageSize (list_params opts) = Some 0"
    and "toLastSeenId (Some tok) = Ok 0" and "catalog_cards (committed s) \<noteq> []"
  shows "client_ListCards sprint send opts s = None"
  using assms by (rule client_never_returns)

text \<open>
  C40. The defaults of the client do not work with the service: a listing without a page token asks with an empty
  token, which is refused, and a card posted with any of the client's options has no details, which is refused.
\<close>

theorem client_defaults_refused:
  assumes "good (committed s) (seqs_of s)" and "card_seq (seqs_of s) < max_serial"
    and "relays list_call (\<lambda>p. ListCards (reliable P) (lp_PageSize p) (lp_PageToken p))"
    and "relays post_call (\<lambda>b. PostCard (reliable P) (Some b))"
    and "lp_PageToken (list_params opts) = None"
  shows "(\<exists>r s1 e. client_ListCards sprint list_call opts s = Some (Ok r, s1) \<and> paged_Get r = ([], Some e) \<and>
      committed s1 = committed s) \<and>
    (\<exists>r s1 e. client_PostCard sprint post_call names s = (r, s1) \<and> response_Get r = Err e \<and> committed s1 = committed s)"
  using client_first_page [OF assms(3,5)] client_posts_no_card [OF assms(1,2,4)] by blast

theorem client_defaults_refused_witness:
  "(\<exists>r s1 e. client_ListCards error_text (direct (\<lambda>p. ListCards (reliable demo_pg) (lp_PageSize p) (lp_PageToken p))) []
      demo_sess = Some (Ok r, s1) \<and> paged_Get r = ([], Some e)) \<and>
   (\<exists>r s1 e. client_PostCard error_text (direct (\<lambda>b. PostCard (reliable demo_pg) (Some b))) [WithName ''Alien'']
      demo_sess = (r, s1) \<and> response_Get r = Err e)"
  using client_defaults_refused [where s = demo_sess and opts = "[]" and sprint = error_text and P = demo_pg
      and names = "[WithName ''Alien'']", OF _ _ relays_direct relays_direct] demo_good
  by (simp add: list_params_def demo_seqs_def max_serial_def) blast

end
